(* ===== verification/PyPrelude.thy ===== *)
theory PyPrelude
  imports Main "HOL-Library.AList" "HOL-Library.Sublist" "HOL-Library.Char_ord"
begin

text \<open>
  The parts of Python that every component of the development uses: strings as lists of Unicode
  code points with the methods of \<^verbatim>\<open>str\<close> that the source calls, dictionaries as association lists
  that keep insertion order, and results of calls that may raise.

  \<^item> \<open>U\<close> embeds an ASCII literal of the source; \<open>lower\<close>, \<open>upper\<close>, \<open>strip\<close>,
    \<open>split_ws\<close>, \<open>split_on\<close>, \<open>join\<close>, \<open>str_in\<close> are \<^verbatim>\<open>str.lower\<close>, \<^verbatim>\<open>str.upper\<close>,
    \<^verbatim>\<open>str.strip\<close>, \<^verbatim>\<open>str.split()\<close>, \<^verbatim>\<open>str.split(c)\<close>, \<^verbatim>\<open>sep.join\<close> and \<^verbatim>\<open>in\<close>.
  \<^item> White space is exact for all of Unicode. Case mapping is exact on ASCII, Latin-1, basic
    Greek and Cyrillic and on the two code points outside ASCII whose lower case contains an
    ASCII character (U+0130, U+212A); other code points are left as they are. Word characters
    (\<^verbatim>\<open>\w\<close>) are exact below U+0530 and taken to be none above.
\<close>

named_theorems py_defs \<open>definitions of the embedded Python library\<close>
named_theorems inv_intros \<open>introduction rules for component invariants\<close>

section \<open>Strings\<close>

type_synonym str = "nat list"
type_synonym bytes = "nat list"

definition U :: "string \<Rightarrow> str" where
  "U s = map of_char s"

lemma U_Nil [simp]: "U [] = []"
  by (simp add: U_def)

lemma U_Cons: "U (c # cs) = of_char c # U cs"
  by (simp add: U_def)

lemma U_append: "U (s @ t) = U s @ U t"
  by (simp add: U_def)

lemma length_U [simp]: "length (U s) = length s"
  by (simp add: U_def)

lemma U_eq_iff [simp]: "U s = U t \<longleftrightarrow> s = t"
  unfolding U_def by (rule inj_map_eq_map) (simp add: inj_def)

lemma U_eq_Nil [simp]: "U s = [] \<longleftrightarrow> s = []" "[] = U s \<longleftrightarrow> s = []"
  by (auto simp: U_def)

subsection \<open>Character classes\<close>

definition is_space :: "nat \<Rightarrow> bool" where
  "is_space c \<longleftrightarrow> (9 \<le> c \<and> c \<le> 13) \<or> (28 \<le> c \<and> c \<le> 32) \<or> c = 0x85 \<or> c = 0xa0 \<or> c = 0x1680 \<or>
     (0x2000 \<le> c \<and> c \<le> 0x200a) \<or> c = 0x2028 \<or> c = 0x2029 \<or> c = 0x202f \<or> c = 0x205f \<or> c = 0x3000"

definition in_ranges :: "(nat \<times> nat) list \<Rightarrow> nat \<Rightarrow> bool" where
  "in_ranges rs c = list_ex (\<lambda>(a, b). a \<le> c \<and> c \<le> b) rs"

definition word_ranges :: "(nat \<times> nat) list" where
  "word_ranges = [(170, 170), (178, 179), (181, 181), (185, 186), (188, 190), (192, 214),
     (216, 246), (248, 705), (710, 721), (736, 740), (748, 748), (750, 750), (880, 884),
     (886, 887), (890, 893), (895, 895), (902, 902), (904, 906), (908, 908), (910, 929),
     (931, 1013), (1015, 1153), (1162, 1327)]"

definition is_word :: "nat \<Rightarrow> bool" where
  "is_word c \<longleftrightarrow> (97 \<le> c \<and> c \<le> 122) \<or> (65 \<le> c \<and> c \<le> 90) \<or> (48 \<le> c \<and> c \<le> 57) \<or> c = 95 \<or>
     (128 \<le> c \<and> in_ranges word_ranges c)"

definition is_digit :: "nat \<Rightarrow> bool" where
  "is_digit c \<longleftrightarrow> 48 \<le> c \<and> c \<le> 57"

definition is_alpha :: "nat \<Rightarrow> bool" where
  "is_alpha c \<longleftrightarrow> (65 \<le> c \<and> c \<le> 90) \<or> (97 \<le> c \<and> c \<le> 122)"

subsection \<open>Case\<close>

definition lower_cp :: "nat \<Rightarrow> nat list" where
  "lower_cp c = (if 65 \<le> c \<and> c \<le> 90 then [c + 32]
     else if c < 192 then [c]
     else if (c \<le> 222 \<and> c \<noteq> 215) then [c + 32]
     else if c = 0x130 then [105, 0x307]
     else if c = 0x212a then [107]
     else if 913 \<le> c \<and> c \<le> 939 \<and> c \<noteq> 930 then [c + 32]
     else if 1024 \<le> c \<and> c \<le> 1039 then [c + 80]
     else if 1040 \<le> c \<and> c \<le> 1071 then [c + 32]
     else [c])"

definition lower :: "str \<Rightarrow> str" where
  "lower s = concat (map lower_cp s)"

definition upper_cp :: "nat \<Rightarrow> nat list" where
  "upper_cp c = (if 97 \<le> c \<and> c \<le> 122 then [c - 32]
     else if c < 223 then [c]
     else if c = 223 then [83, 83]
     else if c \<le> 254 \<and> c \<noteq> 247 then [c - 32]
     else if c = 305 then [73]
     else if c = 383 then [83]
     else if 945 \<le> c \<and> c \<le> 971 \<and> c \<noteq> 962 then [c - 32]
     else if 1104 \<le> c \<and> c \<le> 1119 then [c - 80]
     else if 1072 \<le> c \<and> c \<le> 1103 then [c - 32]
     else [c])"

definition upper :: "str \<Rightarrow> str" where
  "upper s = concat (map upper_cp s)"

lemma lower_Nil [simp]: "lower [] = []"
  by (simp add: lower_def)

lemma lower_append [simp]: "lower (s @ t) = lower s @ lower t"
  by (simp add: lower_def)

lemma lower_cp_idem: "c' \<in> set (lower_cp c) \<Longrightarrow> lower_cp c' = [c']"
  by (auto simp: lower_cp_def split: if_splits)

lemma lower_fixed: "\<forall>c \<in> set s. lower_cp c = [c] \<Longrightarrow> lower s = s"
  by (induction s) (auto simp: lower_def)

lemma lower_idem [simp]: "lower (lower s) = lower s"
proof (rule lower_fixed, rule ballI)
  fix c assume "c \<in> set (lower s)"
  then obtain d where "c \<in> set (lower_cp d)"
    by (auto simp: lower_def)
  then show "lower_cp c = [c]" by (rule lower_cp_idem)
qed

lemma set_lower_fixed: "c \<in> set (lower s) \<Longrightarrow> lower_cp c = [c]"
  by (auto simp: lower_def dest: lower_cp_idem)

lemma lower_subset_fixed: "set t \<subseteq> set (lower s) \<Longrightarrow> lower t = t"
  by (rule lower_fixed) (auto dest: set_lower_fixed)

subsection \<open>Trimming and splitting\<close>

definition lstrip :: "str \<Rightarrow> str" where
  "lstrip s = dropWhile is_space s"

definition rstrip_by :: "(nat \<Rightarrow> bool) \<Rightarrow> str \<Rightarrow> str" where
  "rstrip_by p s = rev (dropWhile p (rev s))"

definition strip :: "str \<Rightarrow> str" where
  "strip s = rstrip_by is_space (lstrip s)"

lemma sublist_dropWhile: "sublist (dropWhile p s) s"
  by (metis suffix_dropWhile suffix_imp_sublist)

lemma sublist_rstrip_by: "sublist (rstrip_by p s) s"
  unfolding rstrip_by_def by (metis rev_rev_ident sublist_dropWhile sublist_rev)

lemma sublist_strip: "sublist (strip s) s"
  unfolding strip_def lstrip_def
  by (meson sublist_dropWhile sublist_rstrip_by sublist_order.order_trans)

lemma set_strip_subset: "set (strip s) \<subseteq> set s"
  by (rule set_mono_sublist) (rule sublist_strip)

lemma strip_id:
  assumes "t = c # x @ [d]" "\<not> is_space c" "\<not> is_space d"
  shows "strip t = t"
  using assms by (simp add: strip_def lstrip_def rstrip_by_def)

lemma strip_no_space: "list_all (\<lambda>c. \<not> is_space c) s \<Longrightarrow> strip s = s"
proof -
  assume s: "list_all (\<lambda>c. \<not> is_space c) s"
  then have "dropWhile is_space s = s" "dropWhile is_space (rev s) = rev s"
    by (cases s, simp_all) (cases "rev s", auto simp: list_all_iff dest: arg_cong [where f = set])
  then show "strip s = s" by (simp add: strip_def lstrip_def rstrip_by_def)
qed

fun split_ws_aux :: "str \<Rightarrow> str \<Rightarrow> str list" where
  "split_ws_aux acc [] = (if acc = [] then [] else [rev acc])"
| "split_ws_aux acc (c # cs) =
     (if is_space c then (if acc = [] then split_ws_aux [] cs else rev acc # split_ws_aux [] cs)
      else split_ws_aux (c # acc) cs)"

definition split_ws :: "str \<Rightarrow> str list" where
  "split_ws s = split_ws_aux [] s"

text \<open>\<^verbatim>\<open>s.split(c)\<close> for a one-character separator: always at least one part.\<close>

fun split_on :: "nat \<Rightarrow> str \<Rightarrow> str list" where
  "split_on d [] = [[]]"
| "split_on d (c # cs) =
     (if c = d then [] # split_on d cs
      else (case split_on d cs of [] \<Rightarrow> [[c]] | p # ps \<Rightarrow> (c # p) # ps))"

fun join :: "str \<Rightarrow> str list \<Rightarrow> str" where
  "join sep [] = []"
| "join sep [x] = x"
| "join sep (x # y # ys) = x @ sep @ join sep (y # ys)"

lemma split_on_not_Nil [simp]: "split_on d s \<noteq> []"
  by (induction s) (auto split: list.splits)

lemma split_on_no_sep: "p \<in> set (split_on d s) \<Longrightarrow> d \<notin> set p"
proof (induction s arbitrary: p)
  case Nil
  then show ?case by simp
next
  case (Cons c cs)
  then show ?case
    by (cases "split_on d cs") (auto split: if_splits)
qed

lemma join_split_on: "join [d] (split_on d s) = s"
proof (induction s)
  case Nil
  then show ?case by simp
next
  case (Cons c cs)
  obtain p ps where "split_on d cs = p # ps"
    by (cases "split_on d cs") auto
  with Cons show ?case
    by (cases ps) auto
qed

lemma split_on_append_sep:
  "d \<notin> set x \<Longrightarrow> split_on d (x @ d # y) = x # split_on d y"
  by (induction x) auto

lemma split_on_single: "d \<notin> set x \<Longrightarrow> split_on d x = [x]"
  by (induction x) auto

lemma split_on_join:
  "ps \<noteq> [] \<Longrightarrow> \<forall>p \<in> set ps. d \<notin> set p \<Longrightarrow> split_on d (join [d] ps) = ps"
proof (induction ps rule: induct_list012)
  case (3 x y zs)
  then show ?case by (simp add: split_on_append_sep)
qed (auto simp: split_on_single)

subsection \<open>Containment, prefixes, replacement\<close>

definition str_in :: "str \<Rightarrow> str \<Rightarrow> bool" where
  "str_in x s = sublist x s"

definition startswith :: "str \<Rightarrow> str \<Rightarrow> bool" where
  "startswith s p = prefix p s"

definition endswith :: "str \<Rightarrow> str \<Rightarrow> bool" where
  "endswith s p = suffix p s"

definition replace_char :: "nat \<Rightarrow> nat \<Rightarrow> str \<Rightarrow> str" where
  "replace_char a b s = map (\<lambda>c. if c = a then b else c) s"

definition tail_from :: "nat \<Rightarrow> 'a list \<Rightarrow> 'a list" where
  \<comment> \<open>\<^verbatim>\<open>xs[-n:]\<close> for a positive \<^verbatim>\<open>n\<close>\<close>
  "tail_from n xs = drop (length xs - n) xs"

lemma tail_from_suffix: "suffix (tail_from n xs) xs"
  by (simp add: tail_from_def suffix_drop)

lemma str_in_trans: "str_in x y \<Longrightarrow> str_in y z \<Longrightarrow> str_in x z"
  unfolding str_in_def by (rule sublist_order.order_trans)

lemma str_in_take: "str_in (take n s) s"
  by (simp add: str_in_def)

lemma str_in_takeI: "str_in x y \<Longrightarrow> str_in (take n x) y"
  by (rule str_in_trans [OF str_in_take])

lemma str_in_strip: "str_in (strip s) s"
  by (simp add: str_in_def sublist_strip)

subsection \<open>Decimal numerals\<close>

fun nat_digits :: "nat \<Rightarrow> str" where
  "nat_digits n = (if n < 10 then [48 + n] else nat_digits (n div 10) @ [48 + n mod 10])"

declare nat_digits.simps [simp del]

definition nat_str :: "nat \<Rightarrow> str" where
  "nat_str n = nat_digits n"

definition int_str :: "int \<Rightarrow> str" where
  "int_str i = (if i < 0 then 45 # nat_str (nat (- i)) else nat_str (nat i))"

definition pad_left :: "nat \<Rightarrow> nat \<Rightarrow> str \<Rightarrow> str" where
  "pad_left c w s = replicate (w - length s) c @ s"

definition pad_right :: "nat \<Rightarrow> nat \<Rightarrow> str \<Rightarrow> str" where
  "pad_right c w s = s @ replicate (w - length s) c"

text \<open>\<^verbatim>\<open>f"{n:,}"\<close>: groups of three digits from the right.\<close>

fun group3 :: "str \<Rightarrow> str" where
  "group3 (a # b # c # d # r) = a # b # c # 44 # group3 (d # r)"
| "group3 s = s"

definition commas :: "nat \<Rightarrow> str" where
  "commas n = rev (group3 (rev (nat_str n)))"

lemma nat_digits_not_Nil [simp]: "nat_digits n \<noteq> []"
  by (subst nat_digits.simps) simp

lemma nat_digits_range: "d \<in> set (nat_digits n) \<Longrightarrow> 48 \<le> d \<and> d \<le> 57"
proof (induction n rule: nat_digits.induct)
  case (1 n)
  show ?case
  proof (cases "n < 10")
    case True
    with 1 show ?thesis by (simp add: nat_digits.simps [of n])
  next
    case False
    with 1 show ?thesis by (auto simp: nat_digits.simps [of n])
  qed
qed

fun digits_val :: "str \<Rightarrow> nat" where
  "digits_val s = foldl (\<lambda>a c. 10 * a + (c - 48)) 0 s"

lemma digits_val_nat_digits: "digits_val (nat_digits n) = n"
proof (induction n rule: nat_digits.induct)
  case (1 n)
  show ?case
  proof (cases "n < 10")
    case True
    then show ?thesis by (simp add: nat_digits.simps [of n])
  next
    case False
    with 1 show ?thesis by (simp add: nat_digits.simps [of n])
  qed
qed

lemma nat_str_inj [simp]: "nat_str m = nat_str n \<longleftrightarrow> m = n"
  unfolding nat_str_def by (metis digits_val_nat_digits)

subsection \<open>UTF-8 and \<^verbatim>\<open>repr\<close>\<close>

definition utf8_cp :: "nat \<Rightarrow> bytes" where
  "utf8_cp c =
     (if c < 0x80 then [c]
      else if c < 0x800 then [0xc0 + c div 64, 0x80 + c mod 64]
      else if c < 0x10000 then [0xe0 + c div 4096, 0x80 + c div 64 mod 64, 0x80 + c mod 64]
      else [0xf0 + c div 262144, 0x80 + c div 4096 mod 64, 0x80 + c div 64 mod 64, 0x80 + c mod 64])"

definition utf8 :: "str \<Rightarrow> bytes" where
  "utf8 s = concat (map utf8_cp s)"

lemma utf8_append: "utf8 (s @ t) = utf8 s @ utf8 t"
  by (simp add: utf8_def)

definition hex_digit :: "nat \<Rightarrow> nat" where
  "hex_digit d = (if d < 10 then 48 + d else 87 + d)"

fun hex_w :: "nat \<Rightarrow> nat \<Rightarrow> str" where
  "hex_w 0 n = []"
| "hex_w (Suc k) n = hex_w k (n div 16) @ [hex_digit (n mod 16)]"

text \<open>
  \<^verbatim>\<open>repr(s)\<close>: single quotes unless the text holds one and no double quote; a backslash, the
  quote and the control characters are escaped, and so are the invisible and private-use code
  points listed here (other code points above U+00FF are printed as they are).
\<close>

definition repr_hidden :: "nat \<Rightarrow> bool" where
  "repr_hidden c \<longleftrightarrow> c = 0x1680 \<or> c = 0x180e \<or> (0x2000 \<le> c \<and> c \<le> 0x200f) \<or>
     (0x2028 \<le> c \<and> c \<le> 0x202f) \<or> (0x205f \<le> c \<and> c \<le> 0x206f) \<or> c = 0x3000 \<or>
     (0xd800 \<le> c \<and> c \<le> 0xf8ff) \<or> c = 0xfeff"

definition repr_cp :: "nat \<Rightarrow> nat \<Rightarrow> str" where
  "repr_cp q c =
     (if c = q \<or> c = 92 then [92, c]
      else if c = 10 then [92, 110]
      else if c = 13 then [92, 114]
      else if c = 9 then [92, 116]
      else if c < 32 \<or> (127 \<le> c \<and> c \<le> 160) \<or> c = 173 then [92, 120] @ hex_w 2 c
      else if repr_hidden c then [92, 117] @ hex_w 4 c
      else [c])"

definition py_repr :: "str \<Rightarrow> str" where
  "py_repr s = (let q = (if 39 \<in> set s \<and> 34 \<notin> set s then 34 else 39)
                in q # concat (map (repr_cp q) s) @ [q])"

section \<open>Dictionaries\<close>

text \<open>
  A Python dictionary keeps the order in which its keys were first inserted; an assignment to an
  existing key keeps its place. \<open>AList.update\<close> does exactly that on association lists.
\<close>

type_synonym ('k, 'v) dict = "('k \<times> 'v) list"

definition dget :: "('k, 'v) dict \<Rightarrow> 'k \<Rightarrow> 'v option" where
  "dget d k = map_of d k"

definition dset :: "'k \<Rightarrow> 'v \<Rightarrow> ('k, 'v) dict \<Rightarrow> ('k, 'v) dict" where
  "dset k v d = AList.update k v d"

definition dpop :: "'k \<Rightarrow> ('k, 'v) dict \<Rightarrow> ('k, 'v) dict" where
  "dpop k d = AList.delete k d"

definition dkeys :: "('k, 'v) dict \<Rightarrow> 'k list" where
  "dkeys d = map fst d"

definition dvals :: "('k, 'v) dict \<Rightarrow> 'v list" where
  "dvals d = map snd d"

definition din :: "'k \<Rightarrow> ('k, 'v) dict \<Rightarrow> bool" where
  "din k d \<longleftrightarrow> k \<in> set (map fst d)"

definition dict_ok :: "('k, 'v) dict \<Rightarrow> bool" where
  "dict_ok d \<longleftrightarrow> distinct (map fst d)"

lemma dget_Nil [simp]: "dget [] k = None"
  by (simp add: dget_def)

lemma dget_dset [simp]: "dget (dset k v d) k' = (if k' = k then Some v else dget d k')"
  by (simp add: dget_def dset_def update_conv)

lemma dget_dpop [simp]: "dget (dpop k d) k' = (if k' = k then None else dget d k')"
  by (simp add: dget_def dpop_def delete_conv')

lemma dict_ok_Nil [simp, inv_intros]: "dict_ok []"
  by (simp add: dict_ok_def)

lemma dict_ok_dset [inv_intros]: "dict_ok d \<Longrightarrow> dict_ok (dset k v d)"
  by (simp add: dict_ok_def dset_def distinct_update)

lemma dict_ok_dpop [inv_intros]: "dict_ok d \<Longrightarrow> dict_ok (dpop k d)"
  by (simp add: dict_ok_def dpop_def distinct_delete)

lemma din_dget: "din k d \<longleftrightarrow> dget d k \<noteq> None"
  by (auto simp: din_def dget_def map_of_eq_None_iff)

lemma dkeys_dset: "dkeys (dset k v d) = (if din k d then dkeys d else dkeys d @ [k])"
  by (induction d) (auto simp: dkeys_def dset_def din_def)

lemma dset_new: "\<not> din k d \<Longrightarrow> dset k v d = d @ [(k, v)]"
  by (induction d) (auto simp: dset_def din_def)

lemma length_dset: "length (dset k v d) = (if din k d then length d else Suc (length d))"
  by (induction d) (auto simp: dset_def din_def)

lemma dget_Some_in_dvals: "dget d k = Some v \<Longrightarrow> v \<in> set (dvals d)"
  unfolding dget_def dvals_def by (metis map_of_SomeD snd_conv image_eqI set_map)

lemma set_dvals_dset: "set (dvals (dset k v d)) \<subseteq> insert v (set (dvals d))"
  by (induction d) (auto simp: dvals_def dset_def)

section \<open>Results\<close>

text \<open>A call that may raise returns \<open>Inl e\<close> for the exception \<open>e\<close> and \<open>Inr v\<close> otherwise.\<close>

definition is_ok :: "'e + 'a \<Rightarrow> bool" where
  "is_ok r = (case r of Inl _ \<Rightarrow> False | Inr _ \<Rightarrow> True)"

lemma is_ok_simps [simp]: "is_ok (Inl e) = False" "is_ok (Inr v) = True"
  by (simp_all add: is_ok_def)

fun map_result :: "('a \<Rightarrow> 'e + 'b) \<Rightarrow> 'a list \<Rightarrow> 'e + 'b list" where
  "map_result f [] = Inr []"
| "map_result f (x # xs) =
     (case f x of Inl e \<Rightarrow> Inl e
      | Inr y \<Rightarrow> (case map_result f xs of Inl e \<Rightarrow> Inl e | Inr ys \<Rightarrow> Inr (y # ys)))"

lemma map_result_Inr:
  "map_result f xs = Inr ys \<Longrightarrow> list_all2 (\<lambda>x y. f x = Inr y) xs ys"
  by (induction xs arbitrary: ys) (auto split: sum.splits)

section \<open>Shared list facts\<close>

lemma foldl_preserves:
  "P s \<Longrightarrow> (\<And>s x. P s \<Longrightarrow> P (f s x)) \<Longrightarrow> P (foldl f s xs)"
  by (induction xs arbitrary: s) auto

lemma length_filter_append: "length (filter p (xs @ ys)) = length (filter p xs) + length (filter p ys)"
  by simp

end
