(* ===== verification/PyFloat.thy ===== *)
theory PyFloat
  imports Complex_Main PyPrelude
begin

text \<open>
  Python floats as rationals under explicit rounding. A finite IEEE 754 double is a rational; each
  arithmetic operation of the source is the exact rational operation followed by \<open>fl\<close>, rounding
  to the nearest multiple of the unit in the last place of a 53-bit significand, ties to even. A
  decimal literal of the source is \<open>fl\<close> of the decimal. Overflow and subnormal numbers are not
  modelled: every float of the modelled code lies between \<open>2 powi (-100)\<close> and \<open>2 powi 100\<close> or is
  zero. Rounding is shown monotone and exact on integers up to \<open>2 ^ 53\<close>.
\<close>

type_synonym pyfloat = rat

section \<open>Rounding to an integer, ties to even\<close>

definition rne :: "rat \<Rightarrow> int" where
  "rne x = (let f = \<lfloor>x\<rfloor>; d = x - of_int f in
     if d < 1/2 then f else if 1/2 < d then f + 1 else if even f then f else f + 1)"

lemma rne_bounds: "\<lfloor>x\<rfloor> \<le> rne x" "rne x \<le> \<lfloor>x\<rfloor> + 1"
  by (auto simp: rne_def Let_def)

lemma rne_of_int [simp]: "rne (of_int i) = i"
  by (simp add: rne_def Let_def)

lemma rne_mono:
  assumes "x \<le> y"
  shows "rne x \<le> rne y"
proof (cases "\<lfloor>x\<rfloor> = \<lfloor>y\<rfloor>")
  case True
  then show ?thesis using assms by (auto simp: rne_def Let_def)
next
  case False
  moreover have "\<lfloor>x\<rfloor> \<le> \<lfloor>y\<rfloor>" using assms by (rule floor_mono)
  ultimately have "\<lfloor>x\<rfloor> + 1 \<le> \<lfloor>y\<rfloor>" by simp
  then show ?thesis using rne_bounds [of x] rne_bounds [of y] by linarith
qed

section \<open>The binary exponent\<close>

function nbits :: "int \<Rightarrow> nat" where
  "nbits n = (if n \<le> 0 then 0 else Suc (nbits (n div 2)))"
  by pat_completeness auto
termination by (relation "measure nat") auto

declare nbits.simps [simp del]

lemma nbits_upper: "n < 2 ^ nbits n"
proof (induction n rule: nbits.induct)
  case (1 n)
  then show ?case by (cases "n \<le> 0") (auto simp: nbits.simps [of n])
qed

lemma nbits_lower: "0 < n \<Longrightarrow> 2 ^ nbits n \<le> 2 * n"
proof (induction n rule: nbits.induct)
  case (1 n)
  show ?case
  proof (cases "n div 2 \<le> 0")
    case True
    with 1(2) have "n = 1" by simp
    then show ?thesis by (simp add: nbits.simps)
  next
    case False
    with 1 have "2 ^ nbits (n div 2) \<le> 2 * (n div 2)" by simp
    with 1(2) show ?thesis by (subst nbits.simps) auto
  qed
qed

definition pow2 :: "int \<Rightarrow> rat" where
  "pow2 k = (if 0 \<le> k then 2 ^ nat k else 1 / 2 ^ nat (- k))"

lemma pow2_powi: "pow2 k = 2 powi k"
  by (simp add: pow2_def power_int_def field_simps)

lemma pow2_pos [simp]: "0 < pow2 k"
  by (simp add: pow2_def)

lemma pow2_add: "pow2 (a + b) = pow2 a * pow2 b"
  by (simp add: pow2_powi power_int_add)

lemma pow2_mono: "a \<le> b \<Longrightarrow> pow2 a \<le> pow2 b"
  by (simp add: pow2_powi power_int_increasing)

definition ilog2 :: "rat \<Rightarrow> int" where
  "ilog2 x = (let (p, q) = quotient_of x;
                  k = int (nbits p) - int (nbits q)
              in if pow2 k \<le> x then k else k - 1)"

lemma ilog2_bounds:
  assumes "0 < x"
  shows "pow2 (ilog2 x) \<le> x \<and> x < pow2 (ilog2 x + 1)"
proof -
  obtain p q where pq: "quotient_of x = (p, q)" by force
  then have x: "x = of_int p / of_int q" and q: "0 < q"
    by (auto simp: quotient_of_div quotient_of_denom_pos)
  from assms x q have p: "0 < p" by (simp add: zero_less_divide_iff)
  let ?a = "nbits p" and ?b = "nbits q"
  define k where "k = int ?a - int ?b"
  have pu: "(of_int p :: rat) < 2 ^ ?a" and pl: "2 ^ ?a \<le> 2 * (of_int p :: rat)"
  proof -
    have "p < 2 ^ ?a" and "2 ^ ?a \<le> 2 * p"
      using nbits_upper [of p] nbits_lower [of p] p by simp_all
    then show "(of_int p :: rat) < 2 ^ ?a" and "2 ^ ?a \<le> 2 * (of_int p :: rat)"
      by (metis of_int_less_iff of_int_power of_int_numeral,
          metis of_int_le_iff of_int_power of_int_numeral of_int_mult)
  qed
  have qu: "(of_int q :: rat) < 2 ^ ?b" and ql: "2 ^ ?b \<le> 2 * (of_int q :: rat)"
  proof -
    have "q < 2 ^ ?b" and "2 ^ ?b \<le> 2 * q"
      using nbits_upper [of q] nbits_lower [of q] q by simp_all
    then show "(of_int q :: rat) < 2 ^ ?b" and "2 ^ ?b \<le> 2 * (of_int q :: rat)"
      by (metis of_int_less_iff of_int_power of_int_numeral,
          metis of_int_le_iff of_int_power of_int_numeral of_int_mult)
  qed
  have pk: "pow2 k = 2 ^ ?a / 2 ^ ?b"
    by (simp add: k_def pow2_powi power_int_diff)
  have q0: "(0::rat) < of_int q" using q by simp
  have up: "x < 2 * pow2 k"
  proof -
    have "of_int p * 2 ^ ?b < (2 ^ ?a) * (2 * of_int q :: rat)"
      using pu ql p by (intro mult_less_le_imp_less) auto
    then show ?thesis unfolding x pk using q0 by (simp add: field_simps)
  qed
  have lo: "pow2 k \<le> 2 * x"
  proof -
    have "2 ^ ?a * of_int q \<le> (2 * of_int p) * (2 ^ ?b :: rat)"
      using pl qu p q by (intro mult_mono) auto
    then show ?thesis unfolding x pk using q0 by (simp add: field_simps)
  qed
  have i: "ilog2 x = (if pow2 k \<le> x then k else k - 1)"
    by (simp add: ilog2_def pq k_def Let_def)
  have s: "pow2 (k + 1) = 2 * pow2 k" "2 * pow2 (k - 1) = pow2 k"
    using pow2_add [of k 1] pow2_add [of "k - 1" 1] by (simp_all add: pow2_def)
  show ?thesis using up lo s by (auto simp: i)
qed

lemma ilog2_mono:
  assumes "0 < x" "x \<le> y"
  shows "ilog2 x \<le> ilog2 y"
proof (rule ccontr)
  assume "\<not> ilog2 x \<le> ilog2 y"
  then have "pow2 (ilog2 y + 1) \<le> pow2 (ilog2 x)" by (intro pow2_mono) simp
  with ilog2_bounds [of x] ilog2_bounds [of y] assms show False by linarith
qed

section \<open>Rounding to a double\<close>

definition fl_pos :: "rat \<Rightarrow> rat" where
  "fl_pos x = (let u = pow2 (ilog2 x - 52) in of_int (rne (x / u)) * u)"

definition fl :: "rat \<Rightarrow> rat" where
  "fl x = (if x = 0 then 0 else if 0 < x then fl_pos x else - fl_pos (- x))"

lemma fl_0 [simp]: "fl 0 = 0"
  by (simp add: fl_def)

lemma fl_pos_range:
  assumes "0 < x"
  shows "pow2 (ilog2 x) \<le> fl_pos x \<and> fl_pos x \<le> pow2 (ilog2 x + 1)"
proof -
  define u where "u = pow2 (ilog2 x - 52)"
  have u: "0 < u" by (simp add: u_def)
  have c: "pow2 52 = of_int (2 ^ 52)" "pow2 53 = of_int (2 ^ 53)"
    by (simp_all add: pow2_def)
  have a: "52 + (ilog2 x - 52) = ilog2 x" "53 + (ilog2 x - 52) = ilog2 x + 1" by simp_all
  have e: "pow2 (ilog2 x) = of_int (2 ^ 52) * u" "pow2 (ilog2 x + 1) = of_int (2 ^ 53) * u"
    using pow2_add [of "52" "ilog2 x - 52"] pow2_add [of "53" "ilog2 x - 52"]
    unfolding a c u_def by simp_all
  have "of_int (2 ^ 52) \<le> x / u" "x / u \<le> of_int (2 ^ 53)"
    using ilog2_bounds [OF assms] u unfolding e by (simp_all add: field_simps)
  then have "rne (of_int (2 ^ 52)) \<le> rne (x / u)" "rne (x / u) \<le> rne (of_int (2 ^ 53))"
    by (blast intro: rne_mono)+
  then have "2 ^ 52 \<le> rne (x / u)" "rne (x / u) \<le> 2 ^ 53"
    by (simp_all only: rne_of_int)
  then have "(of_int (2 ^ 52) :: rat) \<le> of_int (rne (x / u))"
            "of_int (rne (x / u)) \<le> (of_int (2 ^ 53) :: rat)"
    by (simp_all only: of_int_le_iff)
  then show ?thesis unfolding e fl_pos_def u_def [symmetric] Let_def
    using u by (simp add: mult_right_mono)
qed

lemma fl_pos_gt_0: "0 < x \<Longrightarrow> 0 < fl_pos x"
  using fl_pos_range [of x] pow2_pos [of "ilog2 x"] by linarith

lemma fl_pos_mono:
  assumes "0 < x" "x \<le> y"
  shows "fl_pos x \<le> fl_pos y"
proof (cases "ilog2 x = ilog2 y")
  case True
  have "x / pow2 (ilog2 y - 52) \<le> y / pow2 (ilog2 y - 52)"
    using assms by (simp add: divide_right_mono less_imp_le)
  then have "rne (x / pow2 (ilog2 y - 52)) \<le> rne (y / pow2 (ilog2 y - 52))" by (rule rne_mono)
  then show ?thesis unfolding fl_pos_def Let_def True
    by (intro mult_right_mono) (auto simp: less_imp_le)
next
  case False
  then have "ilog2 x + 1 \<le> ilog2 y" using ilog2_mono [OF assms] by simp
  then have "pow2 (ilog2 x + 1) \<le> pow2 (ilog2 y)" by (rule pow2_mono)
  then show ?thesis using fl_pos_range [of x] fl_pos_range [of y] assms by linarith
qed

theorem fl_mono: "x \<le> y \<Longrightarrow> fl x \<le> fl y"
  using fl_pos_mono [of x y] fl_pos_mono [of "- y" "- x"] fl_pos_gt_0 [of y] fl_pos_gt_0 [of "- x"]
  by (auto simp: fl_def)

lemma fl_nonneg: "0 \<le> x \<Longrightarrow> 0 \<le> fl x"
  using fl_mono [of 0 x] by simp

lemma fl_int:
  assumes "0 < i" "i < 2 ^ 53"
  shows "fl (of_int i) = of_int i"
proof -
  define e where "e = ilog2 (of_int i) - 52"
  have b: "pow2 (ilog2 (of_int i)) \<le> of_int i"
    using ilog2_bounds [of "of_int i"] assms by simp
  have "e \<le> 0"
  proof (rule ccontr)
    assume "\<not> e \<le> 0"
    then have "pow2 53 \<le> pow2 (ilog2 (of_int i))" by (intro pow2_mono) (simp add: e_def)
    with b have "(2 ^ 53 :: rat) \<le> of_int i" by (simp add: pow2_def)
    then have "(of_int (2 ^ 53) :: rat) \<le> of_int i" by simp
    with assms show False by (simp only: of_int_le_iff)
  qed
  then have d: "of_int i / pow2 e = of_int (i * 2 ^ nat (- e))"
    by (cases "e = 0") (auto simp: pow2_def)
  have "fl (of_int i) = of_int (rne (of_int i / pow2 e)) * pow2 e"
    using assms by (simp add: fl_def fl_pos_def Let_def e_def)
  also have "\<dots> = of_int (i * 2 ^ nat (- e)) * pow2 e"
    unfolding d rne_of_int ..
  also have "\<dots> = of_int i" unfolding d [symmetric] using pow2_pos [of e] by (simp add: less_imp_neq [symmetric])
  finally show ?thesis .
qed

lemma fl_1 [simp]: "fl 1 = 1"
  using fl_int [of 1] by simp

lemma fl_numeral_le: "(numeral n :: int) < 2 ^ 53 \<Longrightarrow> fl (numeral n) = numeral n"
  using fl_int [of "numeral n"] by simp

section \<open>Arithmetic\<close>

definition fadd :: "rat \<Rightarrow> rat \<Rightarrow> rat" where "fadd x y = fl (x + y)"
definition fsub :: "rat \<Rightarrow> rat \<Rightarrow> rat" where "fsub x y = fl (x - y)"
definition fmul :: "rat \<Rightarrow> rat \<Rightarrow> rat" where "fmul x y = fl (x * y)"
definition fdiv :: "rat \<Rightarrow> rat \<Rightarrow> rat" where "fdiv x y = fl (x / y)"

lemma fadd_mono: "x \<le> x' \<Longrightarrow> y \<le> y' \<Longrightarrow> fadd x y \<le> fadd x' y'"
  by (simp add: fadd_def fl_mono)

text \<open>\<^verbatim>\<open>f"{x:.0%}"\<close>: the double \<open>100 * x\<close> rounded to an integer.\<close>

definition percent0 :: "rat \<Rightarrow> str" where
  "percent0 x = int_str (rne (fmul x 100)) @ U ''%''"

text \<open>\<^verbatim>\<open>f"{x:.1%}"\<close> for a non-negative value.\<close>

definition percent1 :: "rat \<Rightarrow> str" where
  "percent1 x = (let t = rne (fmul x 100 * 10) in
     int_str (t div 10) @ U ''.'' @ int_str (t mod 10) @ U ''%'')"

text \<open>\<^verbatim>\<open>round(x, 1)\<close> and \<^verbatim>\<open>round(x, 3)\<close>: the nearest tenth and thousandth of the exact value, ties to even.\<close>

definition round1 :: "pyfloat \<Rightarrow> pyfloat" where
  "round1 x = fl (of_int (rne (10 * x)) / 10)"

definition round3 :: "pyfloat \<Rightarrow> pyfloat" where
  "round3 x = fl (of_int (rne (1000 * x)) / 1000)"

end
