(* ===== verification/PyRegex.thy ===== *)
theory PyRegex
  imports PyPrelude
begin

text \<open>
  The regular expressions of the source, as terms, with Python's matching rule. A matcher state is
  the character before the current position (for word boundaries) and the rest of the text;
  \<open>ends r st\<close> lists the states in which a match of \<open>r\<close> can end, in the order in which Python's
  backtracking tries them, so its head is the match that \<^verbatim>\<open>re.match\<close> reports. \<open>rx_search\<close> is
  \<^verbatim>\<open>re.search\<close> (leftmost position, first match there) and returns the matched text
  (\<^verbatim>\<open>m.group(0)\<close>), \<open>rx_findall\<close> counts like \<^verbatim>\<open>len(re.findall(..))\<close> and \<open>rx_sub\<close> replaces
  every match. Optional repetitions must consume text, so an unbounded repetition ends after at
  most as many steps as there are characters left.
\<close>

section \<open>Patterns\<close>

datatype citem = CRange nat nat | CSpace | CWord

datatype rx =
    REps
  | RLit string              \<comment> \<open>literal text\<close>
  | RLitI string             \<comment> \<open>literal text under \<^verbatim>\<open>re.IGNORECASE\<close>\<close>
  | RSet bool "citem list"   \<comment> \<open>\<^verbatim>\<open>[...]\<close>, or \<^verbatim>\<open>[^...]\<close> if the flag is set\<close>
  | RSetI bool "citem list"
  | RAny                     \<comment> \<open>\<^verbatim>\<open>.\<close>\<close>
  | RAnyNL                   \<comment> \<open>\<^verbatim>\<open>.\<close> under \<^verbatim>\<open>re.DOTALL\<close>\<close>
  | RBound                   \<comment> \<open>\<^verbatim>\<open>\b\<close>\<close>
  | RSeq rx rx
  | RAlt rx rx
  | RRep bool nat "nat option" rx  \<comment> \<open>greedy flag, minimum, maximum\<close>

fun cat :: "rx list \<Rightarrow> rx" where
  "cat [] = REps"
| "cat [r] = r"
| "cat (r # s # rs) = RSeq r (cat (s # rs))"

fun alt :: "rx list \<Rightarrow> rx" where
  "alt [] = REps"
| "alt [r] = r"
| "alt (r # s # rs) = RAlt r (alt (s # rs))"

definition opt :: "rx \<Rightarrow> rx" where "opt r = RRep True 0 (Some 1) r"
definition star :: "rx \<Rightarrow> rx" where "star r = RRep True 0 None r"
definition plus1 :: "rx \<Rightarrow> rx" where "plus1 r = RRep True 1 None r"
definition upto :: "nat \<Rightarrow> nat \<Rightarrow> rx \<Rightarrow> rx" where "upto m n r = RRep True m (Some n) r"
definition sp :: rx where "sp = RSet False [CSpace]"
definition wd :: rx where "wd = RSet False [CWord]"

section \<open>Matching\<close>

type_synonym mst = "nat option \<times> str"

fun citem_has :: "citem \<Rightarrow> nat \<Rightarrow> bool" where
  "citem_has (CRange a b) c = (a \<le> c \<and> c \<le> b)"
| "citem_has CSpace c = is_space c"
| "citem_has CWord c = is_word c"

definition set_has :: "bool \<Rightarrow> citem list \<Rightarrow> nat \<Rightarrow> bool" where
  "set_has neg is c = (list_ex (\<lambda>i. citem_has i c) is \<noteq> neg)"

text \<open>
  The code points that \<^verbatim>\<open>re.IGNORECASE\<close> identifies with an ASCII letter: its other case, and
  U+0130 and U+0131 for i, U+017F for s, U+212A for k.
\<close>

definition ci_variants :: "nat \<Rightarrow> nat list" where
  "ci_variants c =
     (if 65 \<le> c \<and> c \<le> 90 then [c, c + 32]
      else if 97 \<le> c \<and> c \<le> 122 then [c, c - 32]
      else if c = 0x130 \<or> c = 0x131 then [c, 105, 73]
      else if c = 0x17f then [c, 115, 83]
      else if c = 0x212a then [c, 107, 75]
      else [c])"

fun eat :: "nat list \<Rightarrow> mst \<Rightarrow> mst option" where
  "eat [] st = Some st"
| "eat (x # xs) (p, []) = None"
| "eat (x # xs) (p, c # cs) = (if c = x then eat xs (Some c, cs) else None)"

fun eat_ci :: "nat list \<Rightarrow> mst \<Rightarrow> mst option" where
  "eat_ci [] st = Some st"
| "eat_ci (x # xs) (p, []) = None"
| "eat_ci (x # xs) (p, c # cs) = (if x \<in> set (ci_variants c) then eat_ci xs (Some c, cs) else None)"

definition opt_list :: "'a option \<Rightarrow> 'a list" where
  "opt_list x = (case x of None \<Rightarrow> [] | Some y \<Rightarrow> [y])"

lemma set_opt_list [simp]: "y \<in> set (opt_list x) \<longleftrightarrow> Some y = x"
  by (cases x) (auto simp: opt_list_def)

fun eat_if :: "(nat \<Rightarrow> bool) \<Rightarrow> mst \<Rightarrow> mst list" where
  "eat_if P (p, []) = []"
| "eat_if P (p, c # cs) = (if P c then [(Some c, cs)] else [])"

definition at_bound :: "mst \<Rightarrow> bool" where
  "at_bound st =
     ((case fst st of None \<Rightarrow> False | Some c \<Rightarrow> is_word c) \<noteq>
      (case snd st of [] \<Rightarrow> False | c # _ \<Rightarrow> is_word c))"

fun rep_exact :: "(mst \<Rightarrow> mst list) \<Rightarrow> nat \<Rightarrow> mst \<Rightarrow> mst list" where
  "rep_exact f 0 st = [st]"
| "rep_exact f (Suc k) st = concat (map (rep_exact f k) (f st))"

fun rep_upto :: "bool \<Rightarrow> (mst \<Rightarrow> mst list) \<Rightarrow> nat \<Rightarrow> mst \<Rightarrow> mst list" where
  "rep_upto g f 0 st = [st]"
| "rep_upto g f (Suc k) st =
     (let more = concat (map (rep_upto g f k)
                   (filter (\<lambda>st'. length (snd st') < length (snd st)) (f st)))
      in if g then more @ [st] else st # more)"

primrec ends :: "rx \<Rightarrow> mst \<Rightarrow> mst list" where
  "ends REps st = [st]"
| "ends (RLit s) st = opt_list (eat (U s) st)"
| "ends (RLitI s) st = opt_list (eat_ci (U s) st)"
| "ends (RSet n is) st = eat_if (set_has n is) st"
| "ends (RSetI n is) st = eat_if (\<lambda>c. list_ex (list_ex (\<lambda>d. list_ex (\<lambda>i. citem_has i d) is)) [ci_variants c] \<noteq> n) st"
| "ends RAny st = eat_if (\<lambda>c. c \<noteq> 10) st"
| "ends RAnyNL st = eat_if (\<lambda>c. True) st"
| "ends RBound st = (if at_bound st then [st] else [])"
| "ends (RSeq r1 r2) st = concat (map (ends r2) (ends r1 st))"
| "ends (RAlt r1 r2) st = ends r1 st @ ends r2 st"
| "ends (RRep g m mx r) st =
     concat (map (\<lambda>st'. rep_upto g (ends r)
        (case mx of None \<Rightarrow> length (snd st') | Some n \<Rightarrow> n - m) st') (rep_exact (ends r) m st))"

definition match_len :: "rx \<Rightarrow> mst \<Rightarrow> nat option" where
  "match_len r st = (case ends r st of [] \<Rightarrow> None | st' # _ \<Rightarrow> Some (length (snd st) - length (snd st')))"

fun search_from :: "rx \<Rightarrow> nat option \<Rightarrow> str \<Rightarrow> str option" where
  "search_from r p [] = map_option (\<lambda>n. []) (match_len r (p, []))"
| "search_from r p (c # cs) =
     (case match_len r (p, c # cs) of
        Some n \<Rightarrow> Some (take n (c # cs))
      | None \<Rightarrow> search_from r (Some c) cs)"

definition rx_search :: "rx \<Rightarrow> str \<Rightarrow> str option" where
  "rx_search r s = search_from r None s"

definition rx_found :: "rx \<Rightarrow> str \<Rightarrow> bool" where
  "rx_found r s \<longleftrightarrow> rx_search r s \<noteq> None"

text \<open>
  Replacement and counting for patterns that match only non-empty text (every pattern that the
  source passes to \<^verbatim>\<open>sub\<close> or \<^verbatim>\<open>findall\<close>): an empty match is skipped. The first argument
  bounds the recursion by the length of the text.
\<close>

fun sub_from :: "rx \<Rightarrow> str \<Rightarrow> nat \<Rightarrow> nat option \<Rightarrow> str \<Rightarrow> str" where
  "sub_from r t 0 p s = s"
| "sub_from r t (Suc k) p [] = []"
| "sub_from r t (Suc k) p (c # cs) =
     (case match_len r (p, c # cs) of
        Some (Suc n) \<Rightarrow> t @ sub_from r t k (Some ((c # cs) ! n)) (drop n cs)
      | _ \<Rightarrow> c # sub_from r t k (Some c) cs)"

definition rx_sub :: "rx \<Rightarrow> str \<Rightarrow> str \<Rightarrow> str" where
  "rx_sub r t s = sub_from r t (length s) None s"

fun findall_from :: "rx \<Rightarrow> nat \<Rightarrow> nat option \<Rightarrow> str \<Rightarrow> str list" where
  "findall_from r 0 p s = []"
| "findall_from r (Suc k) p [] = []"
| "findall_from r (Suc k) p (c # cs) =
     (case match_len r (p, c # cs) of
        Some (Suc n) \<Rightarrow> take (Suc n) (c # cs) # findall_from r k (Some ((c # cs) ! n)) (drop n cs)
      | _ \<Rightarrow> findall_from r k (Some c) cs)"

definition rx_findall :: "rx \<Rightarrow> str \<Rightarrow> str list" where
  "rx_findall r s = findall_from r (length s) None s"

section \<open>A match is a piece of the text\<close>

text \<open>Every state that a match ends in is a suffix of the text it started from.\<close>

definition keeps_suffix :: "(mst \<Rightarrow> mst list) \<Rightarrow> bool" where
  "keeps_suffix f \<longleftrightarrow> (\<forall>st. \<forall>st' \<in> set (f st). suffix (snd st') (snd st))"

lemma keeps_suffixD: "keeps_suffix f \<Longrightarrow> st' \<in> set (f st) \<Longrightarrow> suffix (snd st') (snd st)"
  unfolding keeps_suffix_def by blast

lemma eat_suffix: "Some st' = eat xs st \<Longrightarrow> suffix (snd st') (snd st)"
  by (induction xs st rule: eat.induct) (auto split: if_splits intro: suffix_ConsI)

lemma eat_ci_suffix: "Some st' = eat_ci xs st \<Longrightarrow> suffix (snd st') (snd st)"
  by (induction xs st rule: eat_ci.induct) (auto split: if_splits intro: suffix_ConsI)

lemma eat_if_suffix: "keeps_suffix (eat_if P)"
proof (unfold keeps_suffix_def, intro allI ballI)
  fix st st' assume "st' \<in> set (eat_if P st)"
  then show "suffix (snd st') (snd st)"
    by (induction P st rule: eat_if.induct) (auto split: if_splits intro: suffix_ConsI)
qed

lemma rep_exact_suffix:
  assumes "keeps_suffix f"
  shows "st' \<in> set (rep_exact f k st) \<Longrightarrow> suffix (snd st') (snd st)"
proof (induction k arbitrary: st)
  case (Suc k)
  then obtain u where "u \<in> set (f st)" "st' \<in> set (rep_exact f k u)" by auto
  with Suc.IH keeps_suffixD [OF assms] show ?case by (meson suffix_order.order_trans)
qed simp

lemma rep_upto_suffix:
  assumes "keeps_suffix f"
  shows "st' \<in> set (rep_upto g f k st) \<Longrightarrow> suffix (snd st') (snd st)"
proof (induction k arbitrary: st)
  case (Suc k)
  then consider "st' = st" | u where "u \<in> set (f st)" "st' \<in> set (rep_upto g f k u)"
    by (auto simp: Let_def split: if_splits)
  then show ?case
  proof cases
    case 2
    with Suc.IH keeps_suffixD [OF assms] show ?thesis by (meson suffix_order.order_trans)
  qed simp
qed simp

lemma ends_suffix: "keeps_suffix (ends r)"
proof (induction r)
  case (RSeq r1 r2)
  show ?case unfolding keeps_suffix_def
  proof (intro allI ballI)
    fix st st' assume "st' \<in> set (ends (RSeq r1 r2) st)"
    then obtain u where "u \<in> set (ends r1 st)" "st' \<in> set (ends r2 u)" by auto
    with keeps_suffixD [OF RSeq(1)] keeps_suffixD [OF RSeq(2)]
    show "suffix (snd st') (snd st)" by (meson suffix_order.order_trans)
  qed
next
  case (RRep g m mx r)
  show ?case unfolding keeps_suffix_def
  proof (intro allI ballI)
    fix st st' assume "st' \<in> set (ends (RRep g m mx r) st)"
    then obtain u k where "u \<in> set (rep_exact (ends r) m st)" "st' \<in> set (rep_upto g (ends r) k u)"
      by auto
    with rep_exact_suffix [OF RRep] rep_upto_suffix [OF RRep]
    show "suffix (snd st') (snd st)" by (meson suffix_order.order_trans)
  qed
next
  case (RAlt r1 r2)
  show ?case unfolding keeps_suffix_def
  proof (intro allI ballI)
    fix st st' assume "st' \<in> set (ends (RAlt r1 r2) st)"
    then have "st' \<in> set (ends r1 st) \<or> st' \<in> set (ends r2 st)" by simp
    then show "suffix (snd st') (snd st)"
      using keeps_suffixD [OF RAlt(1)] keeps_suffixD [OF RAlt(2)] by blast
  qed
next
  case (RLit s)
  then show ?case unfolding keeps_suffix_def
    by (auto dest!: eat_suffix)
next
  case (RLitI s)
  then show ?case unfolding keeps_suffix_def
    by (auto dest!: eat_ci_suffix)
qed (auto simp: keeps_suffix_def dest: keeps_suffixD [OF eat_if_suffix])

lemma search_from_sublist: "search_from r p s = Some m \<Longrightarrow> sublist m s"
proof (induction r p s rule: search_from.induct)
  case (2 r p c cs)
  show ?case
  proof (cases "match_len r (p, c # cs)")
    case None
    with 2 have "sublist m cs" by simp
    then show ?thesis by (simp add: sublist_Cons_right)
  next
    case (Some n)
    with 2(2) have "m = take n (c # cs)" by simp
    then show ?thesis by (simp only: sublist_take)
  qed
qed auto

lemma rx_search_sublist: "rx_search r s = Some m \<Longrightarrow> sublist m s"
  unfolding rx_search_def by (rule search_from_sublist)

lemma rx_search_chars: "rx_search r s = Some m \<Longrightarrow> set m \<subseteq> set s"
  by (drule rx_search_sublist) (rule set_mono_sublist)

lemma sub_from_chars:
  "set (sub_from r t k p s) \<subseteq> set t \<union> set s"
proof (induction r t k p s rule: sub_from.induct)
  case (3 r t k p c cs)
  show ?case
  proof (cases "match_len r (p, c # cs)")
    case None
    with 3 show ?thesis by auto
  next
    case (Some m)
    then show ?thesis
    proof (cases m)
      case 0
      with Some 3 show ?thesis by auto
    next
      case (Suc n)
      with Some 3(3) [OF Some Suc] show ?thesis
        using set_drop_subset [of n cs] by auto
    qed
  qed
qed auto

lemma rx_sub_chars: "set (rx_sub r t s) \<subseteq> set t \<union> set s"
  unfolding rx_sub_def by (rule sub_from_chars)

section \<open>Replacing runs of one class\<close>

text \<open>
  For a pattern \<^verbatim>\<open>[class]+\<close> replaced by the empty string, \<open>rx_sub\<close> deletes exactly the
  characters of the class.
\<close>

lemma ends_RSet: "ends (RSet n is) = eat_if (set_has n is)"
  by (rule ext) simp

lemma ends_plus_set:
  "set_has n is c \<Longrightarrow>
     ends (plus1 (RSet n is)) (p, c # cs) =
       rep_upto True (eat_if (set_has n is)) (length cs) (Some c, cs)"
  by (simp add: plus1_def ends_RSet del: ends.simps(4))

lemma ends_plus_set_none:
  "\<not> set_has n is c \<Longrightarrow> ends (plus1 (RSet n is)) (p, c # cs) = []"
  by (simp add: plus1_def)

lemma rep_upto_class_hd:
  "\<exists>q rest. rep_upto True (eat_if P) (length cs) (p, cs) = (q, dropWhile P cs) # rest"
proof (induction cs arbitrary: p)
  case (Cons c cs)
  then show ?case by (auto simp: Let_def) (metis append_Cons)
qed simp

lemma match_len_plus_set:
  "match_len (plus1 (RSet n is)) (p, c # cs) =
     (if set_has n is c then Some (Suc (length (takeWhile (set_has n is) cs))) else None)"
proof (cases "set_has n is c")
  case True
  obtain q rest where "rep_upto True (eat_if (set_has n is)) (length cs) (Some c, cs)
      = (q, dropWhile (set_has n is) cs) # rest"
    using rep_upto_class_hd by blast
  moreover have "length cs = length (takeWhile (set_has n is) cs) + length (dropWhile (set_has n is) cs)"
    by (metis length_append takeWhile_dropWhile_id)
  ultimately show ?thesis using True
    by (simp add: match_len_def ends_plus_set)
next
  case False
  then show ?thesis by (simp add: match_len_def ends_plus_set_none)
qed

lemma sub_from_plus_set:
  "length s \<le> k \<Longrightarrow> sub_from (plus1 (RSet n is)) [] k p s = filter (\<lambda>c. \<not> set_has n is c) s"
proof (induction k arbitrary: p s)
  case (Suc k)
  show ?case
  proof (cases s)
    case (Cons c cs)
    have "filter (\<lambda>c. \<not> set_has n is c) (drop (length (takeWhile (set_has n is) cs)) cs)
        = filter (\<lambda>c. \<not> set_has n is c) cs"
      by (subst (2) takeWhile_dropWhile_id [of "set_has n is" cs, symmetric])
        (auto simp add: filter_empty_conv dropWhile_eq_drop dest: set_takeWhileD simp del: takeWhile_dropWhile_id)
    with Suc Cons show ?thesis by (simp add: match_len_plus_set)
  qed simp
qed simp

lemma rx_sub_plus_set: "rx_sub (plus1 (RSet n is)) [] s = filter (\<lambda>c. \<not> set_has n is c) s"
  unfolding rx_sub_def by (rule sub_from_plus_set) simp

end
