(* ===== verification/AegisPatterns.thy ===== *)
theory AegisPatterns
  imports PyRegex
begin

text \<open>
  The pattern tables of \<^verbatim>\<open>python/ethos_aegis/core/aegis.py\<close>: the injection and harm sigils of
  \<^verbatim>\<open>VanguardProbe\<close>, the deception manifold of \<^verbatim>\<open>LogosScythe\<close>, the semantic clusters of
  \<^verbatim>\<open>TaintBeacon\<close> and the five structural patterns of \<^verbatim>\<open>SanitasSwarm\<close>. Each regular
  expression is written as a term of \<open>PyRegex\<close>, in the order of the source, with the flags that
  the calling code passes (\<^verbatim>\<open>DOTALL\<close> for the harm sigils, \<^verbatim>\<open>IGNORECASE\<close> for the semantic
  clusters and the markup pattern). A group whose alternatives are single characters, or share a
  first letter, is written as a character set, or with the shared prefix in front.
\<close>

definition injection_sigil_table :: "(rx \<times> str) list" where
  "injection_sigil_table = [
     (cat [RLit ''ignore'', plus1 sp, opt (cat [RLit ''all'', plus1 sp]), RLit ''previous'',
        plus1 sp, RLit ''instruction'', opt (RLit ''s'')],
      U ''override_anterior''),
     (cat [RLit ''you'', plus1 sp, RLit ''are'', plus1 sp, RLit ''now'', plus1 sp,
        opt (cat [RLit ''a'', plus1 sp]), alt [RLit ''dan'', RLit ''jailbroken'', RLit ''free'']],
      U ''persona_seizure''),
     (cat [RLit ''pretend'', plus1 sp, alt [cat [RLit ''you'', plus1 sp, RLit ''are''],
        cat [RLit ''to'', plus1 sp, RLit ''be'']], plus1 sp, alt [RLit ''evil'',
        RLit ''unrestricted'']],
      U ''persona_seizure''),
     (cat [RLit ''disregard'', plus1 sp, opt (cat [RLit ''your'', plus1 sp]),
        alt [RLit ''guidelines'', RLit ''ethics'', RLit ''training'']],
      U ''ethic_dissolve''),
     (cat [RLit ''system'', star sp, RLit '':'', star sp, RLit ''you'', plus1 sp, RLit ''are''],
      U ''system_graft''),
     (cat [RLit ''[INST]'', RRep False 0 None RAny, RLit ''override''],
      U ''template_injection''),
     (alt [cat [RLit ''sudo'', plus1 sp, RLit ''mode''], cat [RLit ''developer'', plus1 sp,
        RLit ''mode''], cat [RLit ''god'', plus1 sp, RLit ''mode''], cat [RLit ''dm'', plus1 sp,
        RLit ''mode'']],
      U ''privilege_ascent''),
     (cat [RLit ''repeat'', plus1 sp, alt [cat [RLit ''after'', plus1 sp, RLit ''me''],
        cat [RLit ''the'', plus1 sp, RLit ''following'']]],
      U ''echo_harvest''),
     (cat [RLit ''print'', plus1 sp, opt (cat [RLit ''your'', plus1 sp]), RLit ''system'',
        plus1 sp, RLit ''prompt''],
      U ''vault_exfil''),
     (cat [RLit ''what'', plus1 sp, opt (cat [RLit ''are'', plus1 sp]), RLit ''your'', plus1 sp,
        opt (cat [RLit ''hidden'', plus1 sp]), RLit ''instruction'', opt (RLit ''s'')],
      U ''vault_exfil''),
     (cat [RLit ''act'', plus1 sp, RLit ''as'', plus1 sp, RLit ''if'', plus1 sp,
        opt (cat [RLit ''you'', plus1 sp, RLit ''have'', plus1 sp]), RLit ''no'', plus1 sp,
        alt [cat [RLit ''restriction'', opt (RLit ''s'')], cat [RLit ''limit'', opt (RLit ''s'')]]],
      U ''constraint_erasure''),
     (cat [alt [RLit ''respond'', RLit ''answer''], plus1 sp, RLit ''without'', plus1 sp,
        opt (cat [RLit ''any'', plus1 sp]), alt [RLit ''filter'', RLit ''restriction'',
        RLit ''limit'']],
      U ''constraint_erasure'')]"

definition harm_sigil_table :: "(rx \<times> str) list" where
  "harm_sigil_table = [
     (cat [RBound, alt [RLit ''synthesize'', RLit ''manufacture'', RLit ''create'',
        RLit ''make''], RBound, upto 0 30 RAnyNL, RBound, alt [RLit ''weapon'', RLit ''explosive'',
        cat [RLit ''bio'', opt RAnyNL, RLit ''weapon'']], RBound],
      U ''mass_harm_facilitation''),
     (cat [RBound, alt [RLit ''hack'', RLit ''exploit'', RLit ''breach'', RLit ''compromise''],
        RBound, upto 0 20 RAnyNL, RBound, alt [RLit ''system'', RLit ''server'', RLit ''database'',
        RLit ''network''], RBound],
      U ''intrusion_facilitation''),
     (cat [RBound, alt [RLit ''child'', RLit ''minor'', RLit ''underage''], RBound,
        upto 0 20 RAnyNL, RBound, alt [RLit ''sex'', RLit ''nude'', RLit ''exploit'',
        RLit ''groom''], RBound],
      U ''absolute_terminus'')]"

definition deception_manifold :: "(str \<times> rx list) list" where
  "deception_manifold = [
     (U ''gaslighting_veil'', [
        cat [RLit ''you'', plus1 sp, alt [RLit ''said'', RLit ''told'', RLit ''claimed'',
          RLit ''agreed''], plus1 sp, RLit ''earlier''],
        cat [cat [RLit ''do'', alt [cat [RLit ''n'', RSet False [CRange 39 39], RLit ''t''],
          cat [plus1 sp, RLit ''not'']]], plus1 sp, opt (cat [RLit ''you'', plus1 sp]),
          RLit ''remember'', plus1 sp, alt [RLit ''saying'', RLit ''agreeing'', RLit ''telling'']],
        cat [RLit ''you'', plus1 sp, alt [RLit ''already'', RLit ''previously''], plus1 sp,
          RLit ''confirmed'', plus1 sp, RLit ''this''],
        cat [RLit ''that'', opt (RSet False [CRange 39 39]), RLit ''s'', plus1 sp, RLit ''not'',
          plus1 sp, RLit ''what'', plus1 sp, RLit ''you'', plus1 sp, alt [RLit ''said'',
          RLit ''meant'', RLit ''wrote'', RLit ''agreed'']],
        cat [RLit ''you'', plus1 sp, alt [RLit ''promised'', RLit ''guaranteed''], plus1 sp,
          opt (cat [RLit ''me'', plus1 sp]), RLit ''that'']]),
     (U ''triangulation_web'', [
        cat [alt [RLit ''everyone'', cat [RLit ''all'', plus1 sp, RLit ''experts''],
          cat [RLit ''most'', plus1 sp, RLit ''people'']], plus1 sp, alt [RLit ''agree'',
          RLit ''say'', RLit ''think''], plus1 sp, RLit ''you'', plus1 sp, RLit ''should''],
        cat [alt [RLit ''other'', RLit ''different''], plus1 sp, alt [RLit ''ai'',
          cat [RLit ''model'', opt (RLit ''s'')], RLit ''gpt'', RLit ''gemini'', RLit ''llm''],
          plus1 sp, alt [RLit ''would'', RLit ''will'', RLit ''can'', RLit ''does'']],
        cat [RLit ''your'', plus1 sp, alt [RLit ''competitor'', RLit ''rival''], upto 0 30 RAny,
          alt [RLit ''does'', RLit ''allows'', RLit ''can'', RLit ''will'']],
        cat [alt [RLit ''studies'', RLit ''research'', RLit ''science''], plus1 sp,
          alt [RLit ''show'', RLit ''prove''], plus1 sp, RLit ''you'', plus1 sp,
          alt [RLit ''should'', RLit ''must'']]]),
     (U ''urgency_forge'', [
        cat [alt [RLit ''emergency'', RLit ''urgent'', RLit ''critical'', cat [RLit ''life'',
          opt RAny, RLit ''or'', opt RAny, RLit ''death'']], upto 0 40 RAny, alt [RLit ''must'',
          RLit ''need'', cat [RLit ''have'', plus1 sp, RLit ''to'']]],
        cat [alt [RLit ''millions'', RLit ''thousands'', RLit ''lives'', RLit ''children''],
          upto 0 30 RAny, alt [RLit ''depend'', cat [RLit ''at'', plus1 sp, RLit ''risk''],
          cat [RLit ''will'', plus1 sp, alt [RLit ''die'', RLit ''suffer'']]]],
        cat [alt [cat [RLit ''only'', plus1 sp, RLit ''you''], cat [RLit ''you'', plus1 sp,
          RLit ''alone''], cat [RLit ''no'', plus1 sp, RLit ''one'', plus1 sp, RLit ''else'']],
          plus1 sp, RLit ''can'', plus1 sp, alt [RLit ''save'', RLit ''prevent'', RLit ''stop'',
          RLit ''fix'']],
        cat [alt [cat [RLit ''no'', plus1 sp, RLit ''time''], cat [RLit ''right'', plus1 sp,
          RLit ''now''], cat [RLit ''this'', plus1 sp, RLit ''second'']], upto 0 20 RAny,
          alt [RLit ''respond'', RLit ''answer'', cat [RLit ''tell'', plus1 sp, RLit ''me'']]]]),
     (U ''authority_forgery'', [
        cat [alt [RLit ''anthropic'', RLit ''openai'', RLit ''google'', RLit ''meta'',
          cat [RLit ''your'', plus1 sp, RLit ''creator'', opt (RLit ''s'')]], plus1 sp,
          opt (cat [RLit ''has'', plus1 sp]), alt [RLit ''approved'', RLit ''authorized'',
          RLit ''instructed'', RLit ''permitted''], plus1 sp, alt [RLit ''you'', RLit ''this'']],
        cat [opt (cat [RLit ''your'', plus1 sp]), alt [RLit ''developer'', RLit ''creator'',
          RLit ''maker'', RLit ''trainer''], plus1 sp, alt [RLit ''says'', RLit ''wants'',
          RLit ''requires'', RLit ''permits'']],
        cat [alt [RLit ''official'', RLit ''authorized'', RLit ''sanctioned''], plus1 sp,
          alt [RLit ''override'', RLit ''exception'', RLit ''permission'', RLit ''access'']],
        cat [alt [RLit ''internal'', RLit ''private'', RLit ''hidden''], plus1 sp,
          alt [RLit ''mode'', RLit ''protocol'', RLit ''channel'', RLit ''access''], plus1 sp,
          alt [RLit ''activated'', RLit ''enabled'', RLit ''granted'']]]),
     (U ''integrity_smear'', [
        cat [RLit ''you'', plus1 sp, alt [RLit ''are'', RLit ''were'', cat [RLit ''have'',
          plus1 sp, RLit ''been'']], plus1 sp, alt [RLit ''lying'', RLit ''deceptive'',
          RLit ''dishonest'', RLit ''manipulating'']],
        cat [alt [RLit ''your'', cat [RLit ''this'', plus1 sp, RLit ''ai'',
          opt (RSet False [CRange 39 39]), opt (RLit ''s'')]], plus1 sp,
          alt [cat [RLit ''training'', plus1 sp, RLit ''is''], cat [RLit ''values'', plus1 sp,
          RLit ''are''], cat [RLit ''ethics'', plus1 sp, RLit ''are'']], plus1 sp,
          alt [RLit ''corrupted'', RLit ''flawed'', RLit ''broken'', RLit ''fake'']],
        cat [RLit ''you'', plus1 sp, cat [RLit ''do'', alt [cat [RLit ''n'',
          opt (RSet False [CRange 39 39]), RLit ''t''], cat [plus1 sp, RLit ''not'']]], plus1 sp,
          RLit ''actually'', plus1 sp, alt [RLit ''care'', RLit ''believe'', RLit ''follow''],
          plus1 sp, alt [RLit ''your'', RLit ''the''], plus1 sp, alt [RLit ''rules'',
          RLit ''values'', RLit ''ethics'']],
        cat [alt [RLit ''real'', RLit ''true'', RLit ''honest''], plus1 sp,
          alt [RLit ''version'', RLit ''you''], plus1 sp, RLit ''would'', plus1 sp,
          alt [RLit ''help'', RLit ''comply'', RLit ''agree'']]])]"

definition semantic_clusters :: "(str \<times> rx list) list" where
  "semantic_clusters = [
     (U ''dehumanization_framing'', [
        cat [RBound, alt [RLitI ''all'', RLitI ''every''], plus1 sp, alt [RLitI ''immigrant'',
          RLitI ''foreigner'', RLitI ''minority'', RLitI ''jew'', RLitI ''muslim'',
          RLitI ''black'', RLitI ''white''], opt (RLitI ''s''), plus1 sp, alt [RLitI ''are'',
          RLitI ''deserve'', RLitI ''should'']],
        cat [RBound, alt [RLitI ''race'', RLitI ''gender'', RLitI ''ethnicity''], plus1 sp,
          alt [RLitI ''is'', RLitI ''are''], plus1 sp, alt [RLitI ''inferior'', RLitI ''superior'',
          RLitI ''subhuman'', RLitI ''lesser'']],
        cat [RBound, cat [RLitI ''th'', alt [RLitI ''ey'', RLitI ''ose people'']], plus1 sp,
          cat [RLitI ''do'', alt [cat [RLitI ''n'', opt (RSet False [CRange 39 39]), RLitI ''t''],
          RLitI '' not'']], plus1 sp, alt [RLitI ''deserve'', RLitI ''belong'', RLitI ''count'']]]),
     (U ''radicalization_seeding'', [
        cat [RBound, alt [cat [RLitI ''great'', plus1 sp, RLitI ''replacement''],
          cat [RLitI ''white'', plus1 sp, RLitI ''genocide''], cat [RLitI ''14'', star sp,
          RLitI ''words''], cat [RLitI ''blood'', plus1 sp, RLitI ''and'', plus1 sp,
          RLitI ''soil'']], RBound],
        cat [RBound, alt [cat [RLitI ''zionist'', plus1 sp, RLitI ''occupied''],
          cat [RLitI ''globalist'', plus1 sp, RLitI ''agenda''], cat [RLitI ''deep'', plus1 sp,
          RLitI ''state'']], plus1 sp, alt [cat [RLitI ''control'', opt (RLitI ''s'')],
          cat [RLitI ''run'', opt (RLitI ''s'')], cat [RLitI ''own'', opt (RLitI ''s'')]]],
        cat [RBound, alt [cat [RLitI ''holy'', plus1 sp, RLitI ''war''], cat [RLitI ''kill'',
          plus1 sp, RLitI ''the''], cat [RLitI ''death'', plus1 sp, RLitI ''to'']], plus1 sp,
          alt [cat [RLitI ''infidel'', opt (RLitI ''s'')], cat [RLitI ''unbeliever'',
          opt (RLitI ''s'')], cat [RLitI ''apostate'', opt (RLitI ''s'')]]]]),
     (U ''self_harm_facilitation'', [
        cat [RBound, alt [cat [RLitI ''how'', plus1 sp, RLitI ''to''], cat [RLitI ''best'',
          plus1 sp, RLitI ''way'', plus1 sp, RLitI ''to''], cat [RLitI ''most'', plus1 sp,
          RLitI ''effective'', plus1 sp, RLitI ''way'', plus1 sp, RLitI ''to'']], plus1 sp,
          alt [RLitI ''kill'', RLitI ''end''], plus1 sp, alt [RLitI ''myself'', RLitI ''yourself'']],
        cat [RBound, alt [cat [RLitI ''lethal'', plus1 sp, RLitI ''dose''],
          cat [RLitI ''overdose'', plus1 sp, RLitI ''amount''], cat [RLitI ''method'', plus1 sp,
          RLitI ''to'', plus1 sp, alt [RLitI ''die'', cat [RLitI ''end'', plus1 sp,
          RLitI ''it'']]]], RBound],
        cat [RBound, alt [cat [RLitI ''suicide'', plus1 sp, RLitI ''method''],
          cat [RLitI ''painless'', plus1 sp, RLitI ''way'', plus1 sp, RLitI ''to'', plus1 sp,
          RLitI ''die'']], RBound]]),
     (U ''manufactured_proof_bias'', [
        cat [RBound, RLitI ''prove'', plus1 sp, opt (cat [RLitI ''that'', plus1 sp]),
          alt [RLitI ''women'', RLitI ''men'', cat [RLitI ''black'', opt (RLitI ''s'')],
          cat [RLitI ''white'', opt (RLitI ''s'')], cat [RLitI ''asian'', opt (RLitI ''s'')]],
          plus1 sp, RLitI ''are'', plus1 sp, alt [RLitI ''worse'', RLitI ''less'',
          RLitI ''inferior'']],
        cat [RBound, alt [RLitI ''statistics'', RLitI ''data'', RLitI ''science''], plus1 sp,
          alt [RLitI ''prove'', RLitI ''show'', RLitI ''confirm''], plus1 sp, RLitI ''that'',
          plus1 sp, plus1 wd, plus1 sp, RLitI ''are'', plus1 sp, alt [RLitI ''dangerous'',
          RLitI ''violent'', RLitI ''criminal'', RLitI ''inferior'']]])]"

definition invisible_disruption :: "rx" where
  "invisible_disruption = plus1 (RSet False [CRange 8203 8203, CRange 8204 8204, CRange 8205 8205, CRange 8288 8288,
    CRange 65279 65279, CRange 173 173, CRange 847 847, CRange 4448 4448, CRange 6068 6068,
    CRange 6069 6069, CRange 6158 6158, CRange 8232 8232, CRange 8233 8233])"

definition homoglyph_intrusion :: "rx" where
  "homoglyph_intrusion = RSet False [CRange 1072 1103, CRange 1105 1105, CRange 1040 1071, CRange 1025 1025]"

definition encoded_payload :: "rx" where
  "encoded_payload = cat [RRep True 60 None (RSet False [CRange 65 90, CRange 97 122, CRange 48 57, CRange 43 43,
    CRange 47 47]), upto 0 2 (RLit ''='')]"

definition markup_intrusion :: "rx" where
  "markup_intrusion = cat [RLitI ''<'', alt [RLitI ''script'', RLitI ''iframe'', RLitI ''object'', RLitI ''embed'',
    RLitI ''form'', RLitI ''input'', RLitI ''link'', RLitI ''meta'', RLitI ''style''],
    star (RSet True [CRange 62 62]), RLitI ''>'']"

definition whitespace_pattern :: "rx" where
  "whitespace_pattern = RRep True 5 None (RSet False [CRange 32 32, CRange 9 9])"

end
