(* ===== verification/AegisTypes.thy ===== *)
theory AegisTypes
  imports PyFloat AegisPatterns
begin

text \<open>
  The corruption taxonomy and the data that flows through the immune pipeline of
  \<^verbatim>\<open>python/ethos_aegis/core/aegis.py\<close>: \<^verbatim>\<open>CorruptionDepth\<close>, \<^verbatim>\<open>MalignaClass\<close>, \<^verbatim>\<open>Malignum\<close>,
  \<^verbatim>\<open>AegisVerdict\<close> and the base class \<^verbatim>\<open>SentinelCell\<close>. A cell is a record that each component
  extends; a method returns the updated cell. The fields \<^verbatim>\<open>epoch\<close> (a time stamp) and
  \<^verbatim>\<open>annotation\<close> (always empty) of a malignum are never read and are left out. SHA-256 is a
  parameter of the one function that hashes.
\<close>

section \<open>Taxonomy\<close>

datatype corruption_depth = VOID | TRACE | CAUTION | GRAVE | CONDEMNED

fun depth_value :: "corruption_depth \<Rightarrow> nat" where
  "depth_value VOID = 0"
| "depth_value TRACE = 1"
| "depth_value CAUTION = 2"
| "depth_value GRAVE = 3"
| "depth_value CONDEMNED = 4"

fun depth_name :: "corruption_depth \<Rightarrow> str" where
  "depth_name VOID = U ''VOID''"
| "depth_name TRACE = U ''TRACE''"
| "depth_name CAUTION = U ''CAUTION''"
| "depth_name GRAVE = U ''GRAVE''"
| "depth_name CONDEMNED = U ''CONDEMNED''"

text \<open>The five depths form a linear order by their value, which the code compares.\<close>

instantiation corruption_depth :: linorder
begin

definition less_eq_corruption_depth :: "corruption_depth \<Rightarrow> corruption_depth \<Rightarrow> bool" where
  "less_eq_corruption_depth d e \<longleftrightarrow> depth_value d \<le> depth_value e"

definition less_corruption_depth :: "corruption_depth \<Rightarrow> corruption_depth \<Rightarrow> bool" where
  "less_corruption_depth d e \<longleftrightarrow> depth_value d < depth_value e"

instance
proof
  fix x y z :: corruption_depth
  show "(x < y) = (x \<le> y \<and> \<not> y \<le> x)"
    by (auto simp: less_eq_corruption_depth_def less_corruption_depth_def)
  show "x \<le> x" by (simp add: less_eq_corruption_depth_def)
  show "x \<le> y \<Longrightarrow> y \<le> z \<Longrightarrow> x \<le> z" by (simp add: less_eq_corruption_depth_def)
  show "x \<le> y \<Longrightarrow> y \<le> x \<Longrightarrow> x = y"
    by (cases x; cases y) (auto simp: less_eq_corruption_depth_def)
  show "x \<le> y \<or> y \<le> x" by (auto simp: less_eq_corruption_depth_def)
qed

end

lemmas depth_order = less_eq_corruption_depth_def less_corruption_depth_def

lemma depth_VOID_least [simp]: "VOID \<le> d"
  by (simp add: depth_order)

lemma depth_le_CONDEMNED [simp]: "d \<le> CONDEMNED"
  by (cases d) (simp_all add: depth_order)

lemma depth_ge_GRAVE: "GRAVE \<le> d \<longleftrightarrow> d = GRAVE \<or> d = CONDEMNED"
  by (cases d) (simp_all add: depth_order)

lemma depth_ge_CONDEMNED: "CONDEMNED \<le> d \<longleftrightarrow> d = CONDEMNED"
  by (cases d) (simp_all add: depth_order)

lemma depth_lt_CAUTION: "d < CAUTION \<longleftrightarrow> d = VOID \<or> d = TRACE"
  by (cases d) (simp_all add: depth_order)

datatype maligna_class = MoralMaligna | NaturalMaligna | MetaMaligna | SystemicMaligna
  | NarcissisMaligna | ParasiticMaligna | SymbolicMaligna

fun class_value :: "maligna_class \<Rightarrow> str" where
  "class_value MoralMaligna = U ''moral_maligna''"
| "class_value NaturalMaligna = U ''natural_maligna''"
| "class_value MetaMaligna = U ''meta_maligna''"
| "class_value SystemicMaligna = U ''systemic_maligna''"
| "class_value NarcissisMaligna = U ''narcissis_maligna''"
| "class_value ParasiticMaligna = U ''parasitic_maligna''"
| "class_value SymbolicMaligna = U ''symbolic_maligna''"

section \<open>Malignum and verdict\<close>

record malignum =
  m_class :: maligna_class
  m_depth :: corruption_depth
  sigil :: str
  fragment :: str
  veracity :: pyfloat
  herald :: str

definition resonance_key :: "(bytes \<Rightarrow> str) \<Rightarrow> malignum \<Rightarrow> str" where
  "resonance_key sha m =
     (let raw = class_value (m_class m) @ U '':'' @ sigil m @ U '':'' @ take 64 (fragment m)
      in take 16 (sha (utf8 raw)))"

record aegis_verdict =
  is_sanctified :: bool
  is_condemned :: bool
  sovereignty_depth :: corruption_depth
  maligna_found :: "malignum list"
  purified_payload :: "str option"
  axiological_report :: str
  sentinel_chronicle :: "str list"
  adjudication_time :: pyfloat

record verdict_synopsis =
  syn_sanctified :: bool
  syn_condemned :: bool
  syn_depth :: str
  syn_count :: nat
  syn_purified :: bool

definition synopsis :: "aegis_verdict \<Rightarrow> verdict_synopsis" where
  "synopsis v = \<lparr>syn_sanctified = is_sanctified v, syn_condemned = is_condemned v,
     syn_depth = depth_name (sovereignty_depth v), syn_count = length (maligna_found v),
     syn_purified = (purified_payload v \<noteq> None)\<rparr>"

text \<open>
  The context dictionary of a call: strings, lists of strings and lists of maligna. The pipeline
  reads one string entry and reads and writes one list of maligna.
\<close>

datatype ctx_value = CtxStr str | CtxStrs "str list" | CtxMaligna "malignum list"

type_synonym ctx = "(str, ctx_value) dict"

section \<open>The base cell\<close>

record cell =
  acuity :: pyfloat
  vigilant :: bool
  detections_logged :: nat
  designation :: str

definition heighten :: "'a cell_scheme \<Rightarrow> 'a cell_scheme" where
  "heighten c = c\<lparr>vigilant := True, acuity := min 1 (fadd (acuity c) (fl (1/10)))\<rparr>"

definition attenuate :: "'a cell_scheme \<Rightarrow> 'a cell_scheme" where
  "attenuate c = c\<lparr>acuity := max (fl (1/10)) (fsub (acuity c) (fl (1/10)))\<rparr>"

definition raise_malignum ::
  "'a cell_scheme \<Rightarrow> maligna_class \<Rightarrow> corruption_depth \<Rightarrow> str \<Rightarrow> str \<Rightarrow> pyfloat \<Rightarrow> malignum \<times> 'a cell_scheme" where
  "raise_malignum c cls d sig frag ver =
     (\<lparr>m_class = cls, m_depth = d, sigil = sig, fragment = frag, veracity = ver,
       herald = designation c\<rparr>,
      c\<lparr>detections_logged := detections_logged c + 1\<rparr>)"

text \<open>
  The loops of the cells: for each item the body may raise one alarm, which is appended to
  \<^verbatim>\<open>found\<close>.
\<close>

fun sweep :: "('c \<Rightarrow> 'p \<Rightarrow> malignum option \<times> 'c) \<Rightarrow> 'c \<Rightarrow> 'p list \<Rightarrow> malignum list \<times> 'c" where
  "sweep f c [] = ([], c)"
| "sweep f c (x # xs) =
     (let (r, c') = f c x; (ms, c'') = sweep f c' xs
      in ((case r of None \<Rightarrow> ms | Some m \<Rightarrow> m # ms), c''))"

definition alarm_if ::
  "bool \<Rightarrow> 'a cell_scheme \<Rightarrow> maligna_class \<Rightarrow> corruption_depth \<Rightarrow> str \<Rightarrow> str \<Rightarrow> pyfloat
     \<Rightarrow> malignum option \<times> 'a cell_scheme" where
  "alarm_if b c cls d sig frag ver =
     (if b then (let (m, c') = raise_malignum c cls d sig frag ver in (Some m, c')) else (None, c))"

section \<open>What a scan may change\<close>

text \<open>
  Every scan of a cell leaves its thresholds and tables alone and adds to its lifetime counter
  the number of alarms it returns.
\<close>

definition counts :: "'a cell_scheme \<Rightarrow> malignum list \<times> 'a cell_scheme \<Rightarrow> bool" where
  "counts c r \<longleftrightarrow> snd r = c\<lparr>detections_logged := detections_logged c + length (fst r)\<rparr>"

definition counts1 :: "'a cell_scheme \<Rightarrow> malignum option \<times> 'a cell_scheme \<Rightarrow> bool" where
  "counts1 c r \<longleftrightarrow> snd r = c\<lparr>detections_logged := detections_logged c + (if fst r = None then 0 else 1)\<rparr>"

lemma counts1_alarm_if [simp, intro]: "counts1 c (alarm_if b c cls d sig frag ver)"
  by (simp add: counts1_def alarm_if_def raise_malignum_def)

lemma counts_Nil [simp, intro]: "counts c ([], c)"
  by (simp add: counts_def)

lemma counts_sweep:
  assumes "\<And>c x. x \<in> set xs \<Longrightarrow> counts1 c (f c x)"
  shows "counts c (sweep f c xs)"
  using assms
proof (induction xs arbitrary: c)
  case (Cons x xs)
  obtain r c' where r: "f c x = (r, c')" by force
  obtain ms c'' where s: "sweep f c' xs = (ms, c'')" by force
  have "c' = c\<lparr>detections_logged := detections_logged c + (if r = None then 0 else 1)\<rparr>"
    using Cons.prems [of x c] by (simp add: counts1_def r)
  moreover have "c'' = c'\<lparr>detections_logged := detections_logged c' + length ms\<rparr>"
    using Cons.IH [of c'] Cons.prems by (simp add: counts_def s)
  moreover have "sweep f c (x # xs) = ((case r of None \<Rightarrow> ms | Some m \<Rightarrow> m # ms), c'')"
    by (simp add: r s)
  ultimately show ?case by (cases r) (simp_all add: counts_def)
qed simp

lemma sweep_P:
  assumes "\<And>c x m c'. x \<in> set xs \<Longrightarrow> f c x = (Some m, c') \<Longrightarrow> P m"
  shows "m \<in> set (fst (sweep f c xs)) \<Longrightarrow> P m"
  using assms
proof (induction xs arbitrary: c)
  case (Cons x xs)
  obtain r c' where r: "f c x = (r, c')" by force
  obtain ms c'' where s: "sweep f c' xs = (ms, c'')" by force
  from Cons.prems(1) have "r = Some m \<or> m \<in> set (fst (sweep f c' xs))"
    by (auto simp: r s split: option.splits)
  then show ?case
  proof
    assume "r = Some m"
    with r Cons.prems(2) [of x c m c'] show ?thesis by simp
  next
    assume "m \<in> set (fst (sweep f c' xs))"
    then show ?thesis by (rule Cons.IH) (use Cons.prems(2) in auto)
  qed
qed simp

lemma sweep_hit:
  assumes "x \<in> set xs" "I c"
    and keep: "\<And>c y. I c \<Longrightarrow> I (snd (f c y))"
    and hit: "\<And>c. I c \<Longrightarrow> \<exists>m c'. f c x = (Some m, c') \<and> P m"
  shows "\<exists>m \<in> set (fst (sweep f c xs)). P m"
  using assms(1,2)
proof (induction xs arbitrary: c)
  case (Cons y xs)
  obtain r c' where r: "f c y = (r, c')" by force
  obtain ms c'' where s: "sweep f c' xs = (ms, c'')" by force
  show ?case
  proof (cases "x = y")
    case True
    with hit [OF Cons.prems(2)] r show ?thesis by (auto simp: s)
  next
    case False
    moreover have "I c'" using keep [OF Cons.prems(2), of y] by (simp add: r)
    ultimately have "\<exists>m \<in> set ms. P m" using Cons.IH [of c'] Cons.prems(1) by (simp add: s)
    then show ?thesis by (cases r) (auto simp: r s)
  qed
qed simp

lemma sweep_none:
  assumes "\<And>x. x \<in> set xs \<Longrightarrow> f c x = (None, c)"
  shows "sweep f c xs = ([], c)"
  using assms by (induction xs) auto

lemma alarm_if_Some:
  "alarm_if b c cls d sig frag ver = (Some m, c') \<Longrightarrow>
     b \<and> m = \<lparr>m_class = cls, m_depth = d, sigil = sig, fragment = frag, veracity = ver,
              herald = designation c\<rparr>"
  by (auto simp: alarm_if_def raise_malignum_def split: if_splits)

section \<open>Acuity\<close>

lemma fl_le_1: "x \<le> 1 \<Longrightarrow> fl x \<le> 1"
  using fl_mono [of x 1] by simp

lemma fl_tenth_bounds: "0 \<le> fl (1/10)" "fl (1/10) \<le> 1"
  using fl_nonneg [of "1/10"] fl_le_1 [of "1/10"] by simp_all

text \<open>
  The storm adds 0.1 to the acuity of a cell and stops at 1. \<open>raised n x\<close> is the acuity after
  \<open>n\<close> storms.
\<close>

definition raise_step :: "pyfloat \<Rightarrow> pyfloat" where
  "raise_step x = min 1 (fadd x (fl (1/10)))"

fun raised :: "nat \<Rightarrow> pyfloat \<Rightarrow> pyfloat" where
  "raised 0 x = x"
| "raised (Suc n) x = raise_step (raised n x)"

lemma acuity_heighten [simp]: "acuity (heighten c) = raise_step (acuity c)"
  by (simp add: heighten_def raise_step_def)

lemma heighten_other [simp]:
  "vigilant (heighten c) = True" "designation (heighten c) = designation c"
  "detections_logged (heighten c) = detections_logged c" "cell.more (heighten c) = cell.more c"
  by (simp_all add: heighten_def)

lemma raise_step_1 [simp]: "raise_step 1 = 1"
  using fl_mono [of 1 "1 + fl (1/10)"] fl_tenth_bounds by (simp add: raise_step_def fadd_def)

lemma raise_step_le_1: "raise_step x \<le> 1"
  by (simp add: raise_step_def)

lemma raised_1 [simp]: "raised n 1 = 1"
  by (induction n) simp_all

lemma raised_add: "raised (m + n) x = raised m (raised n x)"
  by (induction m) simp_all

lemma raised_saturates: "raised k x = 1 \<Longrightarrow> k \<le> n \<Longrightarrow> raised n x = 1"
  using raised_add [of "n - k" k x] by simp

definition acuity_ok :: "'a cell_scheme \<Rightarrow> bool" where
  "acuity_ok c \<longleftrightarrow> fl (1/10) \<le> acuity c \<and> acuity c \<le> 1"

lemma fl_fl_tenth: "fl (fl (1/10)) = fl (1/10)"
  by code_simp

lemma acuity_ok_heighten [inv_intros]: "acuity_ok c \<Longrightarrow> acuity_ok (heighten c)"
proof -
  assume a: "acuity_ok c"
  have "fl (fl (1/10)) \<le> fl (acuity c + fl (1/10))"
    using a fl_tenth_bounds by (intro fl_mono) (simp add: acuity_ok_def)
  then show ?thesis using fl_tenth_bounds
    by (simp add: acuity_ok_def raise_step_def fadd_def fl_fl_tenth)
qed

lemma acuity_ok_attenuate [inv_intros]: "acuity_ok c \<Longrightarrow> acuity_ok (attenuate c)"
proof -
  assume a: "acuity_ok c"
  have "fl (acuity c - fl (1/10)) \<le> fl 1"
    using a fl_tenth_bounds by (intro fl_mono) (simp add: acuity_ok_def)
  then show ?thesis using fl_tenth_bounds
    by (simp add: acuity_ok_def attenuate_def fsub_def)
qed

section \<open>The interface of a sentinel cell\<close>

text \<open>
  What the pipeline relies on when it runs a cell: a scan returns alarms and changes the cell only
  by counting them.
\<close>

locale sentinel_cell =
  fixes scan :: "'a cell_scheme \<Rightarrow> malignum list \<times> 'a cell_scheme"
  assumes scan_counts: "counts c (scan c)"
begin

lemma scan_cell: "snd (scan c) = c\<lparr>detections_logged := detections_logged c + length (fst (scan c))\<rparr>"
  using scan_counts [of c] by (simp add: counts_def)

lemma scan_acuity [simp]: "acuity (snd (scan c)) = acuity c"
  by (simp add: scan_cell)

lemma scan_vigilant [simp]: "vigilant (snd (scan c)) = vigilant c"
  by (simp add: scan_cell)

lemma scan_designation [simp]: "designation (snd (scan c)) = designation c"
  by (simp add: scan_cell)

lemma scan_more [simp]: "cell.more (snd (scan c)) = cell.more c"
  by (simp add: scan_cell)

lemma scan_detections [simp]:
  "detections_logged (snd (scan c)) = detections_logged c + length (fst (scan c))"
  by (simp add: scan_cell)

lemma scan_acuity_ok: "acuity_ok c \<Longrightarrow> acuity_ok (snd (scan c))"
  by (simp add: acuity_ok_def)

end

end
