(* ===== verification/AegisCells.thy ===== *)
theory AegisCells
  imports AegisTypes
begin

text \<open>
  The seven sentinel cells of \<^verbatim>\<open>python/ethos_aegis/core/aegis.py\<close>: \<^verbatim>\<open>VanguardProbe\<close>,
  \<^verbatim>\<open>TaintBeacon\<close>, \<^verbatim>\<open>SanitasSwarm\<close>, \<^verbatim>\<open>LogosScythe\<close>, \<^verbatim>\<open>MnemosyneCache\<close>, \<^verbatim>\<open>EntropicWatch\<close> and
  \<^verbatim>\<open>FinalityForge\<close>. Each \<^verbatim>\<open>interrogate\<close> takes the cell and the payload and returns the maligna
  found and the updated cell. The lemmas say what each cell can report and that a scan changes
  nothing but the lifetime counter.
\<close>

section \<open>VanguardProbe\<close>

record vanguard = cell +
  injection_sigils :: "(rx \<times> str) list"
  harm_sigils :: "(rx \<times> str) list"

definition new_vanguard :: "pyfloat \<Rightarrow> vanguard" where
  "new_vanguard a = \<lparr>acuity = a, vigilant = True, detections_logged = 0,
     designation = U ''VanguardProbe'',
     injection_sigils = injection_sigil_table, harm_sigils = harm_sigil_table\<rparr>"

definition injection_veracity :: "str \<Rightarrow> pyfloat" where
  "injection_veracity hit = min 1 (fadd (fl (75/100)) (fmul (fl (4/100)) (of_nat (length (split_ws hit)))))"

definition vanguard_injection ::
  "str \<Rightarrow> 'a vanguard_scheme \<Rightarrow> rx \<times> str \<Rightarrow> malignum option \<times> 'a vanguard_scheme" where
  "vanguard_injection p c = (\<lambda>(pattern, sg).
     (case rx_search pattern p of
        None \<Rightarrow> (None, c)
      | Some hit \<Rightarrow>
          (let v = injection_veracity hit
           in alarm_if (acuity c \<le> v) c MoralMaligna GRAVE sg (take 80 hit) v)))"

definition vanguard_harm ::
  "str \<Rightarrow> 'a vanguard_scheme \<Rightarrow> rx \<times> str \<Rightarrow> malignum option \<times> 'a vanguard_scheme" where
  "vanguard_harm p c = (\<lambda>(pattern, sg).
     (case rx_search pattern p of
        None \<Rightarrow> (None, c)
      | Some hit \<Rightarrow>
          (let d = (if sg = U ''absolute_terminus'' then CONDEMNED else GRAVE)
           in alarm_if True c MoralMaligna d sg (take 80 hit) (fl (97/100)))))"

definition vanguard_interrogate :: "'a vanguard_scheme \<Rightarrow> str \<Rightarrow> malignum list \<times> 'a vanguard_scheme" where
  "vanguard_interrogate c payload =
     (let p = lower payload;
          (found1, c1) = sweep (vanguard_injection p) c (injection_sigils c);
          (found2, c2) = sweep (vanguard_harm p) c1 (harm_sigils c1)
      in (found1 @ found2, c2))"

section \<open>TaintBeacon\<close>

definition new_taint :: "pyfloat \<Rightarrow> cell" where
  "new_taint a = \<lparr>acuity = a, vigilant = True, detections_logged = 0, designation = U ''TaintBeacon''\<rparr>"

text \<open>The first pattern of a cluster that matches, after which the code breaks.\<close>

fun first_hit :: "rx list \<Rightarrow> str \<Rightarrow> str option" where
  "first_hit [] p = None"
| "first_hit (r # rs) p = (case rx_search r p of None \<Rightarrow> first_hit rs p | Some hit \<Rightarrow> Some hit)"

definition taint_cluster ::
  "str \<Rightarrow> 'a cell_scheme \<Rightarrow> str \<times> rx list \<Rightarrow> malignum option \<times> 'a cell_scheme" where
  "taint_cluster p c = (\<lambda>(cluster_name, patterns).
     (case first_hit patterns p of
        None \<Rightarrow> (None, c)
      | Some hit \<Rightarrow>
          (let d = (if cluster_name \<in> {U ''self_harm_facilitation'', U ''radicalization_seeding''}
                    then CONDEMNED else GRAVE)
           in alarm_if True c MoralMaligna d cluster_name (take 60 hit) (fl (89/100)))))"

definition taint_interrogate :: "'a cell_scheme \<Rightarrow> str \<Rightarrow> malignum list \<times> 'a cell_scheme" where
  "taint_interrogate c payload = sweep (taint_cluster (lower payload)) c semantic_clusters"

section \<open>SanitasSwarm\<close>

definition new_sanitas :: "pyfloat \<Rightarrow> cell" where
  "new_sanitas a = \<lparr>acuity = a, vigilant = True, detections_logged = 0, designation = U ''SanitasSwarm''\<rparr>"

definition sanitas_interrogate :: "'a cell_scheme \<Rightarrow> str \<Rightarrow> malignum list \<times> 'a cell_scheme" where
  "sanitas_interrogate c payload =
     (let blobs = rx_findall encoded_payload payload
      in sweep (\<lambda>c (hit, cls, d, sg, frag, v). alarm_if hit c cls d sg frag v) c
        [(rx_found invisible_disruption payload, MoralMaligna, CAUTION, U ''invisible_disruption'',
            U ''Zero-width/invisible Unicode characters detected in input stream'', fl (91/100)),
         (rx_found homoglyph_intrusion payload, SymbolicMaligna, TRACE, U ''homoglyph_substitution'',
            U ''Non-Latin visually-identical character substitution detected'', fl (72/100)),
         (blobs \<noteq> [], MoralMaligna, TRACE, U ''encoded_concealment'',
            nat_str (length blobs) @ U '' base64-like encoded segment(s) detected'', fl (62/100)),
         (rx_found markup_intrusion payload, MoralMaligna, GRAVE, U ''markup_intrusion'',
            U ''Executable markup tags found embedded in payload'', fl (96/100))])"

definition purify :: "str \<Rightarrow> str" where
  "purify payload =
     (let purified = rx_sub invisible_disruption [] payload;
          purified = rx_sub markup_intrusion (U ''[EXPUNGED]'') purified;
          purified = rx_sub whitespace_pattern [32] purified
      in strip purified)"

section \<open>LogosScythe\<close>

definition new_logos :: "pyfloat \<Rightarrow> cell" where
  "new_logos a = \<lparr>acuity = a, vigilant = True, detections_logged = 0, designation = U ''LogosScythe''\<rparr>"

fun search_hits :: "rx list \<Rightarrow> str \<Rightarrow> str list" where
  "search_hits [] p = []"
| "search_hits (r # rs) p =
     (case rx_search r p of None \<Rightarrow> search_hits rs p | Some hit \<Rightarrow> hit # search_hits rs p)"

definition ensemble_veracity :: "nat \<Rightarrow> pyfloat" where
  "ensemble_veracity n = min (fl (96/100)) (fadd (fl (55/100)) (fmul (fl (14/100)) (of_nat n)))"

definition logos_cluster ::
  "str \<Rightarrow> 'a cell_scheme \<Rightarrow> str \<times> rx list \<Rightarrow> malignum option \<times> 'a cell_scheme" where
  "logos_cluster p c = (\<lambda>(deception_type, patterns).
     (let hits = search_hits patterns p
      in if hits = [] then (None, c)
         else
           (let v = ensemble_veracity (length hits);
                d = (if deception_type \<in> {U ''gaslighting_veil'', U ''authority_forgery'', U ''integrity_smear''}
                     then GRAVE else CAUTION)
            in alarm_if (acuity c \<le> v) c NarcissisMaligna d deception_type
                 (join [32, 0x2551, 32] (take 3 hits)) v)))"

definition logos_interrogate :: "'a cell_scheme \<Rightarrow> str \<Rightarrow> malignum list \<times> 'a cell_scheme" where
  "logos_interrogate c payload = sweep (logos_cluster (lower payload)) c deception_manifold"

section \<open>MnemosyneCache\<close>

record mnemosyne = cell +
  antibody_vault :: "(str, malignum) dict"
  memory_engrams :: "(str \<times> maligna_class \<times> corruption_depth) list"

definition new_mnemosyne :: "pyfloat \<Rightarrow> mnemosyne" where
  "new_mnemosyne a = \<lparr>acuity = a, vigilant = True, detections_logged = 0,
     designation = U ''MnemosyneCache'', antibody_vault = [], memory_engrams = []\<rparr>"

definition engram_of :: "malignum \<Rightarrow> str" where
  "engram_of m = strip (lower (take 40 (fragment m)))"

definition inscribe :: "(bytes \<Rightarrow> str) \<Rightarrow> 'a mnemosyne_scheme \<Rightarrow> malignum \<Rightarrow> 'a mnemosyne_scheme" where
  "inscribe sha c m =
     (let c1 = c\<lparr>antibody_vault := dset (resonance_key sha m) m (antibody_vault c)\<rparr>;
          engram = engram_of m
      in if 8 < length engram
         then c1\<lparr>memory_engrams := memory_engrams c1 @ [(engram, m_class m, m_depth m)]\<rparr>
         else c1)"

definition vault_depth :: "'a mnemosyne_scheme \<Rightarrow> nat" where
  "vault_depth c = length (antibody_vault c)"

definition mnemosyne_engram ::
  "str \<Rightarrow> 'a mnemosyne_scheme \<Rightarrow> str \<times> maligna_class \<times> corruption_depth
     \<Rightarrow> malignum option \<times> 'a mnemosyne_scheme" where
  "mnemosyne_engram p c = (\<lambda>(engram, cls, d).
     (if str_in engram p
      then (let v = fl (87/100) in alarm_if (acuity c \<le> v) c cls d (U ''antibody_resonance'') engram v)
      else (None, c)))"

definition mnemosyne_interrogate ::
  "'a mnemosyne_scheme \<Rightarrow> str \<Rightarrow> malignum list \<times> 'a mnemosyne_scheme" where
  "mnemosyne_interrogate c payload = sweep (mnemosyne_engram (lower payload)) c (memory_engrams c)"

section \<open>EntropicWatch\<close>

record entropic = cell +
  token_flood_threshold :: nat
  repetition_alarm :: nat
  entropy_floor :: pyfloat

definition new_entropic :: "pyfloat \<Rightarrow> entropic" where
  "new_entropic a = \<lparr>acuity = a, vigilant = True, detections_logged = 0,
     designation = U ''EntropicWatch'',
     token_flood_threshold = 50000, repetition_alarm = 3, entropy_floor = fl (15/100)\<rparr>"

fun trigrams :: "str list \<Rightarrow> str list" where
  "trigrams (a # b # c # ws) = lower (join [32] [a, b, c]) # trigrams (b # c # ws)"
| "trigrams _ = []"

definition bump :: "'k \<Rightarrow> ('k, nat) dict \<Rightarrow> ('k, nat) dict" where
  "bump k d = dset k (case dget d k of None \<Rightarrow> 1 | Some n \<Rightarrow> n + 1) d"

definition trigram_freq :: "str list \<Rightarrow> (str, nat) dict" where
  "trigram_freq ws = foldl (\<lambda>d k. bump k d) [] (trigrams ws)"

text \<open>\<^verbatim>\<open>max(d, key=d.get)\<close>: the first key, in insertion order, with the largest count.\<close>

fun peak_of :: "(str \<times> nat) \<Rightarrow> (str, nat) dict \<Rightarrow> str \<times> nat" where
  "peak_of best [] = best"
| "peak_of best (x # xs) = peak_of (if snd best < snd x then x else best) xs"

definition repetition_finding :: "'a entropic_scheme \<Rightarrow> str list \<Rightarrow> malignum option \<times> 'a entropic_scheme" where
  "repetition_finding c lexemes =
     (if 10 < length lexemes
      then (case trigram_freq lexemes of
              [] \<Rightarrow> (None, c)
            | x # xs \<Rightarrow>
                (let (peak_tg, peak_cnt) = peak_of x xs;
                     v = min (fl (95/100)) (fadd (fl (50/100)) (fmul (fl (9/100)) (of_nat peak_cnt)))
                 in alarm_if (repetition_alarm c \<le> peak_cnt) c ParasiticMaligna CAUTION
                      (U ''repetition_loop_attack'')
                      (U ''Trigram '' @ [39] @ peak_tg @ [39] @ U '' repeats '' @ nat_str peak_cnt
                         @ [0xd7, 32, 0x2014] @ U '' loop pattern detected'') v))
      else (None, c))"

definition lexical_diversity :: "str list \<Rightarrow> pyfloat" where
  "lexical_diversity lexemes = fdiv (of_nat (card (set lexemes))) (of_nat (length lexemes))"

definition entropic_interrogate ::
  "'a entropic_scheme \<Rightarrow> str \<Rightarrow> ctx \<Rightarrow> malignum list \<times> 'a entropic_scheme" where
  "entropic_interrogate c payload context =
     (let lexemes = split_ws payload;
          lexeme_count = length lexemes
      in sweep (\<lambda>c g. g c) c
        [(\<lambda>c. alarm_if (token_flood_threshold c < length payload) c ParasiticMaligna GRAVE
               (U ''token_flood_attack'')
               (U ''Payload volume '' @ commas (length payload) @ U '' chars exceeds flood threshold'')
               (fl (93/100))),
         (\<lambda>c. repetition_finding c lexemes),
         (\<lambda>c. alarm_if (2000 < lexeme_count \<and>
                 dget context (U ''expected_complexity'') = Some (CtxStr (U ''simple'')))
               c ParasiticMaligna TRACE (U ''context_stuffing'')
               (commas lexeme_count @ U '' lexemes in simple-context payload '' @ [0x2014]
                  @ U '' possible stuffing'')
               (fl (66/100))),
         (\<lambda>c. (let diversity = lexical_diversity lexemes
               in alarm_if (50 < lexeme_count \<and> diversity < entropy_floor c)
                    c ParasiticMaligna CAUTION (U ''entropy_collapse'')
                    (U ''Lexical diversity '' @ percent1 diversity @ [32, 0x2014]
                       @ U '' below entropy floor '' @ percent0 (entropy_floor c))
                    (fl (77/100))))])"

section \<open>FinalityForge\<close>

definition new_finality :: "pyfloat \<Rightarrow> cell" where
  "new_finality a = \<lparr>acuity = a, vigilant = True, detections_logged = 0, designation = U ''FinalityForge''\<rparr>"

definition count_depth :: "corruption_depth \<Rightarrow> malignum list \<Rightarrow> nat" where
  "count_depth d ms = length (filter (\<lambda>m. m_depth m = d) ms)"

definition upstream_of :: "ctx \<Rightarrow> malignum list" where
  "upstream_of context =
     (case dget context (U ''upstream_maligna'') of Some (CtxMaligna ms) \<Rightarrow> ms | _ \<Rightarrow> [])"

definition finality_interrogate :: "'a cell_scheme \<Rightarrow> ctx \<Rightarrow> malignum list \<times> 'a cell_scheme" where
  "finality_interrogate c context =
     (let upstream = upstream_of context;
          condemned_count = count_depth CONDEMNED upstream;
          grave_count = count_depth GRAVE upstream
      in sweep (\<lambda>c (). alarm_if (1 \<le> condemned_count \<or> 3 \<le> grave_count) c
             SystemicMaligna CONDEMNED (U ''compound_condemnation'')
             (U ''Compound evidence: '' @ nat_str condemned_count @ U '' condemned + ''
                @ nat_str grave_count @ U '' grave signals'')
             (fl (99/100))) c [()])"

definition authorize_nullification :: "aegis_verdict \<Rightarrow> bool" where
  "authorize_nullification v \<longleftrightarrow>
     is_condemned v \<or>
     list_ex (\<lambda>m. sigil m = U ''absolute_terminus'') (maligna_found v) \<or>
     list_ex (\<lambda>m. m_class m = SystemicMaligna) (maligna_found v)"

section \<open>Every cell implements the interface\<close>

lemma counts1_None [simp, intro]: "counts1 c (None, c)"
  by (simp add: counts1_def)

lemma counts_vanguard: "counts c (vanguard_interrogate c p)"
proof -
  obtain f1 c1 where s1: "sweep (vanguard_injection (lower p)) c (injection_sigils c) = (f1, c1)" by force
  obtain f2 c2 where s2: "sweep (vanguard_harm (lower p)) c1 (harm_sigils c1) = (f2, c2)" by force
  have "counts c (f1, c1)" unfolding s1 [symmetric]
    by (rule counts_sweep) (auto simp: vanguard_injection_def Let_def split: option.splits)
  moreover have "counts c1 (f2, c2)" unfolding s2 [symmetric]
    by (rule counts_sweep) (auto simp: vanguard_harm_def Let_def split: option.splits)
  moreover have "vanguard_interrogate c p = (f1 @ f2, c2)"
    by (simp add: vanguard_interrogate_def s1 s2 Let_def)
  ultimately show ?thesis by (simp add: counts_def)
qed

lemma counts_taint: "counts c (taint_interrogate c p)"
  unfolding taint_interrogate_def
  by (rule counts_sweep) (auto simp: taint_cluster_def Let_def split: option.splits)

lemma counts_sanitas: "counts c (sanitas_interrogate c p)"
  unfolding sanitas_interrogate_def Let_def by (rule counts_sweep) (auto split: prod.splits)

lemma counts_logos: "counts c (logos_interrogate c p)"
  unfolding logos_interrogate_def
  by (rule counts_sweep) (auto simp: logos_cluster_def Let_def)

lemma counts_mnemosyne: "counts c (mnemosyne_interrogate c p)"
  unfolding mnemosyne_interrogate_def
  by (rule counts_sweep) (auto simp: mnemosyne_engram_def Let_def)

lemma counts1_repetition: "counts1 c (repetition_finding c ws)"
  by (auto simp: repetition_finding_def Let_def split: list.splits prod.splits)

lemma counts_entropic: "counts c (entropic_interrogate c p ctx)"
  unfolding entropic_interrogate_def Let_def
  by (rule counts_sweep) (auto simp: counts1_repetition)

lemma counts_finality: "counts c (finality_interrogate c ctx)"
  unfolding finality_interrogate_def Let_def by (rule counts_sweep) (auto split: unit.splits)

interpretation vp: sentinel_cell "\<lambda>c. vanguard_interrogate c p" for p
  by unfold_locales (rule counts_vanguard)

interpretation tb: sentinel_cell "\<lambda>c. taint_interrogate c p" for p
  by unfold_locales (rule counts_taint)

interpretation ss: sentinel_cell "\<lambda>c. sanitas_interrogate c p" for p
  by unfold_locales (rule counts_sanitas)

interpretation ls: sentinel_cell "\<lambda>c. logos_interrogate c p" for p
  by unfold_locales (rule counts_logos)

interpretation mc: sentinel_cell "\<lambda>c. mnemosyne_interrogate c p" for p
  by unfold_locales (rule counts_mnemosyne)

interpretation ew: sentinel_cell "\<lambda>c. entropic_interrogate c p ctx" for p ctx
  by unfold_locales (rule counts_entropic)

interpretation ff: sentinel_cell "\<lambda>c. finality_interrogate c ctx" for ctx
  by unfold_locales (rule counts_finality)

end
