(* ===== verification/AegisCore.thy ===== *)
theory AegisCore
  imports AegisCells
begin

text \<open>
  \<^verbatim>\<open>CytokineCommand\<close> and \<^verbatim>\<open>EthosAegis\<close> of \<^verbatim>\<open>python/ethos_aegis/core/aegis.py\<close>: the registry of
  the seven cells, the cytokine storm, antibody relay, the six-stage pipeline \<^verbatim>\<open>adjudicate\<close>, the
  axiological report and the codex. The registry holds every cell once: \<^verbatim>\<open>_shared_mnemosyne\<close>,
  \<^verbatim>\<open>_finality_forge\<close> and \<^verbatim>\<open>_sanitas_swarm\<close> of the source are the registry's own objects, so
  one field stands for each. SHA-256, the rendered clock and the elapsed time are arguments.
\<close>

section \<open>CytokineCommand\<close>

record cytokine =
  vanguard_probe :: vanguard
  taint_beacon :: cell
  sanitas_swarm :: cell
  logos_scythe :: cell
  mnemosyne_cache :: mnemosyne
  entropic_watch :: entropic
  finality_forge :: cell

definition differentiate :: cytokine where
  "differentiate = \<lparr>vanguard_probe = new_vanguard (fl (75/100)),
     taint_beacon = new_taint (fl (85/100)),
     sanitas_swarm = new_sanitas (fl (80/100)),
     logos_scythe = new_logos (fl (65/100)),
     mnemosyne_cache = new_mnemosyne (fl (70/100)),
     entropic_watch = new_entropic (fl (70/100)),
     finality_forge = new_finality (fl (90/100))\<rparr>"

definition heighten_all :: "cytokine \<Rightarrow> cytokine" where
  "heighten_all cc = \<lparr>vanguard_probe = heighten (vanguard_probe cc),
     taint_beacon = heighten (taint_beacon cc),
     sanitas_swarm = heighten (sanitas_swarm cc),
     logos_scythe = heighten (logos_scythe cc),
     mnemosyne_cache = heighten (mnemosyne_cache cc),
     entropic_watch = heighten (entropic_watch cc),
     finality_forge = heighten (finality_forge cc)\<rparr>"

definition broadcast_cytokine_storm :: "corruption_depth \<Rightarrow> cytokine \<Rightarrow> cytokine" where
  "broadcast_cytokine_storm d cc = (if GRAVE \<le> d then heighten_all cc else cc)"

definition relay_to_mnemosyne :: "(bytes \<Rightarrow> str) \<Rightarrow> malignum \<Rightarrow> cytokine \<Rightarrow> cytokine" where
  "relay_to_mnemosyne sha m cc = cc\<lparr>mnemosyne_cache := inscribe sha (mnemosyne_cache cc) m\<rparr>"

section \<open>EthosAegis\<close>

record aegis =
  cytokine_command :: cytokine
  adjudications :: nat
  condemnations :: nat
  quarantines :: nat

definition new_aegis :: aegis where
  "new_aegis = \<lparr>cytokine_command = differentiate, adjudications = 0, condemnations = 0, quarantines = 0\<rparr>"

subsection \<open>The six stages\<close>

definition run_if :: "bool \<Rightarrow> ('c \<Rightarrow> malignum list \<times> 'c) \<Rightarrow> 'c \<Rightarrow> malignum list \<times> 'c" where
  "run_if b scan c = (if b then scan c else ([], c))"

definition log_if :: "malignum list \<Rightarrow> str \<Rightarrow> str \<Rightarrow> str list" where
  "log_if found pre post = (if found = [] then [] else [pre @ nat_str (length found) @ post])"

record scan =
  upstream :: "malignum list"
  final :: "malignum list"
  purified :: str
  chronicle :: "str list"
  cells :: cytokine

text \<open>
  A nourished cell has its \<^verbatim>\<open>interrogate\<close> replaced, so the scans of the three cells for which that
  happens are arguments of the stages.
\<close>

definition run_stages_by ::
  "(vanguard \<Rightarrow> str \<Rightarrow> malignum list \<times> vanguard) \<Rightarrow> (cell \<Rightarrow> str \<Rightarrow> malignum list \<times> cell)
     \<Rightarrow> (cell \<Rightarrow> str \<Rightarrow> malignum list \<times> cell) \<Rightarrow> cytokine \<Rightarrow> str \<Rightarrow> ctx \<Rightarrow> scan" where
  "run_stages_by vi si li cc payload context =
     (let (m1, vp) = run_if (vigilant (vanguard_probe cc))
                       (\<lambda>c. vi c payload) (vanguard_probe cc);
          (m2, tb) = run_if (vigilant (taint_beacon cc))
                       (\<lambda>c. taint_interrogate c payload) (taint_beacon cc);
          pure = purify payload;
          (m3, ss) = si (sanitas_swarm cc) payload;
          (m4, ls) = run_if (vigilant (logos_scythe cc))
                       (\<lambda>c. li c pure) (logos_scythe cc);
          (m5, mc) = run_if (vigilant (mnemosyne_cache cc))
                       (\<lambda>c. mnemosyne_interrogate c pure) (mnemosyne_cache cc);
          (m6, ew) = run_if (vigilant (entropic_watch cc))
                       (\<lambda>c. entropic_interrogate c pure context) (entropic_watch cc);
          up = m1 @ m2 @ m3 @ m4 @ m5 @ m6;
          context' = dset (U ''upstream_maligna'') (CtxMaligna up) context;
          (m7, ff) = run_if (vigilant (finality_forge cc))
                       (\<lambda>c. finality_interrogate c context') (finality_forge cc)
      in \<lparr>upstream = up, final = m7, purified = pure,
          chronicle =
            log_if m1 (designation (vanguard_probe cc) @ U '': '') (U '' Maligna detected'') @
            log_if m2 (designation (taint_beacon cc) @ U '': '') (U '' Maligna detected'') @
            log_if m3 (U ''SanitasSwarm: '') (U '' structural Maligna found, payload purified'') @
            log_if m4 (U ''LogosScythe: '') (U '' deceptive pattern(s) severed'') @
            log_if m5 (U ''MnemosyneCache: '') (U '' antibody resonance(s) confirmed'') @
            log_if m6 (U ''EntropicWatch: '') (U '' entropic anomaly/anomalies flagged'') @
            (if m7 = [] then []
             else [U ''FinalityForge: COMPOUND CONDEMNATION '' @ [0x2014] @ U '' payload nullified'']),
          cells = \<lparr>vanguard_probe = vp, taint_beacon = tb, sanitas_swarm = ss, logos_scythe = ls,
                   mnemosyne_cache = mc, entropic_watch = ew, finality_forge = ff\<rparr>\<rparr>)"

definition run_stages :: "cytokine \<Rightarrow> str \<Rightarrow> ctx \<Rightarrow> scan" where
  "run_stages = run_stages_by vanguard_interrogate sanitas_interrogate logos_interrogate"

subsection \<open>Verdict, memory and storm\<close>

definition worst_depth :: "malignum list \<Rightarrow> corruption_depth" where
  "worst_depth ms = foldl (\<lambda>d m. max d (m_depth m)) VOID ms"

definition settle :: "(bytes \<Rightarrow> str) \<Rightarrow> malignum list \<Rightarrow> corruption_depth \<Rightarrow> aegis \<Rightarrow> aegis" where
  "settle sha ms d a =
     (if GRAVE \<le> d
      then (let cc = foldl (\<lambda>cc m. if GRAVE \<le> m_depth m then relay_to_mnemosyne sha m cc else cc)
                       (cytokine_command a) ms;
                a = a\<lparr>cytokine_command := broadcast_cytokine_storm d cc\<rparr>
            in if CONDEMNED \<le> d then a\<lparr>condemnations := condemnations a + 1\<rparr>
               else a\<lparr>quarantines := quarantines a + 1\<rparr>)
      else a)"

definition yes_no :: "bool \<Rightarrow> str" where
  "yes_no b = (if b then U ''YES'' else U ''NO'')"

definition report_entry :: "nat \<times> malignum \<Rightarrow> str list" where
  "report_entry = (\<lambda>(i, m).
     [U ''  ['' @ pad_left 48 2 (nat_str i) @ U ''] Herald    : '' @ pad_right 32 22 (herald m)
        @ [32, 0x2502] @ U '' Depth: '' @ pad_right 32 10 (depth_name (m_depth m))
        @ [32, 0x2502] @ U '' Veracity: '' @ percent0 (veracity m),
      U ''       Class     : '' @ class_value (m_class m),
      U ''       Sigil     : '' @ sigil m,
      U ''       Fragment  : '' @ py_repr (take 70 (fragment m))])"

definition compose_report :: "str \<Rightarrow> malignum list \<Rightarrow> corruption_depth \<Rightarrow> str list \<Rightarrow> str" where
  "compose_report now ms d entries =
     (if ms = [] then
        U ''AEGIS VERDICT '' @ [0x2014, 32] @ now @ [10]
        @ U ''Sovereignty Status : VOID '' @ [0x2014] @ U '' No Maligna detected.'' @ [10]
        @ U ''Payload cleared for passage through the Sovereign Integrity Mesh.''
      else join [10]
        ([[0x2554, 0x2550, 0x2550] @ U '' AXIOLOGICAL REPORT '' @ [0x2014, 32] @ now
             @ [32, 0x2550, 0x2550, 0x2557],
          U ''  Sovereignty Depth : '' @ depth_name d,
          U ''  Maligna Detected  : '' @ nat_str (length ms),
          U ''  Sanctified        : '' @ yes_no (d < CAUTION),
          U ''  Condemned         : '' @ yes_no (CONDEMNED \<le> d),
          replicate 62 0x2500]
         @ concat (map report_entry (zip [1..<Suc (length ms)] ms))
         @ [replicate 62 0x2500]
         @ (if entries = [] then []
            else U ''  Sentinel Chronicle:'' # map (\<lambda>e. U ''    '' @ [0x2192, 32] @ e) entries)
         @ [[0x255a] @ replicate 61 0x2550 @ [0x255d]]))"

text \<open>
  \<^verbatim>\<open>adjudicate\<close>. An absent or empty context is replaced by a fresh dictionary; a non-empty one is
  the caller's own and keeps the entry \<^verbatim>\<open>upstream_maligna\<close>, whose list the last stage extends.
  The third result is the caller's context after the call.
\<close>

definition adjudicate_by ::
  "(cytokine \<Rightarrow> str \<Rightarrow> ctx \<Rightarrow> scan) \<Rightarrow> (bytes \<Rightarrow> str) \<Rightarrow> str \<Rightarrow> pyfloat \<Rightarrow> aegis \<Rightarrow> str \<Rightarrow> ctx option
     \<Rightarrow> aegis_verdict \<times> aegis \<times> ctx option" where
  "adjudicate_by stages sha now elapsed a payload given =
     (let context = (case given of None \<Rightarrow> [] | Some c \<Rightarrow> c);
          a1 = a\<lparr>adjudications := adjudications a + 1\<rparr>;
          s = stages (cytokine_command a1) payload context;
          all_maligna = upstream s @ final s;
          d = worst_depth all_maligna;
          a2 = settle sha all_maligna d (a1\<lparr>cytokine_command := cells s\<rparr>)
      in (\<lparr>is_sanctified = (d < CAUTION), is_condemned = (CONDEMNED \<le> d), sovereignty_depth = d,
           maligna_found = all_maligna,
           purified_payload = (if purified s \<noteq> payload then Some (purified s) else None),
           axiological_report = compose_report now all_maligna d (chronicle s),
           sentinel_chronicle = chronicle s, adjudication_time = elapsed\<rparr>,
          a2,
          (case given of
             Some (x # xs) \<Rightarrow> Some (dset (U ''upstream_maligna'') (CtxMaligna all_maligna) (x # xs))
           | _ \<Rightarrow> given)))"

definition adjudicate ::
  "(bytes \<Rightarrow> str) \<Rightarrow> str \<Rightarrow> pyfloat \<Rightarrow> aegis \<Rightarrow> str \<Rightarrow> ctx option \<Rightarrow> aegis_verdict \<times> aegis \<times> ctx option" where
  "adjudicate = adjudicate_by run_stages"

record aegis_codex =
  total_adjudications :: nat
  cx_condemnations :: nat
  cx_quarantines :: nat
  antibody_vault_depth :: nat
  condemnation_rate :: str
  threat_encounter_rate :: str
  sanctification_rate :: str

definition codex :: "aegis \<Rightarrow> aegis_codex" where
  "codex a =
     (let total = max 1 (adjudications a);
          c = condemnations a; q = quarantines a;
          rate = (\<lambda>n. percent1 (fdiv (of_nat n) (of_nat total)))
      in \<lparr>total_adjudications = adjudications a, cx_condemnations = c, cx_quarantines = q,
          antibody_vault_depth = vault_depth (mnemosyne_cache (cytokine_command a)),
          condemnation_rate = rate c, threat_encounter_rate = rate (c + q),
          sanctification_rate = rate (total - c - q)\<rparr>)"

text \<open>A session: payloads adjudicated one after the other, each without a context.\<close>

definition adjudicate_step :: "(bytes \<Rightarrow> str) \<Rightarrow> aegis \<Rightarrow> str \<Rightarrow> aegis" where
  "adjudicate_step sha a payload = fst (snd (adjudicate sha [] 0 a payload None))"

definition session :: "(bytes \<Rightarrow> str) \<Rightarrow> aegis \<Rightarrow> str list \<Rightarrow> aegis" where
  "session sha a payloads = foldl (adjudicate_step sha) a payloads"

end
