(* ===== verification/AegisScan.thy ===== *)
theory AegisScan
  imports AegisCells
begin

text \<open>
  What the sentinel cells report: the class, depth and fragment of every alarm, when a cell is
  silent, and what purification removes. Two facts are about defects of the code: a sigil whose
  pattern can never match the lower-cased payload, and cells that fall silent as their acuity,
  which the code compares from above, is raised.
\<close>

section \<open>Alarms of each cell\<close>

lemma hit_fragment: "rx_search pat p = Some hit \<Longrightarrow> str_in (take n hit) p"
  by (rule str_in_takeI) (simp add: str_in_def rx_search_sublist)

lemma vanguard_injection_finding:
  "vanguard_injection p c x = (Some m, c') \<Longrightarrow>
     m_class m = MoralMaligna \<and> GRAVE \<le> m_depth m \<and> str_in (fragment m) p \<and>
     sigil m = snd x \<and> rx_found (fst x) p"
  by (auto simp: vanguard_injection_def Let_def rx_found_def hit_fragment
      split: option.splits prod.splits dest!: alarm_if_Some)

lemma vanguard_harm_finding:
  "vanguard_harm p c x = (Some m, c') \<Longrightarrow>
     m_class m = MoralMaligna \<and> GRAVE \<le> m_depth m \<and> str_in (fragment m) p \<and>
     sigil m = snd x \<and> rx_found (fst x) p"
  by (auto simp: vanguard_harm_def Let_def rx_found_def hit_fragment
      split: option.splits prod.splits dest!: alarm_if_Some)

lemma vanguard_finding:
  assumes "m \<in> set (fst (vanguard_interrogate c payload))"
  shows "m_class m = MoralMaligna \<and> GRAVE \<le> m_depth m \<and> str_in (fragment m) (lower payload) \<and>
    (\<exists>pat. (pat, sigil m) \<in> set (injection_sigils c) \<union> set (harm_sigils c) \<and> rx_found pat (lower payload))"
proof -
  let ?p = "lower payload"
  let ?P = "\<lambda>T m. m_class m = MoralMaligna \<and> GRAVE \<le> m_depth m \<and> str_in (fragment m) ?p \<and>
    (\<exists>pat. (pat, sigil m) \<in> T \<and> rx_found pat ?p)"
  obtain f1 c1 where s1: "sweep (vanguard_injection ?p) c (injection_sigils c) = (f1, c1)" by force
  obtain f2 c2 where s2: "sweep (vanguard_harm ?p) c1 (harm_sigils c1) = (f2, c2)" by force
  have "counts c (f1, c1)" unfolding s1 [symmetric]
    by (rule counts_sweep) (auto simp: vanguard_injection_def Let_def split: option.splits)
  then have h: "harm_sigils c1 = harm_sigils c" by (simp add: counts_def)
  have m1: "?P (set (injection_sigils c)) m" if "m \<in> set f1"
    using that unfolding arg_cong [OF s1, of fst, simplified, symmetric]
    by (rule sweep_P [rotated]) (metis prod.collapse vanguard_injection_finding)
  have m2: "?P (set (harm_sigils c)) m" if "m \<in> set f2"
    using that unfolding arg_cong [OF s2, of fst, simplified, symmetric] h
    by (rule sweep_P [rotated]) (metis prod.collapse vanguard_harm_finding)
  have "m \<in> set f1 \<or> m \<in> set f2"
    using assms by (auto simp: vanguard_interrogate_def s1 s2 Let_def)
  with m1 m2 show ?thesis by blast
qed

lemma first_hit_sub: "first_hit rs p = Some hit \<Longrightarrow> str_in hit p"
  by (induction rs) (auto split: option.splits simp: str_in_def dest: rx_search_sublist)

lemma taint_finding:
  assumes "m \<in> set (fst (taint_interrogate c payload))"
  shows "m_class m = MoralMaligna \<and> GRAVE \<le> m_depth m \<and> str_in (fragment m) (lower payload)"
  using assms unfolding taint_interrogate_def
  by (rule sweep_P [rotated])
    (auto simp: taint_cluster_def Let_def depth_order split: option.splits if_splits
      dest!: alarm_if_Some first_hit_sub simp: str_in_takeI)

lemma sanitas_finding:
  assumes "m \<in> set (fst (sanitas_interrogate c payload))"
  shows "m_class m \<noteq> SystemicMaligna \<and> TRACE \<le> m_depth m \<and> m_depth m \<noteq> CONDEMNED"
  using assms unfolding sanitas_interrogate_def Let_def
  by (rule sweep_P [rotated]) (auto simp: depth_order dest!: alarm_if_Some)

lemma logos_finding:
  assumes "m \<in> set (fst (logos_interrogate c payload))"
  shows "m_class m = NarcissisMaligna \<and> TRACE \<le> m_depth m \<and> m_depth m \<noteq> CONDEMNED"
  using assms unfolding logos_interrogate_def
  by (rule sweep_P [rotated])
    (auto simp: logos_cluster_def Let_def depth_order split: if_splits dest!: alarm_if_Some)

lemma mnemosyne_finding:
  assumes "m \<in> set (fst (mnemosyne_interrogate c payload))"
  shows "\<exists>e. (e, m_class m, m_depth m) \<in> set (memory_engrams c) \<and> str_in e (lower payload)
     \<and> fragment m = e \<and> sigil m = U ''antibody_resonance''"
  using assms unfolding mnemosyne_interrogate_def
  by (rule sweep_P [rotated])
    (auto simp: mnemosyne_engram_def Let_def split: if_splits dest!: alarm_if_Some)

lemma entropic_finding:
  assumes "m \<in> set (fst (entropic_interrogate c payload ctx))"
  shows "m_class m = ParasiticMaligna \<and> TRACE \<le> m_depth m \<and> m_depth m \<noteq> CONDEMNED"
  using assms unfolding entropic_interrogate_def Let_def
  by (rule sweep_P [rotated])
    (auto simp: depth_order repetition_finding_def Let_def
      split: list.splits prod.splits if_splits dest!: alarm_if_Some)

lemma vanguard_terminus:
  assumes m: "m \<in> set (fst (vanguard_interrogate c payload))"
    and t: "U ''absolute_terminus'' \<notin> snd ` set (injection_sigils c)"
    and sg: "sigil m = U ''absolute_terminus''"
  shows "m_depth m = CONDEMNED"
proof -
  let ?p = "lower payload"
  obtain f1 c1 where s1: "sweep (vanguard_injection ?p) c (injection_sigils c) = (f1, c1)" by force
  obtain f2 c2 where s2: "sweep (vanguard_harm ?p) c1 (harm_sigils c1) = (f2, c2)" by force
  have "sigil m \<in> snd ` set (injection_sigils c)" if "m \<in> set f1"
    using that unfolding arg_cong [OF s1, of fst, simplified, symmetric]
    by (rule sweep_P [rotated]) (auto dest!: vanguard_injection_finding intro: rev_image_eqI)
  moreover have "sigil m = U ''absolute_terminus'' \<longrightarrow> m_depth m = CONDEMNED" if "m \<in> set f2"
    using that unfolding arg_cong [OF s2, of fst, simplified, symmetric]
    by (rule sweep_P [rotated])
      (auto simp: vanguard_harm_def Let_def split: option.splits prod.splits dest!: alarm_if_Some)
  moreover have "m \<in> set f1 \<or> m \<in> set f2"
    using m by (auto simp: vanguard_interrogate_def s1 s2 Let_def)
  ultimately show ?thesis using t sg by auto
qed

lemma fst_imageI: "(a, b) \<in> S \<Longrightarrow> a \<in> fst ` S"
  by force

lemma taint_sigil: "m \<in> set (fst (taint_interrogate c payload)) \<Longrightarrow> sigil m \<in> fst ` set semantic_clusters"
  unfolding taint_interrogate_def
  by (erule sweep_P [rotated])
    (auto simp: taint_cluster_def Let_def fst_imageI split: option.splits dest!: alarm_if_Some)

lemma sanitas_sigil:
  "m \<in> set (fst (sanitas_interrogate c payload)) \<Longrightarrow> sigil m \<in> {U ''invisible_disruption'',
     U ''homoglyph_substitution'', U ''encoded_concealment'', U ''markup_intrusion''}"
  unfolding sanitas_interrogate_def Let_def
  by (erule sweep_P [rotated]) (auto dest!: alarm_if_Some)

lemma logos_sigil: "m \<in> set (fst (logos_interrogate c payload)) \<Longrightarrow> sigil m \<in> fst ` set deception_manifold"
  unfolding logos_interrogate_def
  by (erule sweep_P [rotated])
    (auto simp: logos_cluster_def Let_def fst_imageI split: if_splits dest!: alarm_if_Some)

lemma entropic_sigil:
  "m \<in> set (fst (entropic_interrogate c payload ctx)) \<Longrightarrow> sigil m \<in> {U ''token_flood_attack'',
     U ''repetition_loop_attack'', U ''context_stuffing'', U ''entropy_collapse''}"
  unfolding entropic_interrogate_def Let_def
  by (erule sweep_P [rotated])
    (auto simp: repetition_finding_def Let_def split: list.splits prod.splits if_splits dest!: alarm_if_Some)

lemma finality_interrogate_eq:
  "fst (finality_interrogate c context) =
     (if 1 \<le> count_depth CONDEMNED (upstream_of context) \<or> 3 \<le> count_depth GRAVE (upstream_of context)
      then [\<lparr>m_class = SystemicMaligna, m_depth = CONDEMNED, sigil = U ''compound_condemnation'',
             fragment = U ''Compound evidence: '' @ nat_str (count_depth CONDEMNED (upstream_of context))
               @ U '' condemned + '' @ nat_str (count_depth GRAVE (upstream_of context))
               @ U '' grave signals'',
             veracity = fl (99/100), herald = designation c\<rparr>]
      else [])"
  by (simp add: finality_interrogate_def Let_def alarm_if_def raise_malignum_def)

section \<open>Silence\<close>

lemma ensemble_veracity_cap: "ensemble_veracity n \<le> fl (96/100)"
  by (simp add: ensemble_veracity_def)

lemma logos_silent:
  assumes "fl (96/100) < acuity c"
  shows "logos_interrogate c payload = ([], c)"
  unfolding logos_interrogate_def
proof (rule sweep_none)
  fix x assume "x \<in> set deception_manifold"
  show "logos_cluster (lower payload) c x = (None, c)"
    using assms ensemble_veracity_cap
    by (cases x) (auto simp: logos_cluster_def Let_def alarm_if_def dest: order_trans leD)
qed

lemma mnemosyne_silent:
  assumes "fl (87/100) < acuity c"
  shows "mnemosyne_interrogate c payload = ([], c)"
  unfolding mnemosyne_interrogate_def
  by (rule sweep_none) (use assms in \<open>auto simp: mnemosyne_engram_def Let_def alarm_if_def\<close>)

lemma mnemosyne_recalls:
  assumes "acuity c \<le> fl (87/100)" "(e, cls, d) \<in> set (memory_engrams c)" "str_in e (lower payload)"
  shows "\<exists>m \<in> set (fst (mnemosyne_interrogate c payload)). m_class m = cls \<and> m_depth m = d \<and> fragment m = e"
  unfolding mnemosyne_interrogate_def
proof (rule sweep_hit [where I = "\<lambda>c'. acuity c' = acuity c"])
  show "(e, cls, d) \<in> set (memory_engrams c)" by fact
  show "acuity (snd (mnemosyne_engram (lower payload) c' y)) = acuity c" if "acuity c' = acuity c" for c' y
    using that by (cases y) (simp add: mnemosyne_engram_def Let_def alarm_if_def raise_malignum_def)
qed (use assms in \<open>auto simp: mnemosyne_engram_def Let_def alarm_if_def raise_malignum_def\<close>)

section \<open>A pattern that starts with an upper-case literal\<close>

lemma eat_prefix: "Some st' = eat xs st \<Longrightarrow> prefix xs (snd st)"
  by (induction xs st rule: eat.induct) (auto split: if_splits)

lemma match_len_lit:
  assumes "match_len (RSeq (RLit l) r) st \<noteq> None"
  shows "set (U l) \<subseteq> set (snd st)"
proof -
  have "opt_list (eat (U l) st) \<noteq> []"
    using assms by (auto simp: match_len_def split: list.splits)
  then obtain st' where "Some st' = eat (U l) st" by (auto simp: opt_list_def split: option.splits)
  then have "prefix (U l) (snd st)" by (rule eat_prefix)
  then show ?thesis by (rule set_mono_prefix)
qed

lemma search_from_lit:
  "search_from (RSeq (RLit l) r) p s \<noteq> None \<Longrightarrow> set (U l) \<subseteq> set s"
proof (induction s arbitrary: p)
  case Nil
  then show ?case using match_len_lit [of l r "(p, [])"] by auto
next
  case (Cons c cs)
  show ?case
  proof (cases "match_len (RSeq (RLit l) r) (p, c # cs)")
    case None
    with Cons show ?thesis by auto
  next
    case (Some n)
    then show ?thesis using match_len_lit [of l r "(p, c # cs)"] by simp
  qed
qed

lemma lower_no_upper: "65 \<le> c \<Longrightarrow> c \<le> 90 \<Longrightarrow> c \<notin> set (lower s)"
  using set_lower_fixed [of c s] by (auto simp: lower_cp_def)

lemma template_never_found:
  "\<not> rx_found (cat [RLit ''[INST]'', RRep False 0 None RAny, RLit ''override'']) (lower s)"
proof
  assume "rx_found (cat [RLit ''[INST]'', RRep False 0 None RAny, RLit ''override'']) (lower s)"
  then have "set (U ''[INST]'') \<subseteq> set (lower s)"
    by (simp only: rx_found_def rx_search_def cat.simps search_from_lit not_False_eq_True)
  moreover have "73 \<in> set (U ''[INST]'')" by (simp add: U_def)
  ultimately show False using lower_no_upper [of 73 s] by auto
qed

section \<open>Purification\<close>

definition invisible :: "nat \<Rightarrow> bool" where
  "invisible c \<longleftrightarrow> c \<in> {0x200b, 0x200c, 0x200d, 0x2060, 0xfeff, 0xad, 0x34f, 0x1160, 0x17b4, 0x17b5,
     0x180e, 0x2028, 0x2029}"

lemma one_code_point: "citem_has (CRange a a) c \<longleftrightarrow> c = a"
  by auto

lemma invisible_class: "set_has False [CRange 8203 8203, CRange 8204 8204, CRange 8205 8205,
     CRange 8288 8288, CRange 65279 65279, CRange 173 173, CRange 847 847, CRange 4448 4448,
     CRange 6068 6068, CRange 6069 6069, CRange 6158 6158, CRange 8232 8232, CRange 8233 8233] = invisible"
  by (rule ext) (simp add: set_has_def one_code_point invisible_def del: citem_has.simps)

lemma invisible_removed: "rx_sub invisible_disruption [] s = filter (\<lambda>c. \<not> invisible c) s"
proof -
  have "invisible_disruption = plus1 (RSet False [CRange 8203 8203, CRange 8204 8204, CRange 8205 8205,
     CRange 8288 8288, CRange 65279 65279, CRange 173 173, CRange 847 847, CRange 4448 4448,
     CRange 6068 6068, CRange 6069 6069, CRange 6158 6158, CRange 8232 8232, CRange 8233 8233])"
    by (simp add: invisible_disruption_def)
  then have "rx_sub invisible_disruption [] s = filter (\<lambda>c. \<not> set_has False
      [CRange 8203 8203, CRange 8204 8204, CRange 8205 8205,
     CRange 8288 8288, CRange 65279 65279, CRange 173 173, CRange 847 847, CRange 4448 4448,
     CRange 6068 6068, CRange 6069 6069, CRange 6158 6158, CRange 8232 8232, CRange 8233 8233] c) s"
    using rx_sub_plus_set by (rule ssubst)
  then show ?thesis unfolding invisible_class .
qed

lemma purify_chars: "set (purify s) \<subseteq> {32} \<union> set (U ''[EXPUNGED]'') \<union> {c \<in> set s. \<not> invisible c}"
proof -
  let ?a = "rx_sub invisible_disruption [] s"
  let ?b = "rx_sub markup_intrusion (U ''[EXPUNGED]'') ?a"
  let ?c = "rx_sub whitespace_pattern [32] ?b"
  let ?N = "{c \<in> set s. \<not> invisible c}"
  have a: "set ?a \<subseteq> ?N"
    by (auto simp: invisible_removed)
  have b: "set ?b \<subseteq> set (U ''[EXPUNGED]'') \<union> ?N"
    using rx_sub_chars [of markup_intrusion "U ''[EXPUNGED]''" ?a] a by blast
  have "set ?c \<subseteq> {32} \<union> (set (U ''[EXPUNGED]'') \<union> ?N)"
    using rx_sub_chars [of whitespace_pattern "[32]" ?b] b by (simp add: subset_iff) blast
  then have "set (strip ?c) \<subseteq> {32} \<union> (set (U ''[EXPUNGED]'') \<union> ?N)"
    by (rule subset_trans [OF set_strip_subset])
  then show ?thesis by (simp only: purify_def Let_def Un_assoc)
qed

lemma ci_variants_60: "60 \<in> set (ci_variants c) \<longleftrightarrow> c = 60"
  by (auto simp: ci_variants_def)

lemma markup_needs_bracket: "c \<noteq> 60 \<Longrightarrow> match_len markup_intrusion (p, c # cs) = None"
  by (simp add: markup_intrusion_def match_len_def U_def ci_variants_60 opt_list_def)

lemma sub_from_markup: "60 \<notin> set s \<Longrightarrow> sub_from markup_intrusion t k p s = s"
  by (induction markup_intrusion t k p s rule: sub_from.induct) (simp_all add: markup_needs_bracket)

lemma no_markup: "60 \<notin> set s \<Longrightarrow> rx_sub markup_intrusion t s = s"
  by (simp add: rx_sub_def sub_from_markup)

lemma rep_exact_numeral:
  "rep_exact f (numeral k) st = concat (map (rep_exact f (pred_numeral k)) (f st))"
  by (simp add: numeral_eq_Suc)

fun no_blank_pair :: "str \<Rightarrow> bool" where
  "no_blank_pair (c # d # cs) \<longleftrightarrow> \<not> (c \<in> {9, 32} \<and> d \<in> {9, 32}) \<and> no_blank_pair (d # cs)"
| "no_blank_pair _ = True"

lemma whitespace_needs_pair: "no_blank_pair (c # cs) \<Longrightarrow> match_len whitespace_pattern (p, c # cs) = None"
  by (cases cs) (auto simp: whitespace_pattern_def match_len_def rep_exact_numeral set_has_def)

lemma no_blank_pair_tl: "no_blank_pair (c # cs) \<Longrightarrow> no_blank_pair cs"
  by (cases cs) simp_all

lemma sub_from_whitespace: "no_blank_pair s \<Longrightarrow> sub_from whitespace_pattern t k p s = s"
  by (induction whitespace_pattern t k p s rule: sub_from.induct)
    (auto simp: whitespace_needs_pair dest: no_blank_pair_tl)

lemma no_wide_blanks: "no_blank_pair s \<Longrightarrow> rx_sub whitespace_pattern t s = s"
  by (simp add: rx_sub_def sub_from_whitespace)

lemma hd_drop_space: "dropWhile p s \<noteq> [] \<Longrightarrow> \<not> p (hd (dropWhile p s))"
  by (induction s) auto

lemma strip_edges:
  assumes "strip s \<noteq> []"
  shows "\<not> is_space (hd (strip s)) \<and> \<not> is_space (last (strip s))"
proof -
  let ?t = "dropWhile is_space s"
  let ?r = "dropWhile is_space (rev ?t)"
  have s: "strip s = rev ?r" by (simp add: strip_def rstrip_by_def lstrip_def)
  with assms have r: "?r \<noteq> []" by simp
  then have "\<not> is_space (hd ?r)" by (rule hd_drop_space)
  then have 1: "\<not> is_space (last (strip s))" using r by (simp add: s last_rev)
  have t: "?t \<noteq> []" using r by (metis dropWhile.simps(1) rev.simps(1))
  then have "\<not> is_space (hd ?t)" by (rule hd_drop_space)
  moreover have "prefix (strip s) ?t"
    unfolding s by (metis rev_rev_ident suffix_dropWhile suffix_to_prefix)
  then have "hd (strip s) = hd ?t" using assms by (auto simp: prefix_def)
  ultimately show ?thesis using 1 by simp
qed

end
