(* ===== verification/ShieldPaths.thy ===== *)
theory ShieldPaths
  imports PyPrelude
begin

text \<open>
  Paths and scopes of the private shield: \<^verbatim>\<open>private_shield/paths.py\<close> (canonicalisation of
  resource paths and scope patterns) and the matcher \<^verbatim>\<open>_scope_matches\<close> of
  \<^verbatim>\<open>private_shield/policy.py\<close> with the standard library's \<^verbatim>\<open>fnmatchcase\<close>. The lemmas show
  that canonical paths are fixed points of canonicalisation made of safe segments, and that the
  dynamic program of the matcher decides the recursive meaning of a pattern.
\<close>

section \<open>Canonicalisation\<close>

datatype path_error = NulByte | AbsolutePath | DrivePath | ParentTraversal | ColonSyntax
  | GlobMeta | TrailingDotSpace | ReservedName

definition windows_reserved :: "str list" where
  "windows_reserved = [U ''CON'', U ''PRN'', U ''AUX'', U ''NUL''] @
     map (\<lambda>i. U ''COM'' @ nat_str i) [1..<10] @ map (\<lambda>i. U ''LPT'' @ nat_str i) [1..<10]"

definition drive_path :: "str \<Rightarrow> bool" where
  "drive_path v = (case v of a # b # _ \<Rightarrow> is_alpha a \<and> b = 58 | _ \<Rightarrow> False)"

definition segment_error :: "bool \<Rightarrow> str \<Rightarrow> path_error option" where
  "segment_error allow_glob segment =
     (if segment = [46, 46] then Some ParentTraversal
      else if 58 \<in> set segment then Some ColonSyntax
      else if \<not> allow_glob \<and> list_ex (\<lambda>c. c \<in> set segment) [42, 63, 91] then Some GlobMeta
      else if endswith segment [46] \<or> endswith segment [32] then Some TrailingDotSpace
      else if upper (takeWhile (\<lambda>c. c \<noteq> 46) segment) \<in> set windows_reserved then Some ReservedName
      else None)"

fun canon_segments :: "bool \<Rightarrow> str list \<Rightarrow> path_error + str list" where
  "canon_segments g [] = Inr []"
| "canon_segments g (segment # rest) =
     (if segment = [] \<or> segment = [46] then canon_segments g rest
      else (case segment_error g segment of
              Some e \<Rightarrow> Inl e
            | None \<Rightarrow> (case canon_segments g rest of Inl e \<Rightarrow> Inl e | Inr ss \<Rightarrow> Inr (segment # ss))))"

definition canonicalize :: "bool \<Rightarrow> str \<Rightarrow> path_error + str" where
  "canonicalize allow_glob raw_value =
     (if 0 \<in> set raw_value then Inl NulByte
      else
        (let v = replace_char 92 47 raw_value
         in if startswith v [47] then Inl AbsolutePath
            else if drive_path v then Inl DrivePath
            else (case canon_segments allow_glob (split_on 47 v) of
                    Inl e \<Rightarrow> Inl e
                  | Inr ss \<Rightarrow> Inr (join [47] ss))))"

definition canonicalize_resource_path :: "str \<Rightarrow> path_error + str" where
  "canonicalize_resource_path raw_path = canonicalize False raw_path"

definition canonicalize_scope_pattern :: "str \<Rightarrow> path_error + str" where
  "canonicalize_scope_pattern raw_scope =
     (if raw_scope = [42] then Inr [42] else canonicalize True raw_scope)"

text \<open>The segments of a canonical path; the empty path has none.\<close>

definition segments :: "str \<Rightarrow> str list" where
  "segments p = (if p = [] then [] else split_on 47 p)"

definition safe_segment :: "bool \<Rightarrow> str \<Rightarrow> bool" where
  "safe_segment g s \<longleftrightarrow> s \<noteq> [] \<and> s \<noteq> [46] \<and> segment_error g s = None"

lemma canon_segments_safe:
  "canon_segments g segs = Inr ss \<Longrightarrow> s \<in> set ss \<Longrightarrow> safe_segment g s \<and> s \<in> set segs"
  by (induction segs arbitrary: ss)
    (auto simp: safe_segment_def split: if_splits option.splits sum.splits)

lemma canon_segments_id: "\<forall>s \<in> set ss. safe_segment g s \<Longrightarrow> canon_segments g ss = Inr ss"
  by (induction ss) (auto simp: safe_segment_def)

lemma join_sep_Nil: "join [d] ss = [] \<longleftrightarrow> ss = [] \<or> ss = [[]]"
  by (induction ss rule: induct_list012) auto

lemma set_join: "set (join sep ss) \<subseteq> set sep \<union> \<Union> (set ` set ss)"
  by (induction sep ss rule: join.induct) auto

lemma hd_join: "ss \<noteq> [] \<Longrightarrow> hd ss \<noteq> [] \<Longrightarrow> hd (join sep ss) = hd (hd ss)"
  by (induction ss rule: induct_list012) auto

lemma replace_char_id: "a \<notin> set s \<Longrightarrow> replace_char a b s = s"
  by (auto simp: replace_char_def intro: map_idI)

lemma replace_char_not: "a \<noteq> b \<Longrightarrow> a \<notin> set (replace_char a b s)"
  by (auto simp: replace_char_def split: if_splits)

lemma set_split_on: "p \<in> set (split_on d s) \<Longrightarrow> set p \<subseteq> set s"
proof (induction s arbitrary: p)
  case (Cons c cs)
  show ?case
  proof (cases "split_on d cs")
    case Nil
    then show ?thesis by simp
  next
    case (Cons q qs)
    have q: "set q \<subseteq> set cs" and qs: "\<And>r. r \<in> set qs \<Longrightarrow> set r \<subseteq> set cs"
      using Cons.IH Cons by simp_all
    from Cons Cons.prems have "p = [] \<or> p = c # q \<or> p = q \<or> p \<in> set qs"
      by (auto split: if_splits)
    then show ?thesis using q qs by auto
  qed
qed simp

text \<open>What canonicalisation returns: the join of safe segments without separators.\<close>

lemma canonicalize_shape:
  assumes "canonicalize g p = Inr q"
  obtains ss where "q = join [47] ss" "\<forall>s \<in> set ss. safe_segment g s \<and> 47 \<notin> set s \<and> 92 \<notin> set s \<and> 0 \<notin> set s"
proof -
  let ?v = "replace_char 92 47 p"
  from assms obtain ss where ss: "canon_segments g (split_on 47 ?v) = Inr ss" "q = join [47] ss" and z: "0 \<notin> set p"
    by (auto simp: canonicalize_def Let_def split: if_splits sum.splits)
  have "safe_segment g s \<and> 47 \<notin> set s \<and> 92 \<notin> set s \<and> 0 \<notin> set s" if "s \<in> set ss" for s
  proof -
    from canon_segments_safe [OF ss(1) that] have s: "safe_segment g s" "s \<in> set (split_on 47 ?v)" by auto
    from z have "0 \<notin> set ?v" by (auto simp: replace_char_def split: if_splits)
    moreover have "92 \<notin> set ?v" by (rule replace_char_not) simp
    ultimately show ?thesis
      using s split_on_no_sep [OF s(2)] set_split_on [OF s(2)] by auto
  qed
  then show thesis using ss(2) that by blast
qed

lemma segments_join:
  assumes "\<forall>s \<in> set ss. s \<noteq> [] \<and> 47 \<notin> set s"
  shows "segments (join [47] ss) = ss"
proof (cases ss)
  case (Cons a list)
  then have "join [47] ss \<noteq> []" using assms by (auto simp: join_sep_Nil)
  then show ?thesis using Cons assms by (simp add: segments_def split_on_join)
qed (simp add: segments_def)

lemma safe_segment_no_colon: "safe_segment g s \<Longrightarrow> 58 \<notin> set s"
  by (auto simp: safe_segment_def segment_error_def split: if_splits)

lemma canonicalize_fixed:
  assumes "canonicalize g p = Inr q"
  shows "canonicalize g q = Inr q"
proof -
  from assms obtain ss where q: "q = join [47] ss"
    and ss: "\<forall>s \<in> set ss. safe_segment g s \<and> 47 \<notin> set s \<and> 92 \<notin> set s \<and> 0 \<notin> set s"
    by (rule canonicalize_shape)
  have "\<forall>c \<in> set q. c = 47 \<or> (\<exists>s \<in> set ss. c \<in> set s)" using set_join [of "[47]" ss] q by auto
  then have no: "0 \<notin> set q" "92 \<notin> set q" "58 \<notin> set q"
    using ss safe_segment_no_colon by fastforce+
  have hd: "\<not> startswith q [47]"
  proof (cases ss)
    case (Cons s rest)
    then have s: "s \<noteq> []" "47 \<notin> set s" using ss by (auto simp: safe_segment_def)
    then have "hd q = hd s" using Cons hd_join [of ss "[47]"] q by simp
    then show ?thesis using s by (cases q; cases s) (auto simp: startswith_def)
  qed (simp add: q startswith_def)
  have "\<not> drive_path q" using no(3) by (auto simp: drive_path_def split: list.splits)
  moreover have "canon_segments g (split_on 47 q) = Inr ss"
  proof (cases ss)
    case (Cons s rest)
    then have "split_on 47 q = ss" using ss q by (simp add: split_on_join)
    then show ?thesis using ss by (simp add: canon_segments_id)
  qed (simp add: q)
  ultimately show ?thesis using no hd q by (simp add: canonicalize_def replace_char_id)
qed

section \<open>\<^verbatim>\<open>fnmatchcase\<close>\<close>

text \<open>
  The standard library translates a shell pattern to a regular expression: \<^verbatim>\<open>*\<close> is any text, \<^verbatim>\<open>?\<close>
  any character, \<^verbatim>\<open>[...]\<close> and \<^verbatim>\<open>[!...]\<close> a class of characters and ranges (an empty range matches
  nothing; a bracket that is never closed is literal).
\<close>

datatype gtok = GLit nat | GAny | GStar | GClass bool "(nat \<times> nat) list"

fun class_items :: "str \<Rightarrow> (nat \<times> nat) list" where
  "class_items [] = []"
| "class_items (a # r) =
     (case r of d # b # r' \<Rightarrow> (if d = 45 then (a, b) # class_items r' else (a, a) # class_items r)
      | _ \<Rightarrow> (a, a) # class_items r)"

definition class_split :: "str \<Rightarrow> (str \<times> str) option" where
  \<comment> \<open>the text after an opening bracket, split at its closing one\<close>
  "class_split s =
     (let j = (if startswith s [33] then 1 else 0);
          j = (if startswith (drop j s) [93] then j + 1 else j);
          k = j + length (takeWhile (\<lambda>c. c \<noteq> 93) (drop j s))
      in if k < length s then Some (take k s, drop (k + 1) s) else None)"

definition class_token :: "str \<Rightarrow> gtok" where
  "class_token stuff =
     (if startswith stuff [33] then GClass True (class_items (tl stuff)) else GClass False (class_items stuff))"

lemma class_split_length: "class_split s = Some (a, r) \<Longrightarrow> length r < length s"
  by (auto simp: class_split_def Let_def split: if_splits)

function glob_tokens :: "str \<Rightarrow> gtok list" where
  "glob_tokens [] = []"
| "glob_tokens (c # s) =
     (if c = 42 then GStar # glob_tokens s
      else if c = 63 then GAny # glob_tokens s
      else if c = 91 then
        (case class_split s of None \<Rightarrow> GLit 91 # glob_tokens s
         | Some (stuff, rest) \<Rightarrow> class_token stuff # glob_tokens rest)
      else GLit c # glob_tokens s)"
  by pat_completeness auto
termination
  by (relation "measure length") (auto dest: class_split_length)

definition class_has :: "bool \<Rightarrow> (nat \<times> nat) list \<Rightarrow> nat \<Rightarrow> bool" where
  "class_has neg items c = (list_ex (\<lambda>(a, b). a \<le> c \<and> c \<le> b) items \<noteq> neg)"

fun glob_match :: "gtok list \<Rightarrow> str \<Rightarrow> bool" where
  "glob_match [] s = (s = [])"
| "glob_match (GStar # ts) [] = glob_match ts []"
| "glob_match (GStar # ts) (c # s) = (glob_match ts (c # s) \<or> glob_match (GStar # ts) s)"
| "glob_match (GAny # ts) [] = False"
| "glob_match (GAny # ts) (c # s) = glob_match ts s"
| "glob_match (GLit x # ts) [] = False"
| "glob_match (GLit x # ts) (c # s) = (c = x \<and> glob_match ts s)"
| "glob_match (GClass n is # ts) [] = False"
| "glob_match (GClass n is # ts) (c # s) = (class_has n is c \<and> glob_match ts s)"

definition fnmatchcase :: "str \<Rightarrow> str \<Rightarrow> bool" where
  "fnmatchcase name pat = glob_match (glob_tokens pat) name"

section \<open>\<^verbatim>\<open>_scope_matches\<close>\<close>

text \<open>
  One row of the dynamic program per pattern segment: entry \<open>i\<close> says whether the patterns so far
  match the first \<open>i\<close> parts of the candidate.
\<close>

fun any_row :: "bool \<Rightarrow> bool list \<Rightarrow> bool list" where
  "any_row acc [] = []"
| "any_row acc (m # ms) = (m \<or> acc) # any_row (m \<or> acc) ms"

definition scope_row :: "str list \<Rightarrow> bool list \<Rightarrow> str \<Rightarrow> bool list" where
  "scope_row parts matched pattern =
     (if pattern = [42, 42] then any_row False matched
      else False # map (\<lambda>(m, part). m \<and> fnmatchcase part pattern) (zip matched parts))"

definition scope_matches :: "str \<Rightarrow> str \<Rightarrow> bool" where
  "scope_matches candidate scope =
     (if scope = [42] then True
      else
        (let parts = segments candidate; patterns = segments scope;
             matched = True # replicate (length parts) False
         in last (foldl (scope_row parts) matched patterns)))"

text \<open>What a scope means: a segment \<^verbatim>\<open>**\<close> stands for any number of segments, any other segment for
  one that it matches.\<close>

fun segs_match :: "str list \<Rightarrow> str list \<Rightarrow> bool" where
  "segs_match [] xs = (xs = [])"
| "segs_match (p # ps) [] = (p = [42, 42] \<and> segs_match ps [])"
| "segs_match (p # ps) (x # xs) =
     (if p = [42, 42] then segs_match ps (x # xs) \<or> segs_match (p # ps) xs
      else fnmatchcase x p \<and> segs_match ps xs)"

lemma segs_match_star: "segs_match ([42, 42] # ps) xs \<longleftrightarrow> (\<exists>ys zs. xs = ys @ zs \<and> segs_match ps zs)"
proof (induction xs)
  case (Cons x xs)
  then show ?case by (auto simp: Cons_eq_append_conv)
qed simp

lemma segs_match_append: "segs_match (ps @ qs) xs \<longleftrightarrow> (\<exists>ys zs. xs = ys @ zs \<and> segs_match ps ys \<and> segs_match qs zs)"
proof (induction ps arbitrary: xs)
  case (Cons p ps)
  show ?case
  proof (cases "p = [42, 42]")
    case True
    then show ?thesis by (simp add: segs_match_star Cons) (metis append.assoc)
  next
    case False
    have one: "segs_match (p # rs) xs \<longleftrightarrow> (\<exists>x xs'. xs = x # xs' \<and> fnmatchcase x p \<and> segs_match rs xs')" for rs xs
      using False by (cases xs) auto
    show ?thesis unfolding append_Cons one Cons by (metis append_Cons)
  qed
qed simp

lemma segs_match_snoc_star: "segs_match (ps @ [[42, 42]]) xs \<longleftrightarrow> (\<exists>i \<le> length xs. segs_match ps (take i xs))"
  by (simp add: segs_match_append segs_match_star)
    (metis append_eq_conv_conj append_take_drop_id length_append le_add1)

lemma segs_match_snoc:
  "p \<noteq> [42, 42] \<Longrightarrow> segs_match (ps @ [p]) xs \<longleftrightarrow> xs \<noteq> [] \<and> segs_match ps (butlast xs) \<and> fnmatchcase (last xs) p"
proof -
  assume p: "p \<noteq> [42, 42]"
  then have "segs_match [p] zs \<longleftrightarrow> (\<exists>z. zs = [z] \<and> fnmatchcase z p)" for zs
    by (cases zs) auto
  then show ?thesis by (auto simp: segs_match_append) (metis append_butlast_last_id)
qed

definition row_ok :: "str list \<Rightarrow> str list \<Rightarrow> bool list \<Rightarrow> bool" where
  "row_ok parts ps row \<longleftrightarrow> length row = Suc (length parts) \<and>
     (\<forall>i \<le> length parts. row ! i = segs_match ps (take i parts))"

lemma any_row_length [simp]: "length (any_row acc ms) = length ms"
  by (induction ms arbitrary: acc) auto

lemma any_row_nth: "i < length ms \<Longrightarrow> any_row acc ms ! i \<longleftrightarrow> acc \<or> (\<exists>j \<le> i. ms ! j)"
proof (induction ms arbitrary: acc i)
  case (Cons m ms)
  show ?case
  proof (cases i)
    case (Suc k)
    then have "any_row acc (m # ms) ! i \<longleftrightarrow> (m \<or> acc) \<or> (\<exists>j \<le> k. ms ! j)" using Cons by simp
    also have "\<dots> \<longleftrightarrow> acc \<or> (\<exists>j \<le> i. (m # ms) ! j)"
      unfolding Suc
      by (auto simp: less_Suc_eq_le nth_Cons' intro: exI [of _ 0])
    finally show ?thesis .
  qed auto
qed simp

lemma row_ok_init: "row_ok parts [] (True # replicate (length parts) False)"
  by (auto simp: row_ok_def nth_Cons')

lemma row_ok_step:
  assumes "row_ok parts ps row"
  shows "row_ok parts (ps @ [p]) (scope_row parts row p)"
proof (cases "p = [42, 42]")
  case True
  have "any_row False row ! i \<longleftrightarrow> segs_match (ps @ [p]) (take i parts)" if "i \<le> length parts" for i
    using that assms any_row_nth [of i row False]
    by (auto simp: True row_ok_def segs_match_snoc_star min_def)
  then show ?thesis using assms True by (simp add: row_ok_def scope_row_def)
next
  case False
  have "scope_row parts row p ! i \<longleftrightarrow> segs_match (ps @ [p]) (take i parts)" if "i \<le> length parts" for i
    using that assms False
    by (cases i) (auto simp: scope_row_def row_ok_def segs_match_snoc butlast_take take_Suc_conv_app_nth)
  then show ?thesis using assms False by (simp add: row_ok_def scope_row_def)
qed

lemma row_ok_foldl: "row_ok parts ps row \<Longrightarrow> row_ok parts (ps @ qs) (foldl (scope_row parts) row qs)"
proof (induction qs arbitrary: ps row)
  case (Cons q qs)
  from Cons.IH [OF row_ok_step [OF Cons.prems, of q]] show ?case by simp
qed simp

lemma scope_matches_segs:
  "scope_matches candidate scope \<longleftrightarrow> scope = [42] \<or> segs_match (segments scope) (segments candidate)"
proof -
  let ?parts = "segments candidate"
  let ?row = "foldl (scope_row ?parts) (True # replicate (length ?parts) False) (segments scope)"
  have "row_ok ?parts (segments scope) ?row"
    using row_ok_foldl [OF row_ok_init, of ?parts "segments scope"] by simp
  then have r: "length ?row = Suc (length ?parts)" "?row ! length ?parts = segs_match (segments scope) ?parts"
    by (simp_all add: row_ok_def)
  then have "?row \<noteq> []" by force
  then have "last ?row = segs_match (segments scope) ?parts"
    using r by (metis diff_Suc_1 last_conv_nth)
  then show ?thesis by (simp add: scope_matches_def Let_def)
qed

end
