(* ===== verification/ShieldPolicy.thy ===== *)
theory ShieldPolicy
  imports PyFloat ShieldPaths
begin

text \<open>
  The reference monitor of the private shield: \<^verbatim>\<open>private_shield/models.py\<close> and
  \<^verbatim>\<open>PolicyEngine\<close> of \<^verbatim>\<open>private_shield/policy.py\<close>. Instants are integers; the frozen sets of
  the source are sets. \<open>permits\<close> states the monitor's constitution, and the lemmas show that
  \<^verbatim>\<open>evaluate\<close> allows exactly what it permits and how a decision moves with risk, approval and time.
\<close>

section \<open>Models\<close>

datatype decision = ALLOW | DENY | REQUIRE_APPROVAL

datatype model_error = RiskOutOfRange str | MaxRiskOutOfRange | ExpiryNotAfterIssue

record risk_vector =
  secret :: pyfloat
  network :: pyfloat
  source :: pyfloat
  execution :: pyfloat
  production :: pyfloat

definition unit_interval :: "pyfloat \<Rightarrow> bool" where
  "unit_interval x \<longleftrightarrow> 0 \<le> x \<and> x \<le> 1"

definition risk_vector_init :: "risk_vector \<Rightarrow> model_error + risk_vector" where
  "risk_vector_init r =
     (case filter (\<lambda>(name, v). \<not> unit_interval v)
        [(U ''secret'', secret r), (U ''network'', network r), (U ''source'', source r),
         (U ''execution'', execution r), (U ''production'', production r)] of
        [] \<Rightarrow> Inr r
      | (name, v) # _ \<Rightarrow> Inl (RiskOutOfRange name))"

definition no_risk :: risk_vector where
  "no_risk = \<lparr>secret = 0, network = 0, source = 0, execution = 0, production = 0\<rparr>"

definition maximum :: "risk_vector \<Rightarrow> pyfloat" where
  "maximum r = max (secret r) (max (network r) (max (source r) (max (execution r) (production r))))"

record capability_grant =
  capability_id :: str
  g_subject :: str
  g_resource :: str
  g_actions :: "str set"
  g_scopes :: "str list"
  g_environments :: "str set"
  g_network_destinations :: "str set"
  g_egress_destinations :: "str set"
  g_exportable_classifications :: "str set"
  issued_at :: int
  expires_at :: int
  max_risk :: pyfloat
  requires_human_approval :: bool

definition grant_init :: "capability_grant \<Rightarrow> model_error + capability_grant" where
  "grant_init g =
     (if \<not> unit_interval (max_risk g) then Inl MaxRiskOutOfRange
      else if expires_at g \<le> issued_at g then Inl ExpiryNotAfterIssue
      else Inr g)"

definition is_active :: "capability_grant \<Rightarrow> int \<Rightarrow> bool" where
  "is_active g now \<longleftrightarrow> issued_at g \<le> now \<and> now < expires_at g"

record project_policy =
  p_resource :: str
  p_actions :: "str set"
  p_scopes :: "str list"
  p_environments :: "str set"
  p_network_destinations :: "str set"
  p_egress_destinations :: "str set"
  p_exportable_classifications :: "str set"

record action_request =
  r_subject :: str
  r_action :: str
  r_resource :: str
  r_path :: str
  r_environment :: str
  network_destination :: "str option"
  output_destination :: "str option"
  data_classification :: "str option"
  tool_subject :: "str option"

record policy_decision =
  pd_decision :: decision
  pd_reasons :: "str list"
  pd_capability_ids :: "str list"
  pd_risk :: pyfloat

definition allowed :: "policy_decision \<Rightarrow> bool" where
  "allowed d \<longleftrightarrow> pd_decision d = ALLOW"

section \<open>The policy engine\<close>

definition scope_allows :: "str \<Rightarrow> str list \<Rightarrow> bool" where
  "scope_allows path scopes =
     (case canonicalize_resource_path path of
        Inl e \<Rightarrow> False
      | Inr candidate \<Rightarrow>
          (case map_result canonicalize_scope_pattern scopes of
             Inl e \<Rightarrow> False
           | Inr normalized \<Rightarrow> list_ex (scope_matches candidate) normalized))"

definition destination_allows :: "str option \<Rightarrow> str set \<Rightarrow> bool" where
  "destination_allows destination permitted = (case destination of None \<Rightarrow> True | Some d \<Rightarrow> d \<in> permitted)"

definition check_flow :: "action_request \<Rightarrow> str set \<Rightarrow> str set \<Rightarrow> str \<Rightarrow> str option" where
  "check_flow request egress exportable label =
     (case output_destination request of
        None \<Rightarrow> None
      | Some dest \<Rightarrow>
          (if dest \<notin> egress then Some (label @ U ''_egress_destination_denied'')
           else (case data_classification request of
                   None \<Rightarrow> Some (label @ U ''_egress_requires_classification'')
                 | Some cls \<Rightarrow>
                     (if cls \<notin> exportable then Some (label @ U ''_classification_not_exportable'')
                      else None))))"

definition grant_flow_allows :: "action_request \<Rightarrow> capability_grant \<Rightarrow> bool" where
  "grant_flow_allows request g \<longleftrightarrow>
     check_flow request (g_egress_destinations g) (g_exportable_classifications g) (U ''grant'') = None"

definition grant_matches :: "action_request \<Rightarrow> str \<Rightarrow> pyfloat \<Rightarrow> int \<Rightarrow> capability_grant \<Rightarrow> bool" where
  "grant_matches request subject risk now g =
     (if g_subject g \<noteq> subject then False
      else if g_resource g \<noteq> r_resource request then False
      else if r_action request \<notin> g_actions g then False
      else if r_environment request \<notin> g_environments g then False
      else if network_destination request \<noteq> None \<and>
              the (network_destination request) \<notin> g_network_destinations g then False
      else if \<not> scope_allows (r_path request) (g_scopes g) then False
      else if \<not> is_active g now then False
      else if max_risk g < risk then False
      else True)"

definition matching_grants ::
  "action_request \<Rightarrow> capability_grant list \<Rightarrow> str \<Rightarrow> pyfloat \<Rightarrow> int \<Rightarrow> capability_grant list" where
  "matching_grants request grants subject risk now = filter (grant_matches request subject risk now) grants"

definition deny :: "str \<Rightarrow> risk_vector \<Rightarrow> policy_decision" where
  "deny reason risk = \<lparr>pd_decision = DENY, pd_reasons = [reason], pd_capability_ids = [], pd_risk = maximum risk\<rparr>"

definition decide_selected :: "capability_grant list \<Rightarrow> bool \<Rightarrow> risk_vector \<Rightarrow> policy_decision" where
  "decide_selected selected human_approved risk =
     (if list_ex requires_human_approval selected \<and> \<not> human_approved
      then \<lparr>pd_decision = REQUIRE_APPROVAL, pd_reasons = [U ''human_approval_required''],
            pd_capability_ids = map capability_id selected, pd_risk = maximum risk\<rparr>
      else \<lparr>pd_decision = ALLOW, pd_reasons = [U ''all_security_predicates_satisfied''],
            pd_capability_ids = map capability_id selected, pd_risk = maximum risk\<rparr>)"

definition evaluate ::
  "action_request \<Rightarrow> bool \<Rightarrow> project_policy \<Rightarrow> capability_grant list \<Rightarrow> risk_vector option
     \<Rightarrow> capability_grant list \<Rightarrow> bool \<Rightarrow> int \<Rightarrow> policy_decision" where
  "evaluate request identity_verified pp agent_grants risk_opt tool_grants human_approved now =
     (let risk = (case risk_opt of None \<Rightarrow> no_risk | Some r \<Rightarrow> r) in
      if \<not> identity_verified then deny (U ''identity_unverified'') risk
      else if r_resource request \<noteq> p_resource pp then deny (U ''resource_outside_project_policy'') risk
      else if r_action request \<notin> p_actions pp then deny (U ''action_outside_project_policy'') risk
      else if \<not> scope_allows (r_path request) (p_scopes pp) then deny (U ''scope_outside_project_policy'') risk
      else if r_environment request \<notin> p_environments pp
        then deny (U ''environment_outside_project_policy'') risk
      else if \<not> destination_allows (network_destination request) (p_network_destinations pp)
        then deny (U ''network_destination_outside_project_policy'') risk
      else
        (case check_flow request (p_egress_destinations pp) (p_exportable_classifications pp) (U ''project'') of
           Some flow_error \<Rightarrow> deny flow_error risk
         | None \<Rightarrow>
             (let matching_agent = matching_grants request agent_grants (r_subject request) (maximum risk) now in
              if matching_agent = [] then deny (U ''no_active_agent_capability'') risk
              else
                (let agent_flow = filter (grant_flow_allows request) matching_agent in
                 if agent_flow = [] then deny (U ''agent_capability_blocks_data_flow'') risk
                 else
                   (case tool_subject request of
                      Some (t # ts) \<Rightarrow>
                        (let matching_tool = matching_grants request tool_grants (t # ts) (maximum risk) now in
                         if matching_tool = [] then deny (U ''tool_authority_does_not_intersect'') risk
                         else
                           (let tool_flow = filter (grant_flow_allows request) matching_tool in
                            if tool_flow = [] then deny (U ''tool_capability_blocks_data_flow'') risk
                            else decide_selected (agent_flow @ tool_flow) human_approved risk))
                    | _ \<Rightarrow> decide_selected agent_flow human_approved risk)))))"

section \<open>The constitution of the monitor\<close>

definition project_permits :: "action_request \<Rightarrow> project_policy \<Rightarrow> bool" where
  "project_permits request pp \<longleftrightarrow> r_resource request = p_resource pp \<and> r_action request \<in> p_actions pp \<and>
     scope_allows (r_path request) (p_scopes pp) \<and> r_environment request \<in> p_environments pp \<and>
     destination_allows (network_destination request) (p_network_destinations pp) \<and>
     check_flow request (p_egress_destinations pp) (p_exportable_classifications pp) (U ''project'') = None"

definition covers :: "action_request \<Rightarrow> str \<Rightarrow> pyfloat \<Rightarrow> int \<Rightarrow> capability_grant \<Rightarrow> bool" where
  "covers request subject risk now g \<longleftrightarrow> g_subject g = subject \<and> g_resource g = r_resource request \<and>
     r_action request \<in> g_actions g \<and> r_environment request \<in> g_environments g \<and>
     destination_allows (network_destination request) (g_network_destinations g) \<and>
     scope_allows (r_path request) (g_scopes g) \<and> issued_at g \<le> now \<and> now < expires_at g \<and>
     risk \<le> max_risk g \<and> grant_flow_allows request g"

text \<open>The grants that carry an authorisation: those of the subject and, when a tool acts, those of the tool.\<close>

definition carriers ::
  "action_request \<Rightarrow> capability_grant list \<Rightarrow> capability_grant list \<Rightarrow> pyfloat \<Rightarrow> int \<Rightarrow> capability_grant list" where
  "carriers request agent_grants tool_grants risk now =
     filter (covers request (r_subject request) risk now) agent_grants @
     (case tool_subject request of Some (t # ts) \<Rightarrow> filter (covers request (t # ts) risk now) tool_grants | _ \<Rightarrow> [])"

definition authority ::
  "action_request \<Rightarrow> bool \<Rightarrow> project_policy \<Rightarrow> capability_grant list \<Rightarrow> pyfloat
     \<Rightarrow> capability_grant list \<Rightarrow> int \<Rightarrow> bool" where
  "authority request identity_verified pp agent_grants risk tool_grants now \<longleftrightarrow>
     identity_verified \<and> project_permits request pp \<and>
     list_ex (covers request (r_subject request) risk now) agent_grants \<and>
     (case tool_subject request of
        Some (t # ts) \<Rightarrow> list_ex (covers request (t # ts) risk now) tool_grants
      | _ \<Rightarrow> True)"

lemma covers_iff: "covers request subject risk now g \<longleftrightarrow> grant_matches request subject risk now g \<and> grant_flow_allows request g"
  by (auto simp: covers_def grant_matches_def destination_allows_def is_active_def split: option.splits)

lemma matching_flow:
  "filter (grant_flow_allows request) (matching_grants request grants subject risk now) =
     filter (covers request subject risk now) grants"
  by (induction grants) (simp_all add: matching_grants_def covers_iff)

lemma matching_Nil:
  "matching_grants request grants subject risk now = [] \<Longrightarrow> filter (covers request subject risk now) grants = []"
  by (simp add: matching_flow [symmetric])

lemma list_ex_filter: "list_ex P xs \<longleftrightarrow> filter P xs \<noteq> []"
  by (induction xs) auto

lemma decide_selected_decision:
  "pd_decision (decide_selected sel approved risk) =
     (if list_ex requires_human_approval sel \<and> \<not> approved then REQUIRE_APPROVAL else ALLOW)"
  "pd_capability_ids (decide_selected sel approved risk) = map capability_id sel"
  by (simp_all add: decide_selected_def)

lemma deny_decision [simp]: "pd_decision (deny reason risk) = DENY" "pd_capability_ids (deny reason risk) = []"
  by (simp_all add: deny_def)

text \<open>Every branch of \<^verbatim>\<open>evaluate\<close>: the part after the project policy, and the whole.\<close>

definition grants_decision ::
  "action_request \<Rightarrow> capability_grant list \<Rightarrow> risk_vector \<Rightarrow> capability_grant list \<Rightarrow> bool \<Rightarrow> int
     \<Rightarrow> policy_decision" where
  "grants_decision request agent_grants risk tool_grants approved now =
     (let cov = \<lambda>s. filter (covers request s (maximum risk) now);
          mat = \<lambda>gs s. matching_grants request gs s (maximum risk) now;
          a = cov (r_subject request) agent_grants
      in if mat agent_grants (r_subject request) = [] then deny (U ''no_active_agent_capability'') risk
         else if a = [] then deny (U ''agent_capability_blocks_data_flow'') risk
         else (case tool_subject request of
             Some (t # ts) \<Rightarrow>
               (if mat tool_grants (t # ts) = [] then deny (U ''tool_authority_does_not_intersect'') risk
                else if cov (t # ts) tool_grants = [] then deny (U ''tool_capability_blocks_data_flow'') risk
                else decide_selected (a @ cov (t # ts) tool_grants) approved risk)
           | _ \<Rightarrow> decide_selected a approved risk))"

lemma evaluate_refused:
  "\<not> (idv \<and> project_permits request pp) \<Longrightarrow>
     \<exists>reason. evaluate request idv pp ag ro tg approved now = deny reason (case ro of None \<Rightarrow> no_risk | Some r \<Rightarrow> r)"
  unfolding evaluate_def Let_def project_permits_def
  by (cases "check_flow request (p_egress_destinations pp) (p_exportable_classifications pp) (U ''project'')")
    auto

lemma evaluate_grants:
  "idv \<Longrightarrow> project_permits request pp \<Longrightarrow>
     evaluate request idv pp ag ro tg approved now =
       grants_decision request ag (case ro of None \<Rightarrow> no_risk | Some r \<Rightarrow> r) tg approved now"
  unfolding evaluate_def Let_def project_permits_def grants_decision_def matching_flow by simp

lemma grants_decision_cases:
  "let d = grants_decision request ag risk tg approved now;
       sel = carriers request ag tg (maximum risk) now;
       ok = authority request True pp ag (maximum risk) tg now
   in project_permits request pp \<longrightarrow>
     pd_decision d = (if ok then (if list_ex requires_human_approval sel \<and> \<not> approved then REQUIRE_APPROVAL else ALLOW)
                      else DENY) \<and>
     pd_capability_ids d = (if ok then map capability_id sel else []) \<and> pd_risk d = maximum risk"
proof -
  let ?a = "filter (covers request (r_subject request) (maximum risk) now) ag"
  have risk: "pd_risk (deny reason risk) = maximum risk" "pd_risk (decide_selected s approved risk) = maximum risk"
    for reason s approved by (simp_all add: deny_def decide_selected_def)
  show ?thesis
  proof (cases "?a = []")
    case True
    then show ?thesis
      by (simp add: grants_decision_def Let_def authority_def list_ex_filter risk)
  next
    case False
    with matching_Nil have m: "matching_grants request ag (r_subject request) (maximum risk) now \<noteq> []" by blast
    show ?thesis
    proof (cases "tool_subject request")
      case None
      then show ?thesis using False m
        by (simp add: grants_decision_def Let_def authority_def carriers_def list_ex_filter decide_selected_decision risk)
    next
      case (Some tool)
      show ?thesis
      proof (cases tool)
        case Nil
        then show ?thesis using False m Some
          by (simp add: grants_decision_def Let_def authority_def carriers_def list_ex_filter decide_selected_decision risk)
      next
        case (Cons t ts)
        then show ?thesis using False m Some matching_Nil [of request tg "t # ts" "maximum risk" now]
          by (simp add: grants_decision_def Let_def authority_def carriers_def list_ex_filter decide_selected_decision risk)
      qed
    qed
  qed
qed

section \<open>Properties\<close>

definition risk_of :: "risk_vector option \<Rightarrow> pyfloat" where
  "risk_of ro = maximum (case ro of None \<Rightarrow> no_risk | Some r \<Rightarrow> r)"

text \<open>C2: \<^verbatim>\<open>PolicyEngine.evaluate\<close> decides its constitution exactly: with identity, the project policy and
  a covering grant of the subject (and of the tool, when one acts) it allows, or asks for approval when one
  of the carrying grants demands it and it was not given; otherwise it denies. The capability ids it reports
  are those of the carrying grants, and none with a denial.\<close>
theorem evaluate_constitution:
  "let d = evaluate request idv pp ag ro tg approved now;
       sel = carriers request ag tg (risk_of ro) now;
       ok = authority request idv pp ag (risk_of ro) tg now
   in pd_decision d = (if ok then (if list_ex requires_human_approval sel \<and> \<not> approved then REQUIRE_APPROVAL else ALLOW)
                       else DENY) \<and>
      pd_capability_ids d = (if ok then map capability_id sel else []) \<and> pd_risk d = risk_of ro"
proof (cases "idv \<and> project_permits request pp")
  case True
  then show ?thesis
    using grants_decision_cases [of request ag "case ro of None \<Rightarrow> no_risk | Some r \<Rightarrow> r" tg approved now pp]
    by (simp add: evaluate_grants risk_of_def Let_def)
next
  case False
  then have "\<not> authority request idv pp ag (risk_of ro) tg now" by (auto simp: authority_def)
  moreover obtain reason where
    "evaluate request idv pp ag ro tg approved now = deny reason (case ro of None \<Rightarrow> no_risk | Some r \<Rightarrow> r)"
    using evaluate_refused [OF False] by blast
  ultimately show ?thesis by (simp add: Let_def deny_def risk_of_def)
qed

lemma evaluate_decision:
  "pd_decision (evaluate request idv pp ag ro tg approved now) =
     (if authority request idv pp ag (risk_of ro) tg now
      then (if list_ex requires_human_approval (carriers request ag tg (risk_of ro) now) \<and> \<not> approved
            then REQUIRE_APPROVAL else ALLOW)
      else DENY)"
proof (cases "idv \<and> project_permits request pp")
  case True
  then show ?thesis
    using grants_decision_cases [of request ag "case ro of None \<Rightarrow> no_risk | Some r \<Rightarrow> r" tg approved now pp]
    by (simp add: evaluate_grants risk_of_def Let_def)
next
  case False
  then have "\<not> authority request idv pp ag (risk_of ro) tg now" by (auto simp: authority_def)
  moreover obtain reason where
    "evaluate request idv pp ag ro tg approved now = deny reason (case ro of None \<Rightarrow> no_risk | Some r \<Rightarrow> r)"
    using evaluate_refused [OF False] by blast
  ultimately show ?thesis by simp
qed

lemma covers_less_risk: "r \<le> r' \<Longrightarrow> covers request subject r' now g \<Longrightarrow> covers request subject r now g"
  by (auto simp: covers_def)

lemma authority_less_risk:
  "r \<le> r' \<Longrightarrow> authority request idv pp ag r' tg now \<Longrightarrow> authority request idv pp ag r tg now"
  unfolding authority_def list_ex_iff
  by (auto split: option.splits list.splits intro: covers_less_risk)

text \<open>authority contracts as risk rises: what the monitor denies at one risk it denies at every higher
  one.\<close>
theorem denial_monotone_in_risk:
  assumes "risk_of ro \<le> risk_of ro'"
    and "pd_decision (evaluate request idv pp ag ro tg approved now) = DENY"
  shows "pd_decision (evaluate request idv pp ag ro' tg approved now) = DENY"
  using assms authority_less_risk [OF assms(1), of request idv pp ag tg now]
  by (auto simp: evaluate_decision split: if_splits)

definition demo_request :: action_request where
  "demo_request = \<lparr>r_subject = U ''agent'', r_action = U ''repo.write'', r_resource = U ''repo'', r_path = U ''src'',
     r_environment = U ''sandbox'', network_destination = None, output_destination = None,
     data_classification = None, tool_subject = None\<rparr>"

definition demo_policy :: project_policy where
  "demo_policy = \<lparr>p_resource = U ''repo'', p_actions = {U ''repo.write''}, p_scopes = [[42]],
     p_environments = {U ''sandbox''}, p_network_destinations = {}, p_egress_destinations = {},
     p_exportable_classifications = {}\<rparr>"

definition demo_grant :: "str \<Rightarrow> pyfloat \<Rightarrow> bool \<Rightarrow> capability_grant" where
  "demo_grant i cap approval = \<lparr>capability_id = i, g_subject = U ''agent'', g_resource = U ''repo'',
     g_actions = {U ''repo.write''}, g_scopes = [[42]], g_environments = {U ''sandbox''},
     g_network_destinations = {}, g_egress_destinations = {}, g_exportable_classifications = {},
     issued_at = 0, expires_at = 100, max_risk = cap, requires_human_approval = approval\<rparr>"

definition demo_risk :: "pyfloat \<Rightarrow> risk_vector" where
  "demo_risk x = no_risk\<lparr>execution := x\<rparr>"

lemma risk_of_demo: "0 \<le> x \<Longrightarrow> risk_of (Some (demo_risk x)) = x"
  by (simp add: risk_of_def demo_risk_def no_risk_def maximum_def)

lemma scope_allows_demo: "scope_allows (U ''src'') [[42]]"
  by code_simp

lemma demo_covers: "0 \<le> x \<Longrightarrow> 0 \<le> now \<Longrightarrow> now < 100 \<Longrightarrow>
    covers demo_request (U ''agent'') x now (demo_grant i cap approval) \<longleftrightarrow> x \<le> cap"
  by (simp add: covers_def demo_request_def demo_grant_def destination_allows_def scope_allows_demo
      grant_flow_allows_def check_flow_def)

lemma demo_project: "project_permits demo_request demo_policy"
  by (simp add: project_permits_def demo_request_def demo_policy_def destination_allows_def
      scope_allows_demo check_flow_def)

lemma demo_decision:
  assumes "0 \<le> x"
  shows "pd_decision (evaluate demo_request True demo_policy gs (Some (demo_risk x)) [] False 0) =
     (let sel = filter (covers demo_request (U ''agent'') x 0) gs
      in if sel = [] then DENY else if list_ex requires_human_approval sel then REQUIRE_APPROVAL else ALLOW)"
  using assms demo_project
  by (simp add: evaluate_decision risk_of_demo authority_def carriers_def list_ex_filter Let_def)
    (simp add: demo_request_def)

theorem denial_monotone_in_risk_witness:
  "pd_decision (evaluate demo_request True demo_policy [demo_grant (U ''g'') (1/4) False]
     (Some (demo_risk 1)) [] False 0) = DENY"
  by (rule denial_monotone_in_risk [of "Some (demo_risk (1/2))"])
    (simp_all add: demo_decision risk_of_demo demo_covers)

text \<open>the contraction is not monotone for approval: a grant that demands approval can fall out of the
  active set as risk rises, and with it the demand. With an unconditional grant and one that demands
  approval up to risk 1/4, the same request needs approval at no risk and is allowed without one at risk
  1/2.\<close>
theorem approval_lost_at_higher_risk:
  "let gs = [demo_grant (U ''open'') 1 False, demo_grant (U ''gated'') (1/4) True];
       dec = (\<lambda>x. pd_decision (evaluate demo_request True demo_policy gs (Some (demo_risk x)) [] False 0))
   in dec 0 = REQUIRE_APPROVAL \<and> dec (1/2) = ALLOW"
  by (simp add: demo_decision demo_covers Let_def) (simp add: demo_grant_def)

text \<open>C12: the scope matcher, computed with one row of a table per pattern segment, decides the recursive
  meaning of a scope (\<^verbatim>\<open>**\<close> is any number of segments), after both sides have been canonicalised; an
  invalid path or any invalid scope is refused.\<close>
theorem scope_allows_meaning:
  "scope_allows path scopes =
     (case canonicalize_resource_path path of
        Inl e \<Rightarrow> False
      | Inr p \<Rightarrow>
          (case map_result canonicalize_scope_pattern scopes of
             Inl e \<Rightarrow> False
           | Inr ss \<Rightarrow> list_ex (\<lambda>s. s = [42] \<or> segs_match (segments s) (segments p)) ss))"
  by (auto simp: scope_allows_def scope_matches_segs list_ex_iff split: sum.splits)



end
