(* ===== verification/PyJson.thy ===== *)
theory PyJson
  imports PyFloat "HOL-Library.List_Lexorder"
begin

text \<open>
  Plain Python values and \<^verbatim>\<open>json.dumps\<close> as the source calls it: \<^verbatim>\<open>sort_keys=True\<close>,
  \<^verbatim>\<open>ensure_ascii=True\<close>, with compact or default separators. The text that \<^verbatim>\<open>repr\<close> gives a
  float is the parameter \<open>fr\<close>. The main lemma is that the compact form is injective up to the order of
  dictionary keys, on values made of strings without surrogates, which is what the hash chains and
  envelopes of the program rest on.
\<close>

section \<open>Values\<close>

datatype pyval = PNone | PBool bool | PInt int | PFloat pyfloat | PStr str | PBytes bytes
  | PList "pyval list" | PTuple "pyval list" | PDict "(str \<times> pyval) list"
  | PKeyed "(pyval \<times> pyval) list" \<comment> \<open>a dictionary with a key that is not a string\<close>
  | POther str \<comment> \<open>any other object, by its \<^verbatim>\<open>repr\<close>\<close>

section \<open>Strings in JSON\<close>

definition json_u :: "nat \<Rightarrow> str" where
  "json_u c = [92, 117] @ hex_w 4 c"

definition json_cp :: "nat \<Rightarrow> str" where
  "json_cp c =
     (if c = 34 \<or> c = 92 then [92, c]
      else if c = 10 then [92, 110]
      else if c = 13 then [92, 114]
      else if c = 9 then [92, 116]
      else if c = 8 then [92, 98]
      else if c = 12 then [92, 102]
      else if 32 \<le> c \<and> c < 127 then [c]
      else if c < 0x10000 then json_u c
      else json_u (0xd800 + (c - 0x10000) div 0x400) @ json_u (0xdc00 + (c - 0x10000) mod 0x400))"

definition json_str :: "str \<Rightarrow> str" where
  "json_str s = 34 # concat (map json_cp s) @ [34]"

text \<open>The code points of well-formed text: everything but the surrogates.\<close>

definition scalar :: "nat \<Rightarrow> bool" where
  "scalar c \<longleftrightarrow> c < 0xd800 \<or> (0xe000 \<le> c \<and> c < 0x110000)"

lemma scalar_U [simp]: "list_all scalar (U s)"
proof -
  have "scalar (of_char c)" for c
    using nat_of_char_less_256 [of c] unfolding scalar_def by linarith
  then show ?thesis by (simp add: U_def list_all_iff)
qed

text \<open>Reading one character of a JSON string back, as \<^verbatim>\<open>json.loads\<close> does.\<close>

definition unhex_digit :: "nat \<Rightarrow> nat" where
  "unhex_digit d = (if d < 58 then d - 48 else d - 87)"

definition unhex :: "str \<Rightarrow> nat" where
  "unhex ds = foldl (\<lambda>a d. 16 * a + unhex_digit d) 0 ds"

definition json_unescape :: "nat \<Rightarrow> nat" where
  "json_unescape k = (if k = 110 then 10 else if k = 114 then 13 else if k = 116 then 9
     else if k = 98 then 8 else if k = 102 then 12 else k)"

fun json_read :: "str \<Rightarrow> (nat \<times> str) option" where
  "json_read [] = None"
| "json_read (c # r) =
     (if c \<noteq> 92 then Some (c, r)
      else (case r of
              [] \<Rightarrow> None
            | k # r1 \<Rightarrow>
                (if k \<noteq> 117 then Some (json_unescape k, r1)
                 else
                   (let v = unhex (take 4 r1); r2 = drop 4 r1
                    in if 0xd800 \<le> v \<and> v < 0xdc00
                       then Some (0x10000 + (v - 0xd800) * 0x400 + (unhex (take 4 (drop 2 r2)) - 0xdc00),
                              drop 4 (drop 2 r2))
                       else Some (v, r2)))))"

lemma unhex_digit_hex [simp]: "d < 16 \<Longrightarrow> unhex_digit (hex_digit d) = d"
  by (auto simp: unhex_digit_def hex_digit_def)

lemma hex_w_length [simp]: "length (hex_w k n) = k"
  by (induction k arbitrary: n) auto

lemma unhex_hex_w: "n < 16 ^ k \<Longrightarrow> unhex (hex_w k n) = n"
proof (induction k arbitrary: n)
  case (Suc k)
  then have "unhex (hex_w k (n div 16)) = n div 16" by (intro Suc.IH) auto
  then show ?case by (simp add: unhex_def)
qed (simp add: unhex_def)

lemma json_read_u: "n < 65536 \<Longrightarrow> \<not> (0xd800 \<le> n \<and> n < 0xdc00) \<Longrightarrow> json_read (json_u n @ x) = Some (n, x)"
  using unhex_hex_w [of n 4] by (simp add: json_u_def Let_def)

lemma json_read_pair:
  assumes "m < 1024" "n < 1024"
  shows "json_read (json_u (0xd800 + m) @ json_u (0xdc00 + n) @ x) = Some (0x10000 + m * 0x400 + n, x)"
  using unhex_hex_w [of "0xd800 + m" 4] unhex_hex_w [of "0xdc00 + n" 4] assms
  by (simp add: json_u_def Let_def)

lemma json_read_cp:
  assumes "scalar c"
  shows "json_read (json_cp c @ x) = Some (c, x)"
proof -
  consider "c < 65536" | "65536 \<le> c" by linarith
  then show ?thesis
  proof cases
    case 1
    with assms have u: "json_read (json_u c @ x) = Some (c, x)"
      by (intro json_read_u) (auto simp: scalar_def)
    show ?thesis unfolding json_cp_def using 1 u by (simp add: json_unescape_def)
  next
    case 2
    let ?m = "(c - 65536) div 1024" and ?n = "(c - 65536) mod 1024"
    have c: "c - 65536 < 1048576" using assms 2 by (auto simp: scalar_def)
    then have m: "?m < 1024" "?n < 1024" by auto
    have "json_cp c = json_u (0xd800 + ?m) @ json_u (0xdc00 + ?n)"
      using 2 by (simp add: json_cp_def)
    moreover have "65536 + ?m * 1024 + ?n = c" using 2 by simp
    ultimately show ?thesis using json_read_pair [OF m, of x] by simp
  qed
qed

lemma json_cp_inj:
  assumes "scalar c" "scalar d" "json_cp c @ x = json_cp d @ y"
  shows "c = d \<and> x = y"
  using json_read_cp [OF assms(1), of x] json_read_cp [OF assms(2), of y] assms(3)
  by (metis option.inject prod.inject)

lemma json_cp_not_Nil [simp]: "json_cp c \<noteq> []"
  by (simp add: json_cp_def json_u_def)

lemma json_cp_hd: "hd (json_cp c @ x) \<noteq> 34"
  by (auto simp: json_cp_def json_u_def)

lemma json_cp_quote: "json_cp c @ x \<noteq> 34 # y"
  using json_cp_hd [of c x] by (metis list.sel(1))

lemma json_str_inj:
  assumes "list_all scalar s" "list_all scalar t" "json_str s @ x = json_str t @ y"
  shows "s = t \<and> x = y"
proof -
  have "s = t \<and> x = y" if "concat (map json_cp s) @ 34 # x = concat (map json_cp t) @ 34 # y"
    using assms(1,2) that
  proof (induction s arbitrary: t)
    case Nil
    then show ?case by (cases t) (auto dest: json_cp_quote [THEN notE, OF sym])
  next
    case (Cons c s)
    show ?case
    proof (cases t)
      case Nil
      with Cons.prems(3) show ?thesis by (auto dest: json_cp_quote [THEN notE])
    next
      case (Cons d t')
      with Cons.prems have "c = d \<and> concat (map json_cp s) @ 34 # x = concat (map json_cp t') @ 34 # y"
        by (intro json_cp_inj) auto
      with Cons Cons.prems Cons.IH [of t'] show ?thesis by simp
    qed
  qed
  with assms(3) show ?thesis by (simp add: json_str_def)
qed

section \<open>\<^verbatim>\<open>json.dumps\<close>\<close>

definition bytes_repr :: "bytes \<Rightarrow> str" where
  "bytes_repr bs =
     (let q = (if 39 \<in> set bs \<and> 34 \<notin> set bs then 34 else 39)
      in 98 # q # concat (map (\<lambda>c. if c = q \<or> c = 92 then [92, c]
            else if c = 10 then [92, 110] else if c = 13 then [92, 114] else if c = 9 then [92, 116]
            else if c < 32 \<or> 127 \<le> c then [92, 120] @ hex_w 2 c else [c]) bs) @ [q])"

text \<open>
  \<open>json_dumps fr isep ksep\<close> is \<^verbatim>\<open>json.dumps(v, sort_keys=True, separators=(isep, ksep), default=repr)\<close>;
  \<open>fr\<close> gives the text of a float and of a dictionary with keys that are not strings.
\<close>

fun json_dumps :: "(pyval \<Rightarrow> str) \<Rightarrow> str \<Rightarrow> str \<Rightarrow> pyval \<Rightarrow> str" where
  "json_dumps fr i k PNone = U ''null''"
| "json_dumps fr i k (PBool b) = (if b then U ''true'' else U ''false'')"
| "json_dumps fr i k (PInt n) = int_str n"
| "json_dumps fr i k (PFloat x) = fr (PFloat x)"
| "json_dumps fr i k (PStr s) = json_str s"
| "json_dumps fr i k (PBytes bs) = json_str (bytes_repr bs)"
| "json_dumps fr i k (PList vs) = 91 # join i (map (json_dumps fr i k) vs) @ [93]"
| "json_dumps fr i k (PTuple vs) = 91 # join i (map (json_dumps fr i k) vs) @ [93]"
| "json_dumps fr i k (PDict kvs) =
     123 # join i (map (\<lambda>(key, t). json_str key @ k @ t)
       (sort_key fst (map (\<lambda>(key, v). (key, json_dumps fr i k v)) kvs))) @ [125]"
| "json_dumps fr i k (PKeyed kvs) = fr (PKeyed kvs)"
| "json_dumps fr i k (POther r) = json_str r"

text \<open>The two forms that the source uses.\<close>

definition json_default :: "(pyval \<Rightarrow> str) \<Rightarrow> pyval \<Rightarrow> bytes" where
  "json_default fr v = json_dumps fr [44, 32] [58, 32] v"

definition json_canonical :: "(pyval \<Rightarrow> str) \<Rightarrow> pyval \<Rightarrow> bytes" where
  "json_canonical fr v = json_dumps fr [44] [58] v"

section \<open>Injectivity of the compact form\<close>

definition num_char :: "nat \<Rightarrow> bool" where
  "num_char c \<longleftrightarrow> (48 \<le> c \<and> c \<le> 57) \<or> c = 45 \<or> c = 43 \<or> c = 46 \<or> c = 101"

text \<open>What \<^verbatim>\<open>repr\<close> of a finite float guarantees: a numeral with a point or an exponent, which reads back
  to the same float.\<close>

definition float_text :: "(pyval \<Rightarrow> str) \<Rightarrow> bool" where
  "float_text fr \<longleftrightarrow> (\<forall>x y. fr (PFloat x) = fr (PFloat y) \<longrightarrow> x = y) \<and>
     (\<forall>x. fr (PFloat x) \<noteq> [] \<and> list_all num_char (fr (PFloat x)) \<and>
        (46 \<in> set (fr (PFloat x)) \<or> 101 \<in> set (fr (PFloat x))))"

fun plain :: "pyval \<Rightarrow> bool" where
  "plain (PStr s) = list_all scalar s"
| "plain (PBytes bs) = False"
| "plain (PKeyed kvs) = False"
| "plain (POther r) = False"
| "plain (PList vs) = list_all plain vs"
| "plain (PTuple vs) = list_all plain vs"
| "plain (PDict kvs) = (distinct (map fst kvs) \<and> list_all (\<lambda>(k, v). list_all scalar k \<and> plain v) kvs)"
| "plain _ = True"

text \<open>The value that the text determines: tuples are lists, and dictionaries are ordered by key.\<close>

fun json_norm :: "pyval \<Rightarrow> pyval" where
  "json_norm (PList vs) = PList (map json_norm vs)"
| "json_norm (PTuple vs) = PList (map json_norm vs)"
| "json_norm (PDict kvs) = PDict (sort_key fst (map (\<lambda>(k, v). (k, json_norm v)) kvs))"
| "json_norm PNone = PNone"
| "json_norm (PBool b) = PBool b"
| "json_norm (PInt n) = PInt n"
| "json_norm (PFloat x) = PFloat x"
| "json_norm (PStr s) = PStr s"
| "json_norm (PBytes bs) = PBytes bs"
| "json_norm (PKeyed kvs) = PKeyed kvs"
| "json_norm (POther r) = POther r"

lemma int_str_num: "c \<in> set (int_str n) \<Longrightarrow> num_char c \<and> c \<noteq> 46 \<and> c \<noteq> 101"
  by (auto simp: int_str_def nat_str_def num_char_def dest: nat_digits_range split: if_splits)

lemma nat_str_no_minus: "45 \<notin> set (nat_str n)"
  by (auto simp: nat_str_def dest: nat_digits_range)

lemma int_str_inj: "int_str m = int_str n \<longleftrightarrow> m = n"
proof
  assume e: "int_str m = int_str n"
  have "45 \<in> set (int_str k) \<longleftrightarrow> k < 0" for k
    using nat_str_no_minus by (auto simp: int_str_def)
  with e have "m < 0 \<longleftrightarrow> n < 0" by metis
  with e show "m = n" by (auto simp: int_str_def split: if_splits)
qed simp

lemma int_str_not_Nil [simp]: "int_str n \<noteq> []"
  by (simp add: int_str_def nat_str_def)

definition ends_value :: "str \<Rightarrow> bool" where
  "ends_value x \<longleftrightarrow> x = [] \<or> \<not> num_char (hd x)"

lemma num_token_inj:
  assumes "list_all num_char a" "list_all num_char b" "ends_value x" "ends_value y" "a @ x = b @ y"
  shows "a = b \<and> x = y"
proof -
  have tw: "takeWhile num_char (a @ x) = a" if "list_all num_char a" "ends_value x" for a x
    using that by (cases x) (auto simp: ends_value_def takeWhile_tail list_all_iff)
  show ?thesis using tw [OF assms(1,3)] tw [OF assms(2,4)] assms(5) by auto
qed

lemma join_tail: "join [d] (map f (x # xs)) = f x @ concat (map (\<lambda>y. d # f y) xs)"
  by (induction xs arbitrary: x) auto

lemma tails_inj:
  assumes step: "\<And>v w x y. v \<in> set vs \<Longrightarrow> w \<in> set ws \<Longrightarrow> ends_value x \<Longrightarrow> ends_value y \<Longrightarrow>
      f v @ x = f w @ y \<Longrightarrow> g v = g w \<and> x = y"
    and c: "c = 93 \<or> c = 125"
    and eq: "concat (map (\<lambda>v. 44 # f v) vs) @ c # x = concat (map (\<lambda>v. 44 # f v) ws) @ c # y"
  shows "map g vs = map g ws \<and> x = y"
  using assms
proof (induction vs arbitrary: ws)
  case Nil
  then show ?case by (cases ws) auto
next
  case (Cons v vs)
  show ?case
  proof (cases ws)
    case Nil
    with Cons.prems show ?thesis by auto
  next
    case (Cons w ws')
    let ?x = "concat (map (\<lambda>v. 44 # f v) vs) @ c # x" and ?y = "concat (map (\<lambda>v. 44 # f v) ws') @ c # y"
    have ends: "ends_value ?x" "ends_value ?y"
      using Cons.prems(2) by (cases vs; cases ws'; auto simp: ends_value_def num_char_def)+
    from Cons.prems(3) Cons have "f v @ ?x = f w @ ?y" by simp
    with Cons.prems(1) [OF _ _ ends] Cons have vw: "g v = g w" "?x = ?y" by auto
    have "map g vs = map g ws' \<and> x = y"
      by (rule Cons.IH [OF _ Cons.prems(2) vw(2)]) (use Cons.prems(1) Cons in auto)
    with vw Cons show ?thesis by simp
  qed
qed

lemma join_inj:
  assumes step: "\<And>v w x y. v \<in> set vs \<Longrightarrow> w \<in> set ws \<Longrightarrow> ends_value x \<Longrightarrow> ends_value y \<Longrightarrow>
      f v @ x = f w @ y \<Longrightarrow> g v = g w \<and> x = y"
    and first: "\<And>v x y. v \<in> set vs \<union> set ws \<Longrightarrow> f v @ x \<noteq> c # y"
    and c: "c = 93 \<or> c = 125"
    and eq: "join [44] (map f vs) @ c # x = join [44] (map f ws) @ c # y"
  shows "map g vs = map g ws \<and> x = y"
proof (cases vs)
  case Nil
  show ?thesis
  proof (cases ws)
    case (Cons w ws')
    from eq have "f w @ concat (map (\<lambda>v. 44 # f v) ws') @ c # y = c # x"
      unfolding Cons Nil join_tail by simp
    with first [of w] Cons show ?thesis by auto
  qed (use Nil eq in simp)
next
  case (Cons v vs')
  show ?thesis
  proof (cases ws)
    case Nil
    from eq have "f v @ concat (map (\<lambda>v. 44 # f v) vs') @ c # x = c # y"
      unfolding Cons Nil join_tail by simp
    with first [of v] Cons show ?thesis by auto
  next
    case (Cons w ws')
    have "concat (map (\<lambda>v. 44 # f v) vs) @ c # x = concat (map (\<lambda>v. 44 # f v) ws) @ c # y"
      using eq by (simp only: \<open>vs = v # vs'\<close> Cons join_tail) simp
    then show ?thesis by (intro tails_inj [OF step c]) auto
  qed
qed

lemma insort_map_snd:
  "insort_key fst (k, h v) (map (\<lambda>(k, v). (k, h v)) kvs) = map (\<lambda>(k, v). (k, h v)) (insort_key fst (k, v) kvs)"
  by (induction kvs) auto

lemma sort_map_snd:
  "sort_key fst (map (\<lambda>(k, v). (k, h v)) kvs) = map (\<lambda>(k, v). (k, h v)) (sort_key fst kvs)"
proof (induction kvs)
  case (Cons kv kvs)
  then show ?case by (cases kv) (simp add: insort_map_snd)
qed simp

lemma number_first:
  assumes "list_all num_char a" "a \<noteq> []" "\<not> num_char d"
  shows "a @ x \<noteq> d # y"
  using assms by (cases a) auto

text \<open>The first character of a text says what kind of value it is of.\<close>

fun kind :: "pyval \<Rightarrow> nat" where
  "kind PNone = 110" | "kind (PBool b) = (if b then 116 else 102)" | "kind (PInt n) = 48"
| "kind (PFloat x) = 48" | "kind (PStr s) = 34" | "kind (PBytes b) = 34" | "kind (PList vs) = 91"
| "kind (PTuple vs) = 91" | "kind (PDict kvs) = 123" | "kind (PKeyed kvs) = 0" | "kind (POther r) = 34"

lemma dumps_first:
  assumes fr: "float_text fr" and p: "plain v"
  shows "\<exists>c r. json_dumps fr i k v = c # r \<and> (if kind v = 48 then num_char c else c = kind v)"
proof (cases v)
  case (PFloat x)
  moreover have "fr (PFloat x) \<noteq> []" "list_all num_char (fr (PFloat x))" using fr by (auto simp: float_text_def)
  ultimately show ?thesis by (cases "fr (PFloat x)") auto
next
  case (PInt n)
  then show ?thesis using int_str_num [of _ n] by (cases "int_str n") auto
qed (use p in \<open>auto simp: U_def json_str_def\<close>)

lemma kind_not_num: "kind v \<noteq> 48 \<Longrightarrow> \<not> num_char (kind v)"
  by (cases v) (auto simp: num_char_def)

lemma kind_eq:
  assumes "float_text fr" "plain v" "plain w" "json_dumps fr i k v @ x = json_dumps fr i k w @ y"
  shows "kind v = kind w"
  using dumps_first [OF assms(1,2), of i k] dumps_first [OF assms(1,3), of i k] assms(4)
    kind_not_num [of v] kind_not_num [of w] by (auto split: if_splits)

lemma dumps_not_close:
  assumes "float_text fr" "plain v" "c = 93 \<or> c = 125"
  shows "json_dumps fr i k v @ x \<noteq> c # y"
  using dumps_first [OF assms(1,2), of i k] assms(3)
  by (cases v) (auto simp: num_char_def split: if_splits)

lemma number_inj:
  assumes fr: "float_text fr" and k: "kind v = 48" "kind w = 48"
    and x: "ends_value x" "ends_value y" "json_dumps fr i k v @ x = json_dumps fr i k w @ y"
  shows "v = w \<and> x = y"
proof -
  have tok: "list_all num_char (json_dumps fr i k u)" if "kind u = 48" for u
    using that fr int_str_num by (cases u) (auto simp: float_text_def list_all_iff split: if_splits)
  have point: "(46 \<in> set (json_dumps fr i k u) \<or> 101 \<in> set (json_dumps fr i k u)) \<longleftrightarrow> (\<exists>f. u = PFloat f)"
    if "kind u = 48" for u
    using that fr int_str_num by (cases u) (auto simp: float_text_def split: if_splits)
  from num_token_inj [OF tok [OF k(1)] tok [OF k(2)] x]
  have eq: "json_dumps fr i k v = json_dumps fr i k w" "x = y" by auto
  with point [OF k(1)] point [OF k(2)] have "(\<exists>f. v = PFloat f) \<longleftrightarrow> (\<exists>f. w = PFloat f)" by simp
  then have "v = w"
    using eq(1) k fr by (cases v; cases w) (auto simp: int_str_inj float_text_def split: if_splits)
  with eq show ?thesis by simp
qed

lemma plain_kind:
  assumes "plain w"
  shows "kind w = 110 \<Longrightarrow> w = PNone" "kind w = 116 \<Longrightarrow> w = PBool True" "kind w = 102 \<Longrightarrow> w = PBool False"
    "kind w = 34 \<Longrightarrow> \<exists>s. w = PStr s" "kind w = 91 \<Longrightarrow> \<exists>vs. w = PList vs \<or> w = PTuple vs"
    "kind w = 123 \<Longrightarrow> \<exists>kvs. w = PDict kvs"
  using assms by (cases w; auto split: if_splits)+

abbreviation cdumps :: "(pyval \<Rightarrow> str) \<Rightarrow> pyval \<Rightarrow> str" where
  "cdumps fr \<equiv> json_dumps fr [44] [58]"

lemma list_inj:
  assumes fr: "float_text fr" and p: "list_all plain vs" "list_all plain ws"
    and IH: "\<And>v w x y. v \<in> set vs \<Longrightarrow> plain v \<Longrightarrow> plain w \<Longrightarrow> ends_value x \<Longrightarrow> ends_value y \<Longrightarrow>
        cdumps fr v @ x = cdumps fr w @ y \<Longrightarrow> json_norm v = json_norm w \<and> x = y"
    and eq: "join [44] (map (cdumps fr) vs) @ 93 # x = join [44] (map (cdumps fr) ws) @ 93 # y"
  shows "map json_norm vs = map json_norm ws \<and> x = y"
  using p
  by (intro join_inj [where f = "cdumps fr" and c = 93, OF IH dumps_not_close [OF fr] _ eq])
    (auto simp: list_all_iff)

lemma dict_inj:
  assumes fr: "float_text fr" and p: "plain (PDict kvs)" "plain (PDict jvs)"
    and IH: "\<And>key v w x y. (key, v) \<in> set kvs \<Longrightarrow> plain v \<Longrightarrow> plain w \<Longrightarrow> ends_value x \<Longrightarrow> ends_value y \<Longrightarrow>
        cdumps fr v @ x = cdumps fr w @ y \<Longrightarrow> json_norm v = json_norm w \<and> x = y"
    and eq: "cdumps fr (PDict kvs) @ x = cdumps fr (PDict jvs) @ y"
  shows "json_norm (PDict kvs) = json_norm (PDict jvs) \<and> x = y"
proof -
  let ?f = "\<lambda>(key, v). json_str key @ [58] @ cdumps fr v" and ?g = "\<lambda>(key, v). (key, json_norm v)"
  let ?ks = "sort_key fst kvs" and ?js = "sort_key fst jvs"
  have form: "cdumps fr (PDict l) = 123 # join [44] (map ?f (sort_key fst l)) @ [125]" for l
    by (simp add: sort_map_snd) (simp add: case_prod_unfold comp_def)
  have "map ?g ?ks = map ?g ?js \<and> x = y"
  proof (rule join_inj [where f = ?f and c = 125])
    show "join [44] (map ?f ?ks) @ 125 # x = join [44] (map ?f ?js) @ 125 # y"
      using eq unfolding form by simp
    show "?g a = ?g b \<and> x = y" if "a \<in> set ?ks" "b \<in> set ?js" "ends_value x" "ends_value y"
      "?f a @ x = ?f b @ y" for a b x y
    proof -
      obtain k v j w where ab: "a = (k, v)" "b = (j, w)" by (cases a; cases b)
      have pl: "list_all scalar k" "plain v" "list_all scalar j" "plain w"
        using that(1,2) p ab by (auto simp: list_all_iff)
      from that(5) ab have "json_str k @ 58 # cdumps fr v @ x = json_str j @ 58 # cdumps fr w @ y" by simp
      from json_str_inj [OF pl(1,3) this] have "k = j" "cdumps fr v @ x = cdumps fr w @ y" by auto
      with IH [of k v w x y] pl that ab show ?thesis by auto
    qed
    show "?f a @ x \<noteq> 125 # y" for a x y by (cases a) (simp add: json_str_def)
  qed simp
  then show ?thesis by (simp add: sort_map_snd)
qed

lemma cdumps_inj:
  assumes fr: "float_text fr"
  shows "plain v \<Longrightarrow> plain w \<Longrightarrow> ends_value x \<Longrightarrow> ends_value y \<Longrightarrow>
     cdumps fr v @ x = cdumps fr w @ y \<Longrightarrow> json_norm v = json_norm w \<and> x = y"
proof (induction v arbitrary: w x y rule: json_norm.induct)
  case (1 vs)
  from kind_eq [OF fr 1(2,3,6)] plain_kind(5) [OF 1(3)]
  obtain ws where w: "w = PList ws \<or> w = PTuple ws" by auto
  have "map json_norm vs = map json_norm ws \<and> x = y"
  proof (rule list_inj [OF fr])
    show "list_all plain vs" "list_all plain ws" using 1(2,3) w by auto
    show "join [44] (map (cdumps fr) vs) @ 93 # x = join [44] (map (cdumps fr) ws) @ 93 # y"
      using 1(6) w by auto
  qed (rule 1(1))
  with w show ?case by auto
next
  case (2 vs)
  from kind_eq [OF fr 2(2,3,6)] plain_kind(5) [OF 2(3)]
  obtain ws where w: "w = PList ws \<or> w = PTuple ws" by auto
  have "map json_norm vs = map json_norm ws \<and> x = y"
  proof (rule list_inj [OF fr])
    show "list_all plain vs" "list_all plain ws" using 2(2,3) w by auto
    show "join [44] (map (cdumps fr) vs) @ 93 # x = join [44] (map (cdumps fr) ws) @ 93 # y"
      using 2(6) w by auto
  qed (rule 2(1))
  with w show ?case by auto
next
  case (3 kvs)
  from kind_eq [OF fr 3(2,3,6)] plain_kind(6) [OF 3(3)] obtain jvs where w: "w = PDict jvs" by auto
  show ?case unfolding w
    by (rule dict_inj [OF fr 3(2) 3(3) [unfolded w] _ 3(6) [unfolded w]]) (rule 3(1); auto)
next
  case (8 s)
  from kind_eq [OF fr 8(1,2,5)] plain_kind(4) [OF 8(2)] obtain t where "w = PStr t" by auto
  with 8 json_str_inj [of s t x y] show ?case by auto
next
  case 4
  from kind_eq [OF fr 4(1,2,5)] plain_kind(1) [OF 4(2)] 4(5) show ?case by simp
next
  case (5 b)
  from kind_eq [OF fr 5(1,2,5)] plain_kind(2,3) [OF 5(2)] have "w = PBool b" by (cases b) simp_all
  with 5(5) show ?case by simp
next
  case (6 n)
  from kind_eq [OF fr 6(1,2,5)] have "kind w = 48" by simp
  from number_inj [OF fr _ this 6(3,4,5)] show ?case by simp
next
  case (7 n)
  from kind_eq [OF fr 7(1,2,5)] have "kind w = 48" by simp
  from number_inj [OF fr _ this 7(3,4,5)] show ?case by simp
qed simp_all

text \<open>Values with the same canonical text are equal up to the order of keys and the kind of sequence.\<close>

lemma json_canonical_inj:
  assumes "float_text fr" "plain v" "plain w" "json_canonical fr v = json_canonical fr w"
  shows "json_norm v = json_norm w"
  using cdumps_inj [OF assms(1-3), of "[]" "[]"] assms(4) by (simp add: json_canonical_def ends_value_def)

text \<open>A concrete text of floats with the documented properties, to instantiate \<open>fr\<close>.\<close>

definition ratio_text :: "pyval \<Rightarrow> str" where
  "ratio_text v = (case v of PFloat x \<Rightarrow> (let (p, q) = quotient_of x in int_str p @ [101] @ int_str q) | _ \<Rightarrow> [])"

lemma ratio_text_ok: "float_text ratio_text"
proof -
  have eq: "p = p' \<and> q = q'" if "int_str p @ 101 # int_str q = int_str p' @ 101 # int_str q'" for p q p' q'
  proof -
    have tw: "takeWhile (\<lambda>c. c \<noteq> 101) (int_str p @ 101 # r) = int_str p" for p r
    proof -
      have "\<forall>c \<in> set (int_str p). c \<noteq> 101" using int_str_num by blast
      then show ?thesis by (simp add: takeWhile_append2)
    qed
    from arg_cong [OF that, of "takeWhile (\<lambda>c. c \<noteq> 101)"] have "int_str p = int_str p'" by (simp only: tw)
    with that show ?thesis by (simp add: int_str_inj)
  qed
  have "x = y" if "ratio_text (PFloat x) = ratio_text (PFloat y)" for x y
  proof (rule quotient_of_inject)
    show "quotient_of x = quotient_of y"
      using that eq by (auto simp: ratio_text_def split: prod.splits)
  qed
  moreover have "num_char c" if "c \<in> set (ratio_text (PFloat x))" for c x
    using that int_str_num by (auto simp: ratio_text_def num_char_def split: prod.splits)
  moreover have r: "101 \<in> set (ratio_text (PFloat x))" for x
    by (cases "quotient_of x") (simp add: ratio_text_def)
  moreover have "ratio_text (PFloat x) \<noteq> []" for x
    using r [of x] by (metis empty_iff list.set(1))
  ultimately show ?thesis by (simp add: float_text_def list_all_iff)
qed

lemma map_of_sort_key: "distinct (map fst kvs) \<Longrightarrow> map_of (sort_key fst kvs) = map_of kvs"
  by (subst map_of_inject_set) (simp_all add: distinct_map)

lemma dget_norm:
  assumes "distinct (map fst kvs)"
  shows "dget (sort_key fst (map (\<lambda>(k, v). (k, json_norm v)) kvs)) k = map_option json_norm (dget kvs k)"
proof -
  have d: "distinct (map fst (map (\<lambda>(k, v). (k, json_norm v)) kvs))"
    using assms by (simp add: case_prod_unfold comp_def)
  have "map_of (map (\<lambda>(k, v). (k, json_norm v)) kvs) k = map_option json_norm (map_of kvs k)"
    by (induction kvs) auto
  then show ?thesis using map_of_sort_key [OF d] by (simp add: dget_def)
qed

lemma dkeys_norm: "set (dkeys (sort_key fst (map (\<lambda>(k, v). (k, json_norm v)) kvs))) = set (dkeys kvs)"
  by (auto simp: dkeys_def image_iff) force+

text \<open>Two dictionaries with the same canonical text agree on every key.\<close>

lemma dict_text_inj:
  assumes "float_text fr" "plain (PDict kvs)" "plain (PDict jvs)"
    and "json_canonical fr (PDict kvs) = json_canonical fr (PDict jvs)"
  shows "map_option json_norm (map_of kvs k) = map_option json_norm (map_of jvs k)"
proof -
  let ?n = "map (\<lambda>(k, v). (k, json_norm v))"
  have d: "distinct (map fst (?n l))" if "plain (PDict l)" for l
    using that by (simp add: case_prod_unfold comp_def)
  have look: "map_of (?n l) k = map_option json_norm (map_of l k)" for l
    by (induction l) auto
  have "sort_key fst (?n kvs) = sort_key fst (?n jvs)"
    using json_canonical_inj [OF assms] by simp
  then have "map_of (?n kvs) = map_of (?n jvs)"
    using map_of_sort_key [OF d [OF assms(2)]] map_of_sort_key [OF d [OF assms(3)]] by simp
  then show ?thesis by (simp only: look [symmetric])
qed

section \<open>The text of the normal form\<close>

lemma sort_sort: "sort_key f (sort_key f xs) = sort_key f xs"
  by (rule sort_key_id_if_sorted) simp

lemma dumps_norm: "json_dumps fr i k (json_norm v) = json_dumps fr i k v"
proof (induction v rule: json_norm.induct)
  case (3 kvs)
  have e: "map (\<lambda>(key, v). (key, json_dumps fr i k v)) (map (\<lambda>(k, v). (k, json_norm v)) kvs) =
      map (\<lambda>(key, v). (key, json_dumps fr i k v)) kvs"
    using 3 by auto
  have "sort_key fst (map (\<lambda>(key, v). (key, json_dumps fr i k v)) (sort_key fst (map (\<lambda>(k, v). (k, json_norm v)) kvs))) =
      sort_key fst (map (\<lambda>(key, v). (key, json_dumps fr i k v)) kvs)"
    unfolding sort_map_snd [symmetric] sort_sort e ..
  then show ?case unfolding json_norm.simps json_dumps.simps by simp
qed (simp_all cong: map_cong)

lemma plain_norm: "plain v \<Longrightarrow> plain (json_norm v)"
proof (induction v rule: json_norm.induct)
  case (3 kvs)
  have "distinct (map fst (sort_key fst (map (\<lambda>(k, v). (k, json_norm v)) kvs)))"
    using 3(2) by (simp add: distinct_map case_prod_unfold inj_on_def) (metis prod.collapse)
  with 3 show ?case by (auto simp: list_all_iff)
qed (auto simp: list_all_iff)

lemma norm_idem: "json_norm (json_norm v) = json_norm v"
proof (induction v rule: json_norm.induct)
  case (3 kvs)
  have e: "map (\<lambda>(k, v). (k, json_norm v)) (map (\<lambda>(k, v). (k, json_norm v)) kvs) = map (\<lambda>(k, v). (k, json_norm v)) kvs"
    using 3 by auto
  have "sort_key fst (map (\<lambda>(k, v). (k, json_norm v)) (sort_key fst (map (\<lambda>(k, v). (k, json_norm v)) kvs))) =
      sort_key fst (map (\<lambda>(k, v). (k, json_norm v)) kvs)"
    unfolding sort_map_snd [symmetric] sort_sort e ..
  then show ?case unfolding json_norm.simps by simp
qed simp_all

lemma norm_filter_keys:
  "json_norm (PDict (filter (\<lambda>(k, v). P k) kvs)) =
    PDict (filter (\<lambda>(k, v). P k) (sort_key fst (map (\<lambda>(k, v). (k, json_norm v)) kvs)))"
proof -
  have "filter (\<lambda>(k, v). P k) (map (\<lambda>(k, v). (k, json_norm v)) kvs) =
      map (\<lambda>(k, v). (k, json_norm v)) (filter (\<lambda>(k, v). P k) kvs)"
    by (induction kvs) auto
  then show ?thesis by (simp add: filter_sort)
qed

section \<open>Updates of a dictionary of plain values\<close>

lemma dkeys_dset_set: "set (dkeys (dset k v d)) = insert k (set (dkeys d))"
  unfolding dkeys_dset by (auto simp: din_def dkeys_def)

lemma plain_dset:
  assumes "plain (PDict d)" "list_all scalar k" "plain v"
  shows "plain (PDict (dset k v d))"
proof -
  have "dict_ok d" using assms(1) by (simp add: dict_ok_def)
  then have ok: "dict_ok (dset k v d)" by (rule dict_ok_dset)
  have "list_all scalar j \<and> plain w" if "(j, w) \<in> set (dset k v d)" for j w
  proof -
    have "dget (dset k v d) j = Some w" using ok that by (simp add: dict_ok_def dget_def)
    then have "(if j = k then Some v else dget d j) = Some w" by simp
    then show ?thesis using assms by (cases "j = k") (auto simp: dget_def list_all_iff dest: map_of_SomeD)
  qed
  with ok show ?thesis by (auto simp: dict_ok_def list_all_iff)
qed

section \<open>Texts are ASCII\<close>

lemma hex_w_ascii: "c \<in> set (hex_w k n) \<Longrightarrow> c < 128"
proof (induction k arbitrary: n)
  case (Suc k)
  have "n mod 16 < 16" by simp
  then have "hex_digit (n mod 16) < 128" unfolding hex_digit_def by (simp only: split: if_split) linarith
  with Suc show ?case by auto
qed simp

lemma json_cp_ascii: "d \<in> set (json_cp c) \<Longrightarrow> d < 128"
  by (auto simp: json_cp_def json_u_def dest: hex_w_ascii split: if_splits)

lemma json_str_ascii: "d \<in> set (json_str s) \<Longrightarrow> d < 128"
  by (auto simp: json_str_def dest: json_cp_ascii)

lemma join_set: "d \<in> set (join i ts) \<Longrightarrow> d \<in> set i \<or> (\<exists>t \<in> set ts. d \<in> set t)"
  by (induction i ts rule: join.induct) auto

lemma dumps_ascii:
  assumes fr: "float_text fr" and ik: "\<forall>d \<in> set i \<union> set k. d < 128"
  shows "plain v \<Longrightarrow> d \<in> set (json_dumps fr i k v) \<Longrightarrow> d < 128"
proof (induction v arbitrary: d rule: json_norm.induct)
  case (1 vs)
  then show ?case using ik by (auto simp: list_all_iff dest!: join_set)
next
  case (2 vs)
  then show ?case using ik by (auto simp: list_all_iff dest!: join_set)
next
  case (3 kvs)
  then show ?case using ik by (fastforce simp: list_all_iff dest!: join_set json_str_ascii)
next
  case (7 x)
  have "num_char c \<Longrightarrow> c < 128" for c by (auto simp: num_char_def)
  moreover have "\<forall>c \<in> set (fr (PFloat x)). num_char c" using fr by (auto simp: float_text_def list_all_iff)
  ultimately show ?case using 7 by simp
next
  case (6 n)
  then show ?case using int_str_num by (fastforce simp: num_char_def)
next
  case (8 s)
  then show ?case by (auto dest: json_str_ascii)
qed (auto simp: U_def split: if_splits)

end
