(* ===== verification/HashChain.thy ===== *)
theory HashChain
  imports Main
begin

text \<open>
  The contract of a hash chain, shared by the receipts of the private shield and the events of the
  evidence ledger: every entry names its predecessor's hash and is sealed. In a \<open>binding\<close> chain the
  hash of an entry is the hash of an injective encoding, so that two accepted chains with the same
  head are equal unless their entries exhibit a collision of the hash or a preimage of the root.
\<close>

definition chain_head :: "('e \<Rightarrow> 'h) \<Rightarrow> 'h \<Rightarrow> 'e list \<Rightarrow> 'h" where
  "chain_head own p es = (if es = [] then p else own (last es))"

lemma chain_head_simps [simp]:
  "chain_head own p [] = p" "chain_head own p (es @ [e]) = own e"
  "chain_head own p (e # es) = chain_head own (own e) es"
  by (simp_all add: chain_head_def)

locale hash_chain =
  fixes prev :: "'e \<Rightarrow> 'h" and own :: "'e \<Rightarrow> 'h" and sealed :: "'e \<Rightarrow> bool"
    and chain_ok :: "'h \<Rightarrow> 'e list \<Rightarrow> bool"
  assumes chain_Nil: "chain_ok p []"
    and chain_Cons: "chain_ok p (e # es) \<longleftrightarrow> prev e = p \<and> sealed e \<and> chain_ok (own e) es"
begin

lemma chain_append: "chain_ok p (es @ fs) \<longleftrightarrow> chain_ok p es \<and> chain_ok (chain_head own p es) fs"
  by (induction es arbitrary: p) (simp_all add: chain_Nil chain_Cons)

lemma chain_snoc: "chain_ok p (es @ [e]) \<longleftrightarrow> chain_ok p es \<and> prev e = chain_head own p es \<and> sealed e"
  by (simp add: chain_append chain_Cons chain_Nil)

lemma chain_take: "chain_ok p es \<Longrightarrow> chain_ok p (take n es)"
  using chain_append [of p "take n es" "drop n es"] by simp

lemma chain_drop: "chain_ok p es \<Longrightarrow> chain_ok (chain_head own p (take n es)) (drop n es)"
  using chain_append [of p "take n es" "drop n es"] by simp

lemma chain_sealed: "chain_ok p es \<Longrightarrow> e \<in> set es \<Longrightarrow> sealed e"
  by (induction es arbitrary: p) (auto simp: chain_Cons)

end

locale binding_chain = hash_chain prev own sealed chain_ok
  for prev :: "'e \<Rightarrow> 'h" and own :: "'e \<Rightarrow> 'h" and sealed :: "'e \<Rightarrow> bool"
    and chain_ok :: "'h \<Rightarrow> 'e list \<Rightarrow> bool" +
  fixes enc :: "'e \<Rightarrow> 'b" and hash :: "'b \<Rightarrow> 'h" and wf :: "'e \<Rightarrow> bool"
  assumes sealed_own: "sealed e \<Longrightarrow> own e = hash (enc e)"
    and binding: "sealed e \<Longrightarrow> sealed f \<Longrightarrow> wf e \<Longrightarrow> wf f \<Longrightarrow> enc e = enc f \<Longrightarrow> e = f"
begin

lemma head_binds:
  assumes "chain_ok p es" "chain_ok p fs" "\<forall>e \<in> set es \<union> set fs. wf e"
    and "chain_head own p es = chain_head own p fs"
  shows "es = fs \<or> (\<exists>e \<in> set es. \<exists>f \<in> set fs. enc e \<noteq> enc f \<and> hash (enc e) = hash (enc f)) \<or>
    (\<exists>e \<in> set es \<union> set fs. hash (enc e) = p)"
  using assms
proof (induction es arbitrary: fs rule: rev_induct)
  case Nil
  show ?case
  proof (cases fs rule: rev_cases)
    case (snoc gs g)
    with Nil have "own g = p" "sealed g" by (auto simp: chain_snoc)
    with snoc sealed_own show ?thesis by auto
  qed simp
next
  case (snoc e es)
  have e: "chain_ok p es" "prev e = chain_head own p es" "sealed e" using snoc.prems(1) by (auto simp: chain_snoc)
  show ?case
  proof (cases fs rule: rev_cases)
    case Nil
    with snoc.prems(4) e(3) sealed_own show ?thesis by auto
  next
    case (snoc gs g)
    with snoc.prems have g: "chain_ok p gs" "prev g = chain_head own p gs" "sealed g" "own e = own g"
      by (auto simp: chain_snoc)
    then have h: "hash (enc e) = hash (enc g)" using sealed_own e(3) by metis
    show ?thesis
    proof (cases "enc e = enc g")
      case True
      then have "e = g" using binding e(3) g(3) snoc.prems(3) snoc by auto
      moreover from this have "chain_head own p es = chain_head own p gs" using e(2) g(2) by simp
      then have "es = gs \<or> (\<exists>e \<in> set es. \<exists>f \<in> set gs. enc e \<noteq> enc f \<and> hash (enc e) = hash (enc f)) \<or>
          (\<exists>e \<in> set es \<union> set gs. hash (enc e) = p)"
        using snoc.IH [OF e(1) g(1)] snoc.prems(3) snoc by auto
      ultimately show ?thesis using snoc by auto
    qed (use h snoc in auto)
  qed
qed

end

end
