(* ===== verification/ShieldAudit.thy ===== *)
theory ShieldAudit
  imports ShieldPolicy PyJson HashChain
begin

text \<open>
  \<^verbatim>\<open>AuditChain\<close> of \<^verbatim>\<open>private_shield/audit.py\<close> and \<^verbatim>\<open>PrivateShield\<close> of
  \<^verbatim>\<open>private_shield/runtime.py\<close>. SHA-256 (\<open>sha\<close>), HMAC-SHA-256 (\<open>hm\<close>), the text of a float
  (\<open>fr\<close>), the random part of a receipt id and the rendered time stamp are arguments. Text that is
  hashed is taken to be encodable in UTF-8.
\<close>

section \<open>Receipts\<close>

record audit_receipt =
  receipt_id :: str
  timestamp :: str
  ar_subject :: str
  ar_action :: str
  ar_resource :: str
  ar_decision :: str
  ar_reasons :: "str list"
  ar_capability_ids :: "str list"
  ar_risk :: pyfloat
  input_hash :: str
  output_hash :: str
  previous_receipt_hash :: str
  receipt_hash :: str
  signature :: str

fun decision_value :: "decision \<Rightarrow> str" where
  "decision_value ALLOW = U ''ALLOW''"
| "decision_value DENY = U ''DENY''"
| "decision_value REQUIRE_APPROVAL = U ''REQUIRE_APPROVAL''"

definition receipt_payload :: "audit_receipt \<Rightarrow> pyval" where
  "receipt_payload r = PDict
     [(U ''receipt_id'', PStr (receipt_id r)), (U ''timestamp'', PStr (timestamp r)),
      (U ''subject'', PStr (ar_subject r)), (U ''action'', PStr (ar_action r)),
      (U ''resource'', PStr (ar_resource r)), (U ''decision'', PStr (ar_decision r)),
      (U ''reasons'', PList (map PStr (ar_reasons r))),
      (U ''capability_ids'', PList (map PStr (ar_capability_ids r))),
      (U ''risk'', PFloat (ar_risk r)), (U ''input_hash'', PStr (input_hash r)),
      (U ''output_hash'', PStr (output_hash r)),
      (U ''previous_receipt_hash'', PStr (previous_receipt_hash r))]"

datatype material = MBytes bytes | MStr str

definition hash_material :: "(bytes \<Rightarrow> str) \<Rightarrow> material \<Rightarrow> str" where
  "hash_material sha m = sha (case m of MBytes b \<Rightarrow> b | MStr s \<Rightarrow> utf8 s)"

section \<open>The chain\<close>

definition GENESIS_HASH :: str where
  "GENESIS_HASH = replicate 64 48"

record audit_chain =
  signing_key :: bytes
  receipts :: "audit_receipt list"

definition audit_init :: "bytes \<Rightarrow> str + audit_chain" where
  "audit_init key =
     (if length key < 16 then Inl (U ''signing_key must be at least 16 bytes'')
      else Inr \<lparr>signing_key = key, receipts = []\<rparr>)"

definition audit_append ::
  "(bytes \<Rightarrow> str) \<Rightarrow> (bytes \<Rightarrow> bytes \<Rightarrow> str) \<Rightarrow> (pyval \<Rightarrow> str) \<Rightarrow> str \<Rightarrow> str \<Rightarrow> audit_chain \<Rightarrow> action_request
     \<Rightarrow> policy_decision \<Rightarrow> material \<Rightarrow> material \<Rightarrow> audit_receipt \<times> audit_chain" where
  "audit_append sha hm fr token ts c request d inp outp =
     (let previous_hash = (if receipts c = [] then GENESIS_HASH else receipt_hash (last (receipts c)));
          r = \<lparr>receipt_id = U ''agr_'' @ token, timestamp = ts, ar_subject = r_subject request,
               ar_action = r_action request, ar_resource = r_resource request,
               ar_decision = decision_value (pd_decision d), ar_reasons = pd_reasons d,
               ar_capability_ids = pd_capability_ids d, ar_risk = pd_risk d,
               input_hash = hash_material sha inp, output_hash = hash_material sha outp,
               previous_receipt_hash = previous_hash, receipt_hash = [], signature = []\<rparr>;
          canonical = json_canonical fr (receipt_payload r);
          h = sha canonical;
          r = r\<lparr>receipt_hash := h, signature := hm (signing_key c) (utf8 h)\<rparr>
      in (r, c\<lparr>receipts := receipts c @ [r]\<rparr>))"

text \<open>The loop of \<^verbatim>\<open>verify\<close>; the third argument is \<^verbatim>\<open>previous\<close>.\<close>

fun audit_verify ::
  "(bytes \<Rightarrow> str) \<Rightarrow> (bytes \<Rightarrow> bytes \<Rightarrow> str) \<Rightarrow> (pyval \<Rightarrow> str) \<Rightarrow> bytes \<Rightarrow> str \<Rightarrow> audit_receipt list \<Rightarrow> bool" where
  "audit_verify sha hm fr key previous [] = True"
| "audit_verify sha hm fr key previous (r # rs) =
     (if previous_receipt_hash r \<noteq> previous then False
      else
        (let supplied_hash = receipt_hash r; supplied_signature = signature r;
             canonical = json_canonical fr (receipt_payload r)
         in if supplied_hash \<noteq> sha canonical then False
            else if supplied_signature \<noteq> hm key (utf8 supplied_hash) then False
            else audit_verify sha hm fr key supplied_hash rs))"

definition verify :: "(bytes \<Rightarrow> str) \<Rightarrow> (bytes \<Rightarrow> bytes \<Rightarrow> str) \<Rightarrow> (pyval \<Rightarrow> str) \<Rightarrow> audit_chain \<Rightarrow> audit_receipt list option \<Rightarrow> bool" where
  "verify sha hm fr c given =
     audit_verify sha hm fr (signing_key c) GENESIS_HASH (case given of None \<Rightarrow> receipts c | Some rs \<Rightarrow> rs)"

section \<open>The chain implements the contract\<close>

definition receipt_sealed ::
  "(bytes \<Rightarrow> str) \<Rightarrow> (bytes \<Rightarrow> bytes \<Rightarrow> str) \<Rightarrow> (pyval \<Rightarrow> str) \<Rightarrow> bytes \<Rightarrow> audit_receipt \<Rightarrow> bool" where
  "receipt_sealed sha hm fr key r \<longleftrightarrow> receipt_hash r = sha (json_canonical fr (receipt_payload r)) \<and>
     signature r = hm key (utf8 (receipt_hash r))"

definition receipt_wf :: "audit_receipt \<Rightarrow> bool" where
  "receipt_wf r \<longleftrightarrow> list_all (list_all scalar)
     ([receipt_id r, timestamp r, ar_subject r, ar_action r, ar_resource r, ar_decision r, input_hash r,
       output_hash r, previous_receipt_hash r] @ ar_reasons r @ ar_capability_ids r)"

interpretation audit: hash_chain previous_receipt_hash receipt_hash "receipt_sealed sha hm fr key"
  "audit_verify sha hm fr key" for sha hm fr key
  by unfold_locales (auto simp: receipt_sealed_def Let_def)

lemma payload_plain: "receipt_wf r \<Longrightarrow> plain (receipt_payload r)"
  by (auto simp: receipt_payload_def receipt_wf_def list_all_iff scalar_U [unfolded list_all_iff])

lemma norm_strs: "map json_norm (map PStr ss) = map PStr ss"
  by simp

lemma map_PStr_inj: "map PStr ss = map PStr ts \<longleftrightarrow> ss = ts"
  by (rule inj_map_eq_map) (simp add: inj_def)

lemma payload_inj:
  assumes fr: "float_text fr" and wf: "receipt_wf e" "receipt_wf f"
    and eq: "json_canonical fr (receipt_payload e) = json_canonical fr (receipt_payload f)"
    and same: "receipt_hash e = receipt_hash f" "signature e = signature f"
  shows "e = f"
proof -
  note at = dict_text_inj [OF fr payload_plain [OF wf(1), unfolded receipt_payload_def]
    payload_plain [OF wf(2), unfolded receipt_payload_def] eq [unfolded receipt_payload_def]]
  show ?thesis
    using at [of "U ''receipt_id''"] at [of "U ''timestamp''"] at [of "U ''subject''"] at [of "U ''action''"]
      at [of "U ''resource''"] at [of "U ''decision''"] at [of "U ''reasons''"] at [of "U ''capability_ids''"]
      at [of "U ''risk''"] at [of "U ''input_hash''"] at [of "U ''output_hash''"]
      at [of "U ''previous_receipt_hash''"] same
    by (simp add: comp_def map_PStr_inj)
qed

lemma binding_audit:
  assumes "float_text fr"
  shows "binding_chain previous_receipt_hash receipt_hash (receipt_sealed sha hm fr key)
     (audit_verify sha hm fr key) (\<lambda>r. json_canonical fr (receipt_payload r)) sha receipt_wf"
proof
  fix e assume "receipt_sealed sha hm fr key e"
  then show "receipt_hash e = sha (json_canonical fr (receipt_payload e))" by (simp add: receipt_sealed_def)
next
  fix e f
  assume "receipt_sealed sha hm fr key e" "receipt_sealed sha hm fr key f" "receipt_wf e" "receipt_wf f"
    "json_canonical fr (receipt_payload e) = json_canonical fr (receipt_payload f)"
  then show "e = f" by (intro payload_inj [OF assms]) (auto simp: receipt_sealed_def)
qed

interpretation ratio: binding_chain previous_receipt_hash receipt_hash "receipt_sealed sha hm ratio_text key"
  "audit_verify sha hm ratio_text key" "\<lambda>r. json_canonical ratio_text (receipt_payload r)" sha receipt_wf
  for sha hm key
  by (rule binding_audit [OF ratio_text_ok])

section \<open>Properties of the chain\<close>

record audit_input =
  ai_token :: str
  ai_time :: str
  ai_request :: action_request
  ai_decision :: policy_decision
  ai_in :: material
  ai_out :: material

definition append_input ::
  "(bytes \<Rightarrow> str) \<Rightarrow> (bytes \<Rightarrow> bytes \<Rightarrow> str) \<Rightarrow> (pyval \<Rightarrow> str) \<Rightarrow> audit_chain \<Rightarrow> audit_input \<Rightarrow> audit_chain" where
  "append_input sha hm fr c i =
     snd (audit_append sha hm fr (ai_token i) (ai_time i) c (ai_request i) (ai_decision i) (ai_in i) (ai_out i))"

definition chain_valid ::
  "(bytes \<Rightarrow> str) \<Rightarrow> (bytes \<Rightarrow> bytes \<Rightarrow> str) \<Rightarrow> (pyval \<Rightarrow> str) \<Rightarrow> audit_chain \<Rightarrow> bool" where
  "chain_valid sha hm fr c \<longleftrightarrow> audit_verify sha hm fr (signing_key c) GENESIS_HASH (receipts c)"

lemma receipt_payload_hash [simp]:
  "receipt_payload (r\<lparr>receipt_hash := h\<rparr>) = receipt_payload r"
  "receipt_payload (r\<lparr>signature := g\<rparr>) = receipt_payload r"
  by (simp_all add: receipt_payload_def)

lemma audit_append_shape:
  assumes "audit_append sha hm fr token ts c request d inp outp = (r, c')"
  shows "c' = c\<lparr>receipts := receipts c @ [r]\<rparr>" "receipt_sealed sha hm fr (signing_key c) r"
    "previous_receipt_hash r = chain_head receipt_hash GENESIS_HASH (receipts c)"
    "ar_subject r = r_subject request" "ar_action r = r_action request" "ar_resource r = r_resource request"
    "ar_decision r = decision_value (pd_decision d)" "ar_reasons r = pd_reasons d"
  using assms
  by (auto simp: audit_append_def Let_def receipt_sealed_def chain_head_def receipt_payload_def)

lemma chain_valid_append:
  assumes "chain_valid sha hm fr c"
  shows "chain_valid sha hm fr (snd (audit_append sha hm fr token ts c request d inp outp))"
proof -
  obtain r c' where a: "audit_append sha hm fr token ts c request d inp outp = (r, c')" by force
  from assms audit_append_shape [OF a] show ?thesis
    by (simp add: a chain_valid_def audit.chain_snoc)
qed

lemma chain_valid_inputs: "chain_valid sha hm fr c \<Longrightarrow> chain_valid sha hm fr (foldl (append_input sha hm fr) c is)"
  by (rule foldl_preserves) (simp_all add: append_input_def chain_valid_append)

text \<open>whatever is appended to a fresh chain, in any number and order, the chain verifies.\<close>
theorem appended_chain_verifies:
  "verify sha hm fr (foldl (append_input sha hm fr) \<lparr>signing_key = key, receipts = []\<rparr> is) None"
  using chain_valid_inputs [of sha hm fr "\<lparr>signing_key = key, receipts = []\<rparr>" "is"]
  by (simp add: verify_def chain_valid_def)

text \<open>C10: tamper evidence: two lists of receipts that the chain accepts and that end in the same hash are the
  same list, unless two of their receipts with different contents have the same SHA-256, or one of them hashes
  to the genesis value.\<close>
theorem accepted_chains_agree:
  assumes "float_text fr"
    and "verify sha hm fr c (Some rs)" "verify sha hm fr c (Some rs')"
    and "list_all receipt_wf (rs @ rs')"
    and "chain_head receipt_hash GENESIS_HASH rs = chain_head receipt_hash GENESIS_HASH rs'"
  shows "rs = rs' \<or>
    (\<exists>e \<in> set rs. \<exists>f \<in> set rs'. json_canonical fr (receipt_payload e) \<noteq> json_canonical fr (receipt_payload f) \<and>
        sha (json_canonical fr (receipt_payload e)) = sha (json_canonical fr (receipt_payload f))) \<or>
    (\<exists>e \<in> set rs \<union> set rs'. sha (json_canonical fr (receipt_payload e)) = GENESIS_HASH)"
  by (rule binding_chain.head_binds [OF binding_audit [OF assms(1), of sha hm "signing_key c"]])
    (use assms in \<open>auto simp: verify_def list_all_iff\<close>)

definition demo_input :: "str \<Rightarrow> audit_input" where
  "demo_input token = \<lparr>ai_token = token, ai_time = U ''2026-01-01T00:00:00+00:00'', ai_request = demo_request,
     ai_decision = deny (U ''identity_unverified'') no_risk, ai_in = MStr (U ''in''), ai_out = MBytes []\<rparr>"

definition demo_chain :: audit_chain where
  "demo_chain = foldl (append_input (\<lambda>_. U ''ab'') (\<lambda>_ _. U ''cd'') ratio_text)
     \<lparr>signing_key = [], receipts = []\<rparr> [demo_input (U ''1''), demo_input (U ''2'')]"

lemma demo_chain_accepted:
  "verify (\<lambda>_. U ''ab'') (\<lambda>_ _. U ''cd'') ratio_text \<lparr>signing_key = [], receipts = []\<rparr> (Some (receipts demo_chain))"
proof -
  have "chain_valid (\<lambda>_. U ''ab'') (\<lambda>_ _. U ''cd'') ratio_text demo_chain"
    unfolding demo_chain_def by (rule chain_valid_inputs) (simp add: chain_valid_def)
  moreover have "signing_key demo_chain = []"
    by (simp add: demo_chain_def append_input_def audit_append_def Let_def)
  ultimately show ?thesis by (simp add: chain_valid_def verify_def)
qed

lemma demo_chain_wf: "length (receipts demo_chain) = 2 \<and> list_all receipt_wf (receipts demo_chain)"
proof -
  have "list_all scalar GENESIS_HASH" by (simp add: GENESIS_HASH_def list_all_iff scalar_def)
  then show ?thesis
    by (simp add: demo_chain_def append_input_def audit_append_def Let_def receipt_wf_def demo_input_def
        demo_request_def deny_def hash_material_def U_append [symmetric])
qed

theorem accepted_chains_agree_witness:
  "let rs = receipts demo_chain
   in rs \<noteq> [] \<and> (rs = rs \<or>
    (\<exists>e \<in> set rs. \<exists>f \<in> set rs. json_canonical ratio_text (receipt_payload e) \<noteq> json_canonical ratio_text (receipt_payload f) \<and>
        U ''ab'' = U ''ab'') \<or>
    (\<exists>e \<in> set rs \<union> set rs. U ''ab'' = GENESIS_HASH))"
  using accepted_chains_agree [OF ratio_text_ok demo_chain_accepted demo_chain_accepted] demo_chain_wf
  by (simp only: Let_def list_all_append) auto

text \<open>the chain does not notice truncation: what is left after the newest receipts are dropped is still
  accepted.\<close>
theorem truncation_accepted:
  assumes "verify sha hm fr c (Some rs)"
  shows "verify sha hm fr c (Some (take n rs))"
  using assms audit.chain_take by (simp add: verify_def)

theorem truncation_accepted_witness:
  "length (receipts demo_chain) = 2 \<and>
   verify (\<lambda>_. U ''ab'') (\<lambda>_ _. U ''cd'') ratio_text \<lparr>signing_key = [], receipts = []\<rparr>
     (Some (take 1 (receipts demo_chain)))"
  using truncation_accepted [OF demo_chain_accepted, of 1] demo_chain_wf by simp

end
