(* ===== verification/ShieldRuntime.thy ===== *)
theory ShieldRuntime
  imports ShieldAudit
begin

text \<open>
  \<^verbatim>\<open>PrivateShield\<close> of \<^verbatim>\<open>private_shield/runtime.py\<close> and \<^verbatim>\<open>MCPMediator\<close> of
  \<^verbatim>\<open>private_shield/mcp_mediator.py\<close>. The policy engine has no state, so a shield is its audit
  chain. A registered tool handler is a function from the arguments to an exception (its \<^verbatim>\<open>repr\<close>
  and its message) or an output. The locale \<open>audit_client\<close> is the contract that every user of the
  shield keeps: an operation only adds sealed receipts to the chain.
\<close>

section \<open>The contract of an audited component\<close>

locale audit_client =
  fixes step :: "'op \<Rightarrow> 's \<Rightarrow> 's" and chain :: "'s \<Rightarrow> audit_chain"
    and sha :: "bytes \<Rightarrow> str" and hm :: "bytes \<Rightarrow> bytes \<Rightarrow> str" and fr :: "pyval \<Rightarrow> str"
  assumes step_valid: "chain_valid sha hm fr (chain s) \<Longrightarrow> chain_valid sha hm fr (chain (step op s))"
    and step_extends: "signing_key (chain (step op s)) = signing_key (chain s) \<and>
      prefix (receipts (chain s)) (receipts (chain (step op s)))"
begin

lemma run_valid: "chain_valid sha hm fr (chain s) \<Longrightarrow> chain_valid sha hm fr (chain (fold step ops s))"
  by (induction ops arbitrary: s) (simp_all add: step_valid)

lemma run_extends:
  "signing_key (chain (fold step ops s)) = signing_key (chain s) \<and>
   prefix (receipts (chain s)) (receipts (chain (fold step ops s)))"
proof (induction ops arbitrary: s)
  case (Cons op ops)
  from Cons [of "step op s"] step_extends [of op s] show ?case
    using prefix_order.order_trans by auto
qed simp

lemma run_verifies:
  assumes "chain_valid sha hm fr (chain s)"
  shows "verify sha hm fr (chain (fold step ops s)) None"
  using run_valid [OF assms] by (simp add: verify_def chain_valid_def)

end

text \<open>A chain grown by exactly one receipt.\<close>

definition one_receipt ::
  "(bytes \<Rightarrow> str) \<Rightarrow> (bytes \<Rightarrow> bytes \<Rightarrow> str) \<Rightarrow> (pyval \<Rightarrow> str) \<Rightarrow> audit_chain \<Rightarrow> audit_chain \<Rightarrow> bool" where
  "one_receipt sha hm fr c c' \<longleftrightarrow>
     (\<exists>token ts request d inp outp. c' = snd (audit_append sha hm fr token ts c request d inp outp))"

lemma one_receipt_append [simp, intro]:
  "one_receipt sha hm fr c (snd (audit_append sha hm fr token ts c request d inp outp))"
  unfolding one_receipt_def by blast

lemma one_receipt_valid: "one_receipt sha hm fr c c' \<Longrightarrow> chain_valid sha hm fr c \<Longrightarrow> chain_valid sha hm fr c'"
  by (auto simp: one_receipt_def chain_valid_append)

lemma one_receipt_extends:
  "one_receipt sha hm fr c c' \<Longrightarrow> signing_key c' = signing_key c \<and> prefix (receipts c) (receipts c') \<and>
     length (receipts c') = Suc (length (receipts c))"
  by (auto simp: one_receipt_def audit_append_def Let_def)

section \<open>PrivateShield\<close>

record authorization_result =
  az_decision :: policy_decision
  az_receipt :: audit_receipt

definition authorize ::
  "(bytes \<Rightarrow> str) \<Rightarrow> (bytes \<Rightarrow> bytes \<Rightarrow> str) \<Rightarrow> (pyval \<Rightarrow> str) \<Rightarrow> str \<Rightarrow> str \<Rightarrow> audit_chain \<Rightarrow> action_request
     \<Rightarrow> bool \<Rightarrow> project_policy \<Rightarrow> capability_grant list \<Rightarrow> risk_vector option \<Rightarrow> capability_grant list \<Rightarrow> bool
     \<Rightarrow> material \<Rightarrow> material \<Rightarrow> int \<Rightarrow> authorization_result \<times> audit_chain" where
  "authorize sha hm fr token ts c request idv pp ag risk tg approved inp outp now =
     (let d = evaluate request idv pp ag risk tg approved now;
          (r, c') = audit_append sha hm fr token ts c request d inp outp
      in (\<lparr>az_decision = d, az_receipt = r\<rparr>, c'))"

lemma audit_append_chain:
  "signing_key (snd (audit_append sha hm fr token ts c request d inp outp)) = signing_key c"
  "receipts (snd (audit_append sha hm fr token ts c request d inp outp)) =
     receipts c @ [fst (audit_append sha hm fr token ts c request d inp outp)]"
  by (simp_all add: audit_append_def Let_def)

lemma audit_append_decision:
  "ar_decision (fst (audit_append sha hm fr token ts c request d inp outp)) = decision_value (pd_decision d)"
  by (simp add: audit_append_def Let_def)

section \<open>MCPMediator\<close>

type_synonym handler = "pyval \<Rightarrow> (str \<times> str) + pyval"

record registered_tool =
  tool_name :: str
  tool_resource :: str
  rt_subject :: str
  tool_handler :: handler

record mediator =
  md_audit :: audit_chain
  md_tools :: "(str, registered_tool) dict"

datatype mediator_error = EmptyToolName | BadResource | BadToolSubject | ToolNotRegistered

definition register_tool ::
  "mediator \<Rightarrow> str \<Rightarrow> str \<Rightarrow> str \<Rightarrow> handler \<Rightarrow> mediator_error option \<times> mediator" where
  "register_tool m name resource subject h =
     (if name = [] then (Some EmptyToolName, m)
      else if \<not> startswith resource (U ''mcp://'') then (Some BadResource, m)
      else if \<not> startswith subject (U ''tool://'') then (Some BadToolSubject, m)
      else (None, m\<lparr>md_tools := dset name
              \<lparr>tool_name = name, tool_resource = resource, rt_subject = subject, tool_handler = h\<rparr> (md_tools m)\<rparr>))"

record mcp_result =
  mr_decision :: policy_decision
  mr_receipt :: audit_receipt
  executed :: bool
  mr_output :: "pyval option"
  execution_error :: "str option"

definition mcp_request :: "registered_tool \<Rightarrow> str \<Rightarrow> str \<Rightarrow> str option \<Rightarrow> str option \<Rightarrow> action_request" where
  "mcp_request tool name subject dest cls =
     \<lparr>r_subject = subject, r_action = U ''mcp.invoke'', r_resource = tool_resource tool, r_path = name,
      r_environment = U ''sandbox'', network_destination = None, output_destination = dest,
      data_classification = cls, tool_subject = Some (rt_subject tool)\<rparr>"

text \<open>The error text of an exception is \<^verbatim>\<open>type: message\<close>; the handler supplies \<^verbatim>\<open>repr\<close> and that text.\<close>

definition mcp_invoke ::
  "(bytes \<Rightarrow> str) \<Rightarrow> (bytes \<Rightarrow> bytes \<Rightarrow> str) \<Rightarrow> (pyval \<Rightarrow> str) \<Rightarrow> str \<Rightarrow> str \<Rightarrow> mediator \<Rightarrow> str \<Rightarrow> str \<Rightarrow> pyval
     \<Rightarrow> bool \<Rightarrow> project_policy \<Rightarrow> capability_grant list \<Rightarrow> capability_grant list \<Rightarrow> risk_vector option \<Rightarrow> bool
     \<Rightarrow> int \<Rightarrow> str option \<Rightarrow> str option \<Rightarrow> (mediator_error + mcp_result) \<times> mediator" where
  "mcp_invoke sha hm fr token ts m name subject arguments idv pp ag tg risk approved now dest cls =
     (case dget (md_tools m) name of
        None \<Rightarrow> (Inl ToolNotRegistered, m)
      | Some tool \<Rightarrow>
          (let request = mcp_request tool name subject dest cls;
               d = evaluate request idv pp ag risk tg approved now;
               inp = MBytes (json_default fr arguments)
           in if \<not> allowed d then
                (let (r, c) = audit_append sha hm fr token ts (md_audit m) request d inp (MBytes [])
                 in (Inr \<lparr>mr_decision = d, mr_receipt = r, executed = False, mr_output = None, execution_error = None\<rparr>,
                     m\<lparr>md_audit := c\<rparr>))
              else
                (case tool_handler tool arguments of
                   Inl (exc_repr, exc_text) \<Rightarrow>
                     (let (r, c) = audit_append sha hm fr token ts (md_audit m) request d inp (MStr exc_repr)
                      in (Inr \<lparr>mr_decision = d, mr_receipt = r, executed = True, mr_output = None,
                              execution_error = Some exc_text\<rparr>,
                          m\<lparr>md_audit := c\<rparr>))
                 | Inr out \<Rightarrow>
                     (let (r, c) = audit_append sha hm fr token ts (md_audit m) request d inp (MBytes (json_default fr out))
                      in (Inr \<lparr>mr_decision = d, mr_receipt = r, executed = True, mr_output = Some out,
                              execution_error = None\<rparr>,
                          m\<lparr>md_audit := c\<rparr>)))))"

record mcp_call =
  mc_token :: str
  mc_time :: str
  mc_name :: str
  mc_subject :: str
  mc_arguments :: pyval
  mc_verified :: bool
  mc_policy :: project_policy
  mc_agent_grants :: "capability_grant list"
  mc_tool_grants :: "capability_grant list"
  mc_risk :: "risk_vector option"
  mc_approved :: bool
  mc_now :: int
  mc_destination :: "str option"
  mc_classification :: "str option"

definition mcp_call_invoke ::
  "(bytes \<Rightarrow> str) \<Rightarrow> (bytes \<Rightarrow> bytes \<Rightarrow> str) \<Rightarrow> (pyval \<Rightarrow> str) \<Rightarrow> mcp_call \<Rightarrow> mediator
     \<Rightarrow> (mediator_error + mcp_result) \<times> mediator" where
  "mcp_call_invoke sha hm fr k m = mcp_invoke sha hm fr (mc_token k) (mc_time k) m (mc_name k) (mc_subject k)
     (mc_arguments k) (mc_verified k) (mc_policy k) (mc_agent_grants k) (mc_tool_grants k) (mc_risk k)
     (mc_approved k) (mc_now k) (mc_destination k) (mc_classification k)"

datatype mediator_op = RegisterTool str str str handler | Invoke mcp_call

fun mediator_step ::
  "(bytes \<Rightarrow> str) \<Rightarrow> (bytes \<Rightarrow> bytes \<Rightarrow> str) \<Rightarrow> (pyval \<Rightarrow> str) \<Rightarrow> mediator_op \<Rightarrow> mediator \<Rightarrow> mediator" where
  "mediator_step sha hm fr (RegisterTool name resource subject h) m = snd (register_tool m name resource subject h)"
| "mediator_step sha hm fr (Invoke k) m = snd (mcp_call_invoke sha hm fr k m)"

lemma register_tool_audit: "md_audit (snd (register_tool m name resource subject h)) = md_audit m"
  by (simp add: register_tool_def)

definition mcp_evidence :: "(pyval \<Rightarrow> str) \<Rightarrow> bool \<Rightarrow> handler \<Rightarrow> pyval \<Rightarrow> material" where
  "mcp_evidence fr ok h arguments =
     (if \<not> ok then MBytes []
      else (case h arguments of Inl (r, t) \<Rightarrow> MStr r | Inr out \<Rightarrow> MBytes (json_default fr out)))"

lemma mcp_invoke_audit:
  "md_audit (snd (mcp_invoke sha hm fr token ts m name subject arguments idv pp ag tg risk approved now dest cls)) =
     (case dget (md_tools m) name of
        None \<Rightarrow> md_audit m
      | Some tool \<Rightarrow>
          (let d = evaluate (mcp_request tool name subject dest cls) idv pp ag risk tg approved now
           in snd (audit_append sha hm fr token ts (md_audit m) (mcp_request tool name subject dest cls) d
                (MBytes (json_default fr arguments)) (mcp_evidence fr (allowed d) (tool_handler tool) arguments))))"
proof (cases "dget (md_tools m) name")
  case (Some tool)
  then show ?thesis
    by (cases "tool_handler tool arguments")
      (simp_all add: mcp_invoke_def mcp_evidence_def Let_def case_prod_unfold)
qed (simp add: mcp_invoke_def)

interpretation mediator: audit_client "mediator_step sha hm fr" md_audit sha hm fr for sha hm fr
proof
  fix op s
  have cs: "md_audit (mediator_step sha hm fr op s) = md_audit s \<or>
      one_receipt sha hm fr (md_audit s) (md_audit (mediator_step sha hm fr op s))"
  proof (cases op)
    case (Invoke k)
    then show ?thesis
      by (cases "dget (md_tools s) (mc_name k)") (simp_all add: mcp_call_invoke_def mcp_invoke_audit Let_def)
  qed (simp add: register_tool_audit)
  show "chain_valid sha hm fr (md_audit s) \<Longrightarrow> chain_valid sha hm fr (md_audit (mediator_step sha hm fr op s))"
    using cs one_receipt_valid by metis
  show "signing_key (md_audit (mediator_step sha hm fr op s)) = signing_key (md_audit s) \<and>
      prefix (receipts (md_audit s)) (receipts (md_audit (mediator_step sha hm fr op s)))"
    using cs one_receipt_extends by (metis prefix_order.refl)
qed

text \<open>C14: complete mediation: a call of an unregistered tool changes nothing; for a registered one the
  handler runs exactly when the reference monitor allows the request (for the caller and the tool), no output or
  error is returned otherwise, and the call adds exactly one receipt, which carries that decision.\<close>
theorem mcp_complete_mediation:
  "case dget (md_tools m) name of
     None \<Rightarrow> mcp_invoke sha hm fr token ts m name subject arguments idv pp ag tg risk approved now dest cls = (Inl ToolNotRegistered, m)
   | Some tool \<Rightarrow>
       (\<exists>res m'. mcp_invoke sha hm fr token ts m name subject arguments idv pp ag tg risk approved now dest cls = (Inr res, m') \<and>
          (let d = evaluate (mcp_request tool name subject dest cls) idv pp ag risk tg approved now
           in mr_decision res = d \<and> executed res = (pd_decision d = ALLOW) \<and>
              mr_output res = (if pd_decision d = ALLOW then (case tool_handler tool arguments of Inl e \<Rightarrow> None | Inr out \<Rightarrow> Some out) else None) \<and>
              (pd_decision d = ALLOW \<or> execution_error res = None) \<and>
              receipts (md_audit m') = receipts (md_audit m) @ [mr_receipt res] \<and>
              ar_decision (mr_receipt res) = decision_value (pd_decision d) \<and>
              md_tools m' = md_tools m))"
proof (cases "dget (md_tools m) name")
  case (Some tool)
  let ?req = "mcp_request tool name subject dest cls"
  let ?d = "evaluate ?req idv pp ag risk tg approved now"
  let ?inp = "MBytes (json_default fr arguments)"
  define app where "app = (\<lambda>outp. audit_append sha hm fr token ts (md_audit m) ?req ?d ?inp outp)"
  have app: "receipts (snd (app outp)) = receipts (md_audit m) @ [fst (app outp)]"
    "ar_decision (fst (app outp)) = decision_value (pd_decision ?d)" for outp
    by (simp_all add: app_def audit_append_chain audit_append_decision)
  show ?thesis
  proof (cases "pd_decision ?d = ALLOW")
    case True
    then show ?thesis using app Some
      by (cases "tool_handler tool arguments")
        (auto simp: mcp_invoke_def allowed_def Let_def case_prod_unfold app_def [symmetric])
  next
    case False
    then show ?thesis using app Some
      by (simp add: mcp_invoke_def allowed_def Let_def case_prod_unfold app_def [symmetric])
  qed
qed (simp add: mcp_invoke_def)

end
