(* ===== verification/ShieldBroker.thy ===== *)
theory ShieldBroker
  imports ShieldRuntime
begin

text \<open>
  \<^verbatim>\<open>SecretBroker\<close> of \<^verbatim>\<open>private_shield/secret_broker.py\<close>: registration of secrets and trusted
  adapters, leases and their consumption. An adapter is a function from the secret and the arguments
  to a failure or an output. Instants are in microseconds. Lease ids and receipt tokens, which the
  source draws at random, are arguments. Outputs are finite trees, so the identity set that guards
  the source against cyclic values is never hit and is left out.
\<close>

section \<open>State\<close>

datatype broker_error = BadSecretRef | EmptyMaterial | EmptyPurpose | AdapterExists
  | TtlRange | UsesRange | NoAdapter | SecretNotFound
  | UnknownLease | WrongPurpose | AdapterGone | LeaseRevoked | LeaseExpired | LeaseExhausted
  | AdapterFailed | StructureLimit | KeyNotString | UnsupportedType | OutputTooLarge
  | SecretReflected | UnicodeEncodeError

type_synonym adapter = "bytes \<Rightarrow> (str \<times> pyval) list \<Rightarrow> unit + pyval"

record secret_lease =
  lease_id :: str
  secret_ref :: str
  lease_subject :: str
  lease_purpose :: str
  lease_expires_at :: int
  max_uses :: int

record lease_record =
  lease :: secret_lease
  lr_material :: bytes
  lr_capability_ids :: "str list"
  lr_risk :: pyfloat
  remaining_uses :: int
  revoked :: bool

record broker =
  bk_audit :: audit_chain
  bk_secrets :: "(str, bytes) dict"
  bk_leases :: "(str, lease_record) dict"
  bk_adapters :: "(str, adapter) dict"

definition new_broker :: "audit_chain \<Rightarrow> broker" where
  "new_broker c = \<lparr>bk_audit = c, bk_secrets = [], bk_leases = [], bk_adapters = []\<rparr>"

definition material_bytes :: "material \<Rightarrow> bytes" where
  "material_bytes m = (case m of MBytes b \<Rightarrow> b | MStr s \<Rightarrow> utf8 s)"

definition register :: "broker \<Rightarrow> str \<Rightarrow> material \<Rightarrow> broker_error option \<times> broker" where
  "register b ref m =
     (if \<not> startswith ref (U ''secret://'') then (Some BadSecretRef, b)
      else
        (let raw = material_bytes m
         in if raw = [] then (Some EmptyMaterial, b)
            else (None, b\<lparr>bk_secrets := dset ref raw (bk_secrets b)\<rparr>)))"

definition register_adapter :: "broker \<Rightarrow> str \<Rightarrow> adapter \<Rightarrow> broker_error option \<times> broker" where
  "register_adapter b purpose a =
     (if purpose = [] then (Some EmptyPurpose, b)
      else if din purpose (bk_adapters b) then (Some AdapterExists, b)
      else (None, b\<lparr>bk_adapters := dset purpose a (bk_adapters b)\<rparr>))"

section \<open>Leases\<close>

definition secret_request :: "str \<Rightarrow> str \<Rightarrow> action_request" where
  "secret_request subject ref =
     \<lparr>r_subject = subject, r_action = U ''secret.use'', r_resource = ref, r_path = [],
      r_environment = U ''sandbox'', network_destination = None, output_destination = None,
      data_classification = None, tool_subject = None\<rparr>"

record lease_request =
  lq_token :: str \<comment> \<open>random part of the receipt id\<close>
  lq_time :: str
  lq_lease_id :: str \<comment> \<open>\<^verbatim>\<open>lease_\<close> and a random token\<close>
  lq_subject :: str
  lq_secret_ref :: str
  lq_purpose :: str
  lq_verified :: bool
  lq_policy :: project_policy
  lq_grants :: "capability_grant list"
  lq_risk :: "risk_vector option"
  lq_approved :: bool
  lq_now :: int
  lq_ttl :: int
  lq_max_uses :: int

definition request_lease ::
  "(bytes \<Rightarrow> str) \<Rightarrow> (bytes \<Rightarrow> bytes \<Rightarrow> str) \<Rightarrow> (pyval \<Rightarrow> str) \<Rightarrow> broker \<Rightarrow> lease_request
     \<Rightarrow> (broker_error + authorization_result \<times> secret_lease option) \<times> broker" where
  "request_lease sha hm fr b q =
     (if \<not> (1 \<le> lq_ttl q \<and> lq_ttl q \<le> 300) then (Inl TtlRange, b)
      else if \<not> (1 \<le> lq_max_uses q \<and> lq_max_uses q \<le> 10) then (Inl UsesRange, b)
      else if \<not> din (lq_purpose q) (bk_adapters b) then (Inl NoAdapter, b)
      else
        (let (az, c) = authorize sha hm fr (lq_token q) (lq_time q) (bk_audit b)
               (secret_request (lq_subject q) (lq_secret_ref q)) (lq_verified q) (lq_policy q) (lq_grants q)
               (lq_risk q) [] (lq_approved q) (MStr (lq_purpose q)) (MBytes []) (lq_now q);
             b = b\<lparr>bk_audit := c\<rparr>
         in if \<not> allowed (az_decision az) then (Inr (az, None), b)
            else
              (case dget (bk_secrets b) (lq_secret_ref q) of
                 None \<Rightarrow> (Inl SecretNotFound, b)
               | Some mat \<Rightarrow>
                   (let l = \<lparr>lease_id = lq_lease_id q, secret_ref = lq_secret_ref q, lease_subject = lq_subject q,
                             lease_purpose = lq_purpose q, lease_expires_at = lq_now q + lq_ttl q * 1000000,
                             max_uses = lq_max_uses q\<rparr>;
                        r = \<lparr>lease = l, lr_material = mat, lr_capability_ids = pd_capability_ids (az_decision az),
                             lr_risk = pd_risk (az_decision az), remaining_uses = lq_max_uses q, revoked = False\<rparr>
                    in (Inr (az, Some l), b\<lparr>bk_leases := dset (lq_lease_id q) r (bk_leases b)\<rparr>)))))"

definition revoke :: "broker \<Rightarrow> str \<Rightarrow> broker" where
  "revoke b lid =
     (case dget (bk_leases b) lid of
        None \<Rightarrow> b
      | Some r \<Rightarrow> b\<lparr>bk_leases := dset lid (r\<lparr>revoked := True\<rparr>) (bk_leases b)\<rparr>)"

section \<open>Safe outputs\<close>

text \<open>\<^verbatim>\<open>item.encode("utf-8")\<close> fails on a surrogate code point.\<close>

definition encodable :: "str \<Rightarrow> bool" where
  "encodable s = list_all scalar s"

fun chain_walks :: "(nat \<Rightarrow> broker_error + nat) list \<Rightarrow> nat \<Rightarrow> broker_error + nat" where
  "chain_walks [] n = Inr n"
| "chain_walks (w # ws) n = (case w n of Inl e \<Rightarrow> Inl e | Inr n' \<Rightarrow> chain_walks ws n')"

definition enter :: "nat \<Rightarrow> (nat \<Rightarrow> broker_error + nat) \<Rightarrow> nat \<Rightarrow> broker_error + nat" where
  "enter depth k visited =
     (let visited = visited + 1
      in if 32 < depth \<or> 10000 < visited then Inl StructureLimit else k visited)"

definition text_check :: "bytes \<Rightarrow> str \<Rightarrow> nat \<Rightarrow> broker_error + nat" where
  "text_check sec s n =
     (if \<not> encodable s then Inl UnicodeEncodeError
      else if sublist sec (utf8 s) then Inl SecretReflected else Inr n)"

text \<open>The inner function \<^verbatim>\<open>walk\<close>; the state is the number of visited items.\<close>

fun walk :: "bytes \<Rightarrow> nat \<Rightarrow> pyval \<Rightarrow> nat \<Rightarrow> broker_error + nat" where
  "walk sec d (PStr s) = enter d (text_check sec s)"
| "walk sec d (PBytes bs) = enter d (\<lambda>n. if sublist sec bs then Inl SecretReflected else Inr n)"
| "walk sec d PNone = enter d Inr"
| "walk sec d (PBool b) = enter d Inr"
| "walk sec d (PInt i) = enter d Inr"
| "walk sec d (PFloat x) = enter d Inr"
| "walk sec d (PDict kvs) =
     enter d (chain_walks (map (\<lambda>(k, v). (\<lambda>n.
       (case enter (Suc d) (text_check sec k) n of Inl e \<Rightarrow> Inl e | Inr n' \<Rightarrow> walk sec (Suc d) v n'))) kvs))"
| "walk sec d (PList vs) = enter d (chain_walks (map (\<lambda>v. walk sec (Suc d) v) vs))"
| "walk sec d (PTuple vs) = enter d (chain_walks (map (\<lambda>v. walk sec (Suc d) v) vs))"
| "walk sec d (PKeyed kvs) =
     enter d (chain_walks (map (\<lambda>(k, v). (\<lambda>n.
       (case k of
          PStr s \<Rightarrow> (case enter (Suc d) (text_check sec s) n of Inl e \<Rightarrow> Inl e | Inr n' \<Rightarrow> walk sec (Suc d) v n')
        | _ \<Rightarrow> Inl KeyNotString))) kvs))"
| "walk sec d (POther r) = enter d (\<lambda>n. Inl UnsupportedType)"

definition assert_safe_output :: "pyval \<Rightarrow> bytes \<Rightarrow> broker_error option" where
  "assert_safe_output v sec = (case walk sec 0 v 0 of Inl e \<Rightarrow> Some e | Inr n \<Rightarrow> None)"

section \<open>Consumption\<close>

definition consumption_receipt ::
  "(bytes \<Rightarrow> str) \<Rightarrow> (bytes \<Rightarrow> bytes \<Rightarrow> str) \<Rightarrow> (pyval \<Rightarrow> str) \<Rightarrow> str \<Rightarrow> str \<Rightarrow> broker \<Rightarrow> lease_record
     \<Rightarrow> bytes \<Rightarrow> bytes \<Rightarrow> bool \<Rightarrow> broker" where
  "consumption_receipt sha hm fr token ts b r inp outp success =
     (let d = \<lparr>pd_decision = (if success then ALLOW else DENY),
               pd_reasons = [if success then U ''leased_secret_consumed'' else U ''leased_secret_operation_blocked''],
               pd_capability_ids = lr_capability_ids r, pd_risk = lr_risk r\<rparr>
      in b\<lparr>bk_audit := snd (audit_append sha hm fr token ts (bk_audit b)
             (secret_request (lease_subject (lease r)) (secret_ref (lease r))) d (MBytes inp) (MBytes outp))\<rparr>)"

definition consume :: "lease_record \<Rightarrow> lease_record" where
  "consume r = (let r = r\<lparr>remaining_uses := remaining_uses r - 1\<rparr>
                in if remaining_uses r = 0 then r\<lparr>revoked := True\<rparr> else r)"

definition set_lease :: "str \<Rightarrow> lease_record \<Rightarrow> broker \<Rightarrow> broker" where
  "set_lease lid r b = b\<lparr>bk_leases := dset lid r (bk_leases b)\<rparr>"

definition output_check :: "(pyval \<Rightarrow> str) \<Rightarrow> pyval \<Rightarrow> bytes \<Rightarrow> broker_error option" where
  "output_check fr out mat =
     (case assert_safe_output out mat of
        Some e \<Rightarrow> Some e
      | None \<Rightarrow>
          (let encoded = json_default fr out
           in if 1048576 < length encoded then Some OutputTooLarge
              else if sublist mat encoded then Some SecretReflected
              else None))"

definition execute ::
  "(bytes \<Rightarrow> str) \<Rightarrow> (bytes \<Rightarrow> bytes \<Rightarrow> str) \<Rightarrow> (pyval \<Rightarrow> str) \<Rightarrow> str \<Rightarrow> str \<Rightarrow> broker \<Rightarrow> str \<Rightarrow> str
     \<Rightarrow> (str \<times> pyval) list \<Rightarrow> int \<Rightarrow> (broker_error + pyval) \<times> broker" where
  "execute sha hm fr token ts b lid purpose arguments now =
     (case dget (bk_leases b) lid of
        None \<Rightarrow> (Inl UnknownLease, b)
      | Some r \<Rightarrow>
          (if lease_purpose (lease r) \<noteq> purpose then (Inl WrongPurpose, b)
           else
             (case dget (bk_adapters b) purpose of
                None \<Rightarrow> (Inl AdapterGone, b)
              | Some adapter \<Rightarrow>
                  (if revoked r then (Inl LeaseRevoked, b)
                   else if lease_expires_at (lease r) \<le> now
                     then (Inl LeaseExpired, set_lease lid (r\<lparr>revoked := True\<rparr>) b)
                   else if remaining_uses r \<le> 0
                     then (Inl LeaseExhausted, set_lease lid (r\<lparr>revoked := True\<rparr>) b)
                   else
                     (let r = consume r;
                          b = set_lease lid r b;
                          evidence = json_default fr (PDict [(U ''lease_id'', PStr (lease_id (lease r))),
                            (U ''purpose'', PStr purpose), (U ''arguments'', PDict arguments)])
                      in (case adapter (lr_material r) arguments of
                            Inl failure \<Rightarrow>
                              (Inl AdapterFailed, consumption_receipt sha hm fr token ts b r evidence
                                 (U ''trusted-adapter-error'') False)
                          | Inr out \<Rightarrow>
                              (case output_check fr out (lr_material r) of
                                 None \<Rightarrow>
                                   (Inr out, consumption_receipt sha hm fr token ts b r evidence
                                      (json_default fr out) True)
                               | Some UnicodeEncodeError \<Rightarrow> (Inl UnicodeEncodeError, b)
                               | Some e \<Rightarrow>
                                   (Inl e, consumption_receipt sha hm fr token ts b r evidence
                                      (U ''blocked-secret-reflection-or-output-type'') False))))))))"

section \<open>Safe outputs hold no copy of the secret\<close>

text \<open>The encoded strings (keys included) and byte strings of a value.\<close>

fun texts :: "pyval \<Rightarrow> bytes list" where
  "texts (PStr s) = [utf8 s]"
| "texts (PBytes bs) = [bs]"
| "texts (PDict kvs) = concat (map (\<lambda>(k, v). utf8 k # texts v) kvs)"
| "texts (PList vs) = concat (map texts vs)"
| "texts (PTuple vs) = concat (map texts vs)"
| "texts _ = []"

lemma chain_walks_Inr: "chain_walks ws n = Inr n' \<Longrightarrow> w \<in> set ws \<Longrightarrow> \<exists>m m'. w m = Inr m'"
  by (induction ws arbitrary: n) (auto split: sum.splits)

lemma enter_Inr: "enter d k n = Inr n' \<Longrightarrow> k (Suc n) = Inr n'"
  by (auto simp: enter_def Let_def split: if_splits)

lemma text_check_Inr: "text_check sec s n = Inr n' \<Longrightarrow> \<not> sublist sec (utf8 s)"
  by (auto simp: text_check_def split: if_splits)

lemma walk_safe: "walk sec d v n = Inr n' \<Longrightarrow> t \<in> set (texts v) \<Longrightarrow> \<not> sublist sec t"
proof (induction sec d v arbitrary: n n' t rule: walk.induct)
  case (7 sec d kvs)
  from 7(3) obtain k v where kv: "(k, v) \<in> set kvs" and t: "t = utf8 k \<or> t \<in> set (texts v)" by auto
  have "(\<lambda>n. case enter (Suc d) (text_check sec k) n of Inl e \<Rightarrow> Inl e | Inr n' \<Rightarrow> walk sec (Suc d) v n')
      \<in> set (map (\<lambda>(k, v). (\<lambda>n. case enter (Suc d) (text_check sec k) n of Inl e \<Rightarrow> Inl e
          | Inr n' \<Rightarrow> walk sec (Suc d) v n')) kvs)"
    using kv by (auto intro!: image_eqI [of _ _ "(k, v)"])
  from chain_walks_Inr [OF enter_Inr [OF 7(2) [unfolded walk.simps]] this]
  obtain m m' where "(case enter (Suc d) (text_check sec k) m of Inl e \<Rightarrow> Inl e
      | Inr n' \<Rightarrow> walk sec (Suc d) v n') = Inr m'" by auto
  then obtain n'' where e: "enter (Suc d) (text_check sec k) m = Inr n''" and "walk sec (Suc d) v n'' = Inr m'"
    by (auto split: sum.splits)
  then have "t \<in> set (texts v) \<Longrightarrow> \<not> sublist sec t" by (rule 7(1) [OF kv refl])
  with t text_check_Inr [OF enter_Inr [OF e]] show ?case by auto
next
  case (8 sec d vs)
  then obtain v where v: "v \<in> set vs" and t: "t \<in> set (texts v)" by auto
  from chain_walks_Inr [OF enter_Inr [OF 8(2) [unfolded walk.simps]], of "walk sec (Suc d) v"] v
  obtain m m' where "walk sec (Suc d) v m = Inr m'" by auto
  with 8(1) [OF v] t show ?case by auto
next
  case (9 sec d vs)
  then obtain v where v: "v \<in> set vs" and t: "t \<in> set (texts v)" by auto
  from chain_walks_Inr [OF enter_Inr [OF 9(2) [unfolded walk.simps]], of "walk sec (Suc d) v"] v
  obtain m m' where "walk sec (Suc d) v m = Inr m'" by auto
  with 9(1) [OF v] t show ?case by auto
qed (auto dest!: enter_Inr text_check_Inr split: if_splits)

lemma output_check_None:
  assumes "output_check fr out mat = None"
  shows "list_all (\<lambda>t. \<not> sublist mat t) (texts out) \<and> \<not> sublist mat (json_default fr out) \<and>
    length (json_default fr out) \<le> 1048576"
proof -
  from assms obtain n where "walk mat 0 out 0 = Inr n"
    by (auto simp: output_check_def assert_safe_output_def split: sum.splits)
  then show ?thesis using assms
    by (auto simp: list_all_iff output_check_def Let_def walk_safe split: option.splits if_splits)
qed

section \<open>Every branch of execute\<close>

text \<open>The guards of \<^verbatim>\<open>execute\<close> before the adapter is called.\<close>

definition adapter_called :: "broker \<Rightarrow> str \<Rightarrow> str \<Rightarrow> int \<Rightarrow> bool" where
  "adapter_called b lid purpose now =
     (case dget (bk_leases b) lid of
        None \<Rightarrow> False
      | Some r \<Rightarrow> lease_purpose (lease r) = purpose \<and> dget (bk_adapters b) purpose \<noteq> None \<and>
          \<not> revoked r \<and> now < lease_expires_at (lease r) \<and> 0 < remaining_uses r)"

definition execute_evidence :: "(pyval \<Rightarrow> str) \<Rightarrow> lease_record \<Rightarrow> str \<Rightarrow> (str \<times> pyval) list \<Rightarrow> bytes" where
  "execute_evidence fr r purpose arguments = json_default fr (PDict [(U ''lease_id'', PStr (lease_id (lease r))),
     (U ''purpose'', PStr purpose), (U ''arguments'', PDict arguments)])"

lemma consume_simps [simp]:
  "lease (consume r) = lease r" "lr_material (consume r) = lr_material r"
  "remaining_uses (consume r) = remaining_uses r - 1"
  "revoked (consume r) \<longleftrightarrow> revoked r \<or> remaining_uses r = 1"
  by (auto simp: consume_def Let_def)

lemma execute_called:
  assumes "dget (bk_leases b) lid = Some r" "dget (bk_adapters b) purpose = Some a"
    "adapter_called b lid purpose now"
  shows "execute sha hm fr token ts b lid purpose arguments now =
    (let b' = set_lease lid (consume r) b;
         rec = consumption_receipt sha hm fr token ts b' (consume r) (execute_evidence fr (consume r) purpose arguments)
     in (case a (lr_material r) arguments of
           Inl u \<Rightarrow> (Inl AdapterFailed, rec (U ''trusted-adapter-error'') False)
         | Inr out \<Rightarrow>
             (case output_check fr out (lr_material r) of
                None \<Rightarrow> (Inr out, rec (json_default fr out) True)
              | Some e \<Rightarrow> (Inl e, if e = UnicodeEncodeError then b'
                    else rec (U ''blocked-secret-reflection-or-output-type'') False))))"
proof (cases "a (lr_material r) arguments")
  case (Inl u)
  with assms show ?thesis by (simp add: execute_def adapter_called_def Let_def execute_evidence_def)
next
  case (Inr out)
  show ?thesis
  proof (cases "output_check fr out (lr_material r)")
    case None
    with assms Inr show ?thesis by (simp add: execute_def adapter_called_def Let_def execute_evidence_def)
  next
    case (Some e)
    with assms Inr show ?thesis
      by (cases e) (simp_all add: execute_def adapter_called_def Let_def execute_evidence_def)
  qed
qed

lemma execute_refused:
  assumes "\<not> adapter_called b lid purpose now"
  shows "\<exists>e b'. execute sha hm fr token ts b lid purpose arguments now = (Inl e, b') \<and>
    bk_audit b' = bk_audit b \<and> bk_secrets b' = bk_secrets b \<and> bk_adapters b' = bk_adapters b \<and>
    (bk_leases b' = bk_leases b \<or>
     (\<exists>r. dget (bk_leases b) lid = Some r \<and> bk_leases b' = dset lid (r\<lparr>revoked := True\<rparr>) (bk_leases b)))"
proof (cases "dget (bk_leases b) lid")
  case None
  then show ?thesis by (simp add: execute_def)
next
  case (Some r)
  show ?thesis
  proof (cases "lease_purpose (lease r) \<noteq> purpose \<or> dget (bk_adapters b) purpose = None \<or> revoked r")
    case True
    with Some show ?thesis by (auto simp: execute_def split: option.splits)
  next
    case False
    with Some assms show ?thesis
      by (auto simp: execute_def adapter_called_def set_lease_def)
  qed
qed

section \<open>The broker over a history\<close>

record execute_request =
  eq_token :: str
  eq_time :: str
  eq_lease_id :: str
  eq_purpose :: str
  eq_arguments :: "(str \<times> pyval) list"
  eq_now :: int

datatype broker_op = Register str material | RegisterAdapter str adapter
  | RequestLease lease_request | Execute execute_request | Revoke str

definition execute_op ::
  "(bytes \<Rightarrow> str) \<Rightarrow> (bytes \<Rightarrow> bytes \<Rightarrow> str) \<Rightarrow> (pyval \<Rightarrow> str) \<Rightarrow> broker \<Rightarrow> execute_request
     \<Rightarrow> (broker_error + pyval) \<times> broker" where
  "execute_op sha hm fr b q =
     execute sha hm fr (eq_token q) (eq_time q) b (eq_lease_id q) (eq_purpose q) (eq_arguments q) (eq_now q)"

fun broker_step ::
  "(bytes \<Rightarrow> str) \<Rightarrow> (bytes \<Rightarrow> bytes \<Rightarrow> str) \<Rightarrow> (pyval \<Rightarrow> str) \<Rightarrow> broker_op \<Rightarrow> broker \<Rightarrow> broker" where
  "broker_step sha hm fr (Register ref m) b = snd (register b ref m)"
| "broker_step sha hm fr (RegisterAdapter purpose a) b = snd (register_adapter b purpose a)"
| "broker_step sha hm fr (RequestLease q) b = snd (request_lease sha hm fr b q)"
| "broker_step sha hm fr (Execute q) b = snd (execute_op sha hm fr b q)"
| "broker_step sha hm fr (Revoke lid) b = revoke b lid"

lemma consumption_receipt_parts [simp]:
  "bk_leases (consumption_receipt sha hm fr token ts b r inp outp ok) = bk_leases b"
  "bk_secrets (consumption_receipt sha hm fr token ts b r inp outp ok) = bk_secrets b"
  "bk_adapters (consumption_receipt sha hm fr token ts b r inp outp ok) = bk_adapters b"
  by (simp_all add: consumption_receipt_def Let_def)

lemma set_lease_parts [simp]:
  "bk_leases (set_lease lid r b) = dset lid r (bk_leases b)" "bk_audit (set_lease lid r b) = bk_audit b"
  "bk_secrets (set_lease lid r b) = bk_secrets b" "bk_adapters (set_lease lid r b) = bk_adapters b"
  by (simp_all add: set_lease_def)

lemma consumption_receipt_audit [simp]:
  "one_receipt sha hm fr (bk_audit b) (bk_audit (consumption_receipt sha hm fr token ts b r inp outp ok))"
  by (simp add: consumption_receipt_def Let_def)

lemma consumption_receipt_set [simp]:
  "one_receipt sha hm fr (bk_audit b) (bk_audit (consumption_receipt sha hm fr token ts (set_lease lid r' b) r inp outp ok))"
  using consumption_receipt_audit [of sha hm fr "set_lease lid r' b"] by (simp del: consumption_receipt_audit)

lemma execute_called_state:
  assumes "dget (bk_leases b) lid = Some r" "adapter_called b lid purpose now"
  shows "bk_leases (snd (execute sha hm fr token ts b lid purpose arguments now)) = dset lid (consume r) (bk_leases b) \<and>
    bk_secrets (snd (execute sha hm fr token ts b lid purpose arguments now)) = bk_secrets b \<and>
    bk_adapters (snd (execute sha hm fr token ts b lid purpose arguments now)) = bk_adapters b"
proof -
  from assms obtain a where "dget (bk_adapters b) purpose = Some a" by (auto simp: adapter_called_def)
  from execute_called [OF assms(1) this assms(2)] show ?thesis
    by (auto simp: Let_def split: sum.splits option.splits)
qed

lemma execute_audit:
  "if adapter_called b lid purpose now \<and> fst (execute sha hm fr token ts b lid purpose arguments now) \<noteq> Inl UnicodeEncodeError
   then one_receipt sha hm fr (bk_audit b) (bk_audit (snd (execute sha hm fr token ts b lid purpose arguments now)))
   else bk_audit (snd (execute sha hm fr token ts b lid purpose arguments now)) = bk_audit b"
proof (cases "adapter_called b lid purpose now")
  case True
  then obtain r a where ra: "dget (bk_leases b) lid = Some r" "dget (bk_adapters b) purpose = Some a"
    by (auto simp: adapter_called_def split: option.splits)
  show ?thesis using True unfolding execute_called [OF ra True] Let_def
    by (auto split: sum.splits option.splits)
next
  case False
  from execute_refused [OF False, of sha hm fr token ts arguments] False show ?thesis by auto
qed

lemma request_lease_audit:
  "bk_audit (snd (request_lease sha hm fr b q)) = bk_audit b \<or>
   one_receipt sha hm fr (bk_audit b) (bk_audit (snd (request_lease sha hm fr b q)))"
  by (simp add: request_lease_def authorize_def Let_def case_prod_unfold split: option.splits)

lemma broker_step_audit:
  "bk_audit (broker_step sha hm fr op b) = bk_audit b \<or>
   one_receipt sha hm fr (bk_audit b) (bk_audit (broker_step sha hm fr op b))"
proof (cases op)
  case (RequestLease q)
  then show ?thesis using request_lease_audit [of sha hm fr b q] by simp
next
  case (Execute q)
  then show ?thesis
    using execute_audit [of b "eq_lease_id q" "eq_purpose q" "eq_now q" sha hm fr "eq_token q" "eq_time q" "eq_arguments q"]
    by (auto simp: execute_op_def split: if_splits)
qed (simp_all add: register_def register_adapter_def revoke_def Let_def split: option.splits)

interpretation broker: audit_client "broker_step sha hm fr" bk_audit sha hm fr for sha hm fr
proof
  fix op s
  note cs = broker_step_audit [of sha hm fr op s]
  show "chain_valid sha hm fr (bk_audit s) \<Longrightarrow> chain_valid sha hm fr (bk_audit (broker_step sha hm fr op s))"
    using cs one_receipt_valid by metis
  show "signing_key (bk_audit (broker_step sha hm fr op s)) = signing_key (bk_audit s) \<and>
      prefix (receipts (bk_audit s)) (receipts (bk_audit (broker_step sha hm fr op s)))"
    using cs one_receipt_extends by (metis prefix_order.refl)
qed

section \<open>Invariant and use count\<close>

definition lease_ok :: "str \<Rightarrow> lease_record \<Rightarrow> bool" where
  "lease_ok lid r \<longleftrightarrow> lease_id (lease r) = lid \<and> 0 \<le> remaining_uses r \<and> remaining_uses r \<le> max_uses (lease r) \<and>
     max_uses (lease r) \<le> 10 \<and> lr_material r \<noteq> [] \<and> (remaining_uses r = 0 \<longrightarrow> revoked r)"

definition broker_inv :: "broker \<Rightarrow> bool" where
  "broker_inv b \<longleftrightarrow> (\<forall>lid r. dget (bk_leases b) lid = Some r \<longrightarrow> lease_ok lid r) \<and>
     (\<forall>ref m. dget (bk_secrets b) ref = Some m \<longrightarrow> m \<noteq> [])"

lemma broker_inv_new: "broker_inv (new_broker c)"
  by (simp add: broker_inv_def new_broker_def)

lemma lease_ok_consume: "lease_ok lid r \<Longrightarrow> 0 < remaining_uses r \<Longrightarrow> lease_ok lid (consume r)"
  by (auto simp: lease_ok_def)

lemma lease_ok_revoked: "lease_ok lid r \<Longrightarrow> lease_ok lid (r\<lparr>revoked := True\<rparr>)"
  by (simp add: lease_ok_def)

lemma broker_inv_execute:
  assumes "broker_inv b"
  shows "broker_inv (snd (execute sha hm fr token ts b lid purpose arguments now))"
proof (cases "adapter_called b lid purpose now")
  case True
  then obtain r where r: "dget (bk_leases b) lid = Some r" "0 < remaining_uses r"
    by (auto simp: adapter_called_def split: option.splits)
  then have "lease_ok lid (consume r)" using assms lease_ok_consume by (auto simp: broker_inv_def)
  then show ?thesis using execute_called_state [OF r(1) True, of sha hm fr token ts arguments] assms
    by (simp add: broker_inv_def)
next
  case False
  from execute_refused [OF False, of sha hm fr token ts arguments]
  obtain e b' where b': "execute sha hm fr token ts b lid purpose arguments now = (Inl e, b')"
    "bk_secrets b' = bk_secrets b" "bk_leases b' = bk_leases b \<or>
     (\<exists>r. dget (bk_leases b) lid = Some r \<and> bk_leases b' = dset lid (r\<lparr>revoked := True\<rparr>) (bk_leases b))" by blast
  then show ?thesis using assms lease_ok_revoked by (auto simp: broker_inv_def split: if_splits)
qed

lemma broker_inv_request:
  assumes "broker_inv b"
  shows "broker_inv (snd (request_lease sha hm fr b q))"
  using assms
  by (auto simp: request_lease_def Let_def case_prod_unfold broker_inv_def lease_ok_def split: option.splits)

lemma broker_inv_step [inv_intros]: "broker_inv b \<Longrightarrow> broker_inv (broker_step sha hm fr op b)"
proof (cases op)
  case (Revoke lid)
  assume "broker_inv b"
  then show ?thesis using Revoke lease_ok_revoked
    by (auto simp: revoke_def broker_inv_def split: option.splits if_splits)
next
  case (RequestLease q)
  assume "broker_inv b"
  then show ?thesis using RequestLease by (simp add: broker_inv_request)
next
  case (Execute q)
  assume "broker_inv b"
  then show ?thesis using Execute by (simp add: broker_inv_execute execute_op_def)
qed (auto simp: register_def register_adapter_def Let_def broker_inv_def)

lemma broker_inv_run: "broker_inv b \<Longrightarrow> broker_inv (fold (broker_step sha hm fr) ops b)"
  by (induction ops arbitrary: b) (simp_all add: broker_inv_step)

text \<open>How often a history calls an adapter on a lease.\<close>

fun adapter_calls ::
  "(bytes \<Rightarrow> str) \<Rightarrow> (bytes \<Rightarrow> bytes \<Rightarrow> str) \<Rightarrow> (pyval \<Rightarrow> str) \<Rightarrow> str \<Rightarrow> broker_op list \<Rightarrow> broker \<Rightarrow> nat" where
  "adapter_calls sha hm fr lid [] b = 0"
| "adapter_calls sha hm fr lid (op # ops) b =
     (case op of
        Execute q \<Rightarrow> if eq_lease_id q = lid \<and> adapter_called b lid (eq_purpose q) (eq_now q) then 1 else 0
      | _ \<Rightarrow> 0) + adapter_calls sha hm fr lid ops (broker_step sha hm fr op b)"

definition reissues :: "str \<Rightarrow> broker_op \<Rightarrow> bool" where
  "reissues lid op = (case op of RequestLease q \<Rightarrow> lq_lease_id q = lid | _ \<Rightarrow> False)"

lemma step_keeps_lease:
  assumes r: "dget (bk_leases b) lid = Some r" and op: "\<not> reissues lid op"
  shows "\<exists>r'. dget (bk_leases (broker_step sha hm fr op b)) lid = Some r' \<and>
    (r' = r \<or> r' = r\<lparr>revoked := True\<rparr> \<or>
     (\<exists>q. op = Execute q \<and> eq_lease_id q = lid \<and> adapter_called b lid (eq_purpose q) (eq_now q) \<and> r' = consume r))"
proof (cases op)
  case (Execute q)
  show ?thesis
  proof (cases "adapter_called b (eq_lease_id q) (eq_purpose q) (eq_now q)")
    case True
    then obtain r0 where r0: "dget (bk_leases b) (eq_lease_id q) = Some r0"
      by (auto simp: adapter_called_def split: option.splits)
    from execute_called_state [OF r0 True, of sha hm fr "eq_token q" "eq_time q" "eq_arguments q"] r r0 True Execute
    show ?thesis by (cases "eq_lease_id q = lid") (auto simp: execute_op_def)
  next
    case False
    from execute_refused [OF False, of sha hm fr "eq_token q" "eq_time q" "eq_arguments q"] r Execute
    show ?thesis by (auto simp: execute_op_def)
  qed
next
  case (RequestLease q)
  with op have "lq_lease_id q \<noteq> lid" by (simp add: reissues_def)
  then have "dget (bk_leases (snd (request_lease sha hm fr b q))) lid = dget (bk_leases b) lid"
    by (simp add: request_lease_def Let_def case_prod_unfold split: option.splits)
  with r RequestLease show ?thesis by simp
next
  case (Revoke l)
  with r show ?thesis by (auto simp: revoke_def split: option.splits)
qed (use r in \<open>auto simp: register_def register_adapter_def Let_def\<close>)

lemma calls_bounded:
  assumes "broker_inv b" "dget (bk_leases b) lid = Some r" "list_all (\<lambda>op. \<not> reissues lid op) ops"
  shows "int (adapter_calls sha hm fr lid ops b) \<le> (if revoked r then 0 else remaining_uses r)"
  using assms
proof (induction ops arbitrary: b r)
  case Nil
  then show ?case by (auto simp: broker_inv_def lease_ok_def)
next
  case (Cons op ops)
  let ?b = "broker_step sha hm fr op b"
  have inv: "broker_inv ?b" by (rule broker_inv_step [OF Cons.prems(1)])
  have ok: "lease_ok lid r" using Cons.prems(1,2) by (auto simp: broker_inv_def)
  obtain r' where r': "dget (bk_leases ?b) lid = Some r'" and
    ch: "r' = r \<or> r' = r\<lparr>revoked := True\<rparr> \<or>
     (\<exists>q. op = Execute q \<and> eq_lease_id q = lid \<and> adapter_called b lid (eq_purpose q) (eq_now q) \<and> r' = consume r)"
    using step_keeps_lease [OF Cons.prems(2), of op sha hm fr] Cons.prems(3) by auto
  from Cons.IH [OF inv r'] Cons.prems(3)
  have IH: "int (adapter_calls sha hm fr lid ops ?b) \<le> (if revoked r' then 0 else remaining_uses r')" by simp
  show ?case
  proof (cases "\<exists>q. op = Execute q \<and> eq_lease_id q = lid \<and> adapter_called b lid (eq_purpose q) (eq_now q)")
    case True
    then obtain q where q: "op = Execute q" "eq_lease_id q = lid" "adapter_called b lid (eq_purpose q) (eq_now q)"
      by blast
    then have nr: "\<not> revoked r" "0 < remaining_uses r" using Cons.prems(2) by (auto simp: adapter_called_def)
    have "bk_leases ?b = dset lid (consume r) (bk_leases b)"
      using execute_called_state [OF Cons.prems(2) q(3)] q by (simp add: execute_op_def)
    then have "r' = consume r" using r' by simp
    with IH nr q show ?thesis by (auto split: if_splits)
  next
    case False
    then have "adapter_calls sha hm fr lid (op # ops) b = adapter_calls sha hm fr lid ops ?b"
      by (cases op) auto
    moreover have "r' = r \<or> r' = r\<lparr>revoked := True\<rparr>" using ch False by blast
    ultimately show ?thesis using IH ok by (auto simp: lease_ok_def)
  qed
qed

section \<open>Properties\<close>

text \<open>C15: a lease is used at most as often as it was granted, and never more than ten times, whatever sequence
  of registrations, leases (with fresh ids), executions and revocations follows on any broker that started
  empty; a revoked lease is never used.\<close>
theorem lease_use_bounded:
  assumes "dget (bk_leases (fold (broker_step sha hm fr) before (new_broker c))) lid = Some r"
    and "list_all (\<lambda>op. \<not> reissues lid op) after"
  shows "int (adapter_calls sha hm fr lid after (fold (broker_step sha hm fr) before (new_broker c)))
      \<le> (if revoked r then 0 else remaining_uses r) \<and>
    remaining_uses r \<le> max_uses (lease r) \<and> max_uses (lease r) \<le> 10"
proof -
  have inv: "broker_inv (fold (broker_step sha hm fr) before (new_broker c))"
    by (rule broker_inv_run [OF broker_inv_new])
  then have "lease_ok lid r" using assms(1) by (auto simp: broker_inv_def)
  with calls_bounded [OF inv assms] show ?thesis by (simp add: lease_ok_def)
qed

text \<open>C16: an output that the broker returns holds the secret nowhere: not in any of its strings, keys or byte
  strings, nor in its JSON text, which has at most one MiB.\<close>
theorem returned_output_is_safe:
  assumes "dget (bk_leases b) lid = Some r"
    and "fst (execute sha hm fr token ts b lid purpose arguments now) = Inr out"
  shows "list_all (\<lambda>t. \<not> sublist (lr_material r) t) (texts out) \<and>
    \<not> sublist (lr_material r) (json_default fr out) \<and> length (json_default fr out) \<le> 1048576"
proof -
  have called: "adapter_called b lid purpose now"
    using assms(2) execute_refused [of b lid purpose now sha hm fr token ts arguments] by fastforce
  then obtain a where a: "dget (bk_adapters b) purpose = Some a"
    using assms(1) by (auto simp: adapter_called_def)
  have "output_check fr out (lr_material r) = None"
    using assms(2) unfolding execute_called [OF assms(1) a called] Let_def
    by (auto split: sum.splits option.splits)
  then show ?thesis by (rule output_check_None)
qed

text \<open>an execution that reaches the adapter uses up one use and leaves exactly one receipt, with one
  exception: when the output holds a string that UTF-8 cannot encode, the use is spent and the error escapes
  without a receipt. An execution that is refused leaves none.\<close>
theorem consumption_receipts:
  "let res = execute sha hm fr token ts b lid purpose arguments now
   in if adapter_called b lid purpose now
      then map_option remaining_uses (dget (bk_leases (snd res)) lid) =
             map_option (\<lambda>r. remaining_uses r - 1) (dget (bk_leases b) lid) \<and>
           length (receipts (bk_audit (snd res))) =
             length (receipts (bk_audit b)) + (if fst res = Inl UnicodeEncodeError then 0 else 1)
      else receipts (bk_audit (snd res)) = receipts (bk_audit b) \<and> (\<exists>e. fst res = Inl e)"
proof (cases "adapter_called b lid purpose now")
  case True
  then obtain r where r: "dget (bk_leases b) lid = Some r" by (auto simp: adapter_called_def split: option.splits)
  from execute_called_state [OF r True, of sha hm fr token ts arguments]
    execute_audit [of b lid purpose now sha hm fr token ts arguments] True r one_receipt_extends
  show ?thesis by (auto simp: Let_def split: if_splits)
next
  case False
  from execute_refused [OF False, of sha hm fr token ts arguments] False show ?thesis by auto
qed

section \<open>A concrete lease\<close>

definition key_policy :: project_policy where
  "key_policy = \<lparr>p_resource = U ''secret://k'', p_actions = {U ''secret.use''}, p_scopes = [[42]],
     p_environments = {U ''sandbox''}, p_network_destinations = {}, p_egress_destinations = {},
     p_exportable_classifications = {}\<rparr>"

definition key_grant :: capability_grant where
  "key_grant = \<lparr>capability_id = U ''g'', g_subject = U ''agent'', g_resource = U ''secret://k'',
     g_actions = {U ''secret.use''}, g_scopes = [[42]], g_environments = {U ''sandbox''},
     g_network_destinations = {}, g_egress_destinations = {}, g_exportable_classifications = {},
     issued_at = 0, expires_at = 100, max_risk = 1, requires_human_approval = False\<rparr>"

definition key_request :: lease_request where
  "key_request = \<lparr>lq_token = U ''1'', lq_time = U ''t'', lq_lease_id = U ''lease_1'', lq_subject = U ''agent'',
     lq_secret_ref = U ''secret://k'', lq_purpose = U ''sign'', lq_verified = True, lq_policy = key_policy,
     lq_grants = [key_grant], lq_risk = None, lq_approved = False, lq_now = 0, lq_ttl = 60, lq_max_uses = 1\<rparr>"

definition key_ops :: "broker_op list" where
  "key_ops = [Register (U ''secret://k'') (MStr (U ''hunter2'')),
     RegisterAdapter (U ''sign'') (\<lambda>mat args. Inr (PStr (U ''ok''))), RequestLease key_request]"

definition key_execute :: execute_request where
  "key_execute = \<lparr>eq_token = U ''2'', eq_time = U ''t'', eq_lease_id = U ''lease_1'', eq_purpose = U ''sign'',
     eq_arguments = [], eq_now = 10\<rparr>"

definition key_record :: lease_record where
  "key_record = \<lparr>lease = \<lparr>lease_id = U ''lease_1'', secret_ref = U ''secret://k'', lease_subject = U ''agent'',
       lease_purpose = U ''sign'', lease_expires_at = 60000000, max_uses = 1\<rparr>,
     lr_material = utf8 (U ''hunter2''), lr_capability_ids = [U ''g''], lr_risk = 0, remaining_uses = 1, revoked = False\<rparr>"

definition key_broker :: broker where
  "key_broker = fold (broker_step (\<lambda>_. []) (\<lambda>_ _. []) ratio_text) key_ops (new_broker \<lparr>signing_key = [], receipts = []\<rparr>)"

lemma root_scope: "scope_allows [] [[42]]"
  by code_simp

lemma key_decision:
  "evaluate (secret_request (U ''agent'') (U ''secret://k'')) True key_policy [key_grant] None [] False 0 =
     \<lparr>pd_decision = ALLOW, pd_reasons = [U ''all_security_predicates_satisfied''],
      pd_capability_ids = [U ''g''], pd_risk = 0\<rparr>"
  by (simp add: evaluate_def secret_request_def key_policy_def key_grant_def Let_def root_scope destination_allows_def
      check_flow_def matching_grants_def grant_matches_def grant_flow_allows_def is_active_def no_risk_def
      maximum_def decide_selected_def)

lemma hunter_bytes: "utf8 (U ''hunter2'') = [104, 117, 110, 116, 101, 114, 50]"
  by code_simp

lemma secret_prefix: "startswith (U ''secret://k'') (U ''secret://'')"
  by code_simp

lemma key_broker_lease: "dget (bk_leases key_broker) (U ''lease_1'') = Some key_record"
  by (simp add: key_broker_def key_ops_def register_def secret_prefix material_bytes_def hunter_bytes
      register_adapter_def din_dget new_broker_def request_lease_def key_request_def authorize_def key_decision
      Let_def case_prod_unfold allowed_def key_record_def)

lemma key_broker_adapter:
  "dget (bk_adapters key_broker) (U ''sign'') = Some (\<lambda>mat args. Inr (PStr (U ''ok'')))"
  by (simp add: key_broker_def key_ops_def register_def secret_prefix material_bytes_def hunter_bytes
      register_adapter_def din_dget new_broker_def request_lease_def key_request_def authorize_def key_decision
      Let_def case_prod_unfold allowed_def)

theorem lease_use_bounded_witness:
  "adapter_calls (\<lambda>_. []) (\<lambda>_ _. []) ratio_text (U ''lease_1'') [Execute key_execute, Execute key_execute] key_broker \<le> 1"
proof -
  have "list_all (\<lambda>op. \<not> reissues (U ''lease_1'') op) [Execute key_execute, Execute key_execute]"
    by (simp add: reissues_def)
  from lease_use_bounded [OF key_broker_lease [unfolded key_broker_def] this]
  show ?thesis unfolding key_broker_def by (simp add: key_record_def)
qed

lemma ok_bytes: "utf8 (U ''ok'') = [111, 107]" "json_default ratio_text (PStr (U ''ok'')) = [34, 111, 107, 34]"
  by (simp_all add: U_def utf8_def utf8_cp_def json_default_def json_str_def json_cp_def)

lemma key_output: "output_check ratio_text (PStr (U ''ok'')) (utf8 (U ''hunter2'')) = None"
  by (simp add: output_check_def assert_safe_output_def enter_def text_check_def encodable_def hunter_bytes
      ok_bytes sublist_Cons_right)

theorem returned_output_is_safe_witness:
  "fst (execute_op (\<lambda>_. []) (\<lambda>_ _. []) ratio_text key_broker key_execute) = Inr (PStr (U ''ok'')) \<and>
   \<not> sublist (utf8 (U ''hunter2'')) (json_default ratio_text (PStr (U ''ok'')))"
proof -
  have called: "adapter_called key_broker (U ''lease_1'') (U ''sign'') 10"
    by (simp add: adapter_called_def key_broker_lease key_broker_adapter) (simp add: key_record_def)
  have m: "lr_material key_record = utf8 (U ''hunter2'')" by (simp add: key_record_def)
  have run: "fst (execute (\<lambda>_. []) (\<lambda>_ _. []) ratio_text (U ''2'') (U ''t'') key_broker (U ''lease_1'') (U ''sign'') [] 10) =
      Inr (PStr (U ''ok''))"
    unfolding execute_called [OF key_broker_lease key_broker_adapter called] Let_def m by (simp add: key_output)
  from returned_output_is_safe [OF key_broker_lease run] run show ?thesis
    by (simp add: execute_op_def key_execute_def m)
qed

end
