(* ===== verification/MythosFiles.thy ===== *)
theory MythosFiles
  imports PyRegex
begin

text \<open>
  The local write discipline of \<^verbatim>\<open>mythos_runtime\<close>: \<^verbatim>\<open>StrictWriteDiscipline\<close> (\<^verbatim>\<open>swd.py\<close>), the
  receipt ledger \<^verbatim>\<open>MemoryLedger\<close> (\<^verbatim>\<open>memory.py\<close>) and \<^verbatim>\<open>DriftDetector\<close> (\<^verbatim>\<open>drift.py\<close>). The
  directory under the root is a dictionary from relative paths to nodes; the ledger file is the list
  of its records. SHA-256 is a parameter; the creation stamp of a receipt, which is never read, is
  left out.
\<close>

section \<open>Disk and paths\<close>

datatype node = RegularFile bytes | Directory | Symlink

type_synonym disk = "(str, node) dict"

datatype file_error = BadRelativePath | AmbiguousSegment | SymlinkTraversal | NotRegular | SnapshotTooLarge
  | WriteTooLarge | EncodeError | OSFailure | KeyMissing | LedgerSymlink | LedgerLimits | UnknownSchema

text \<open>\<^verbatim>\<open>re.fullmatch\<close>: some way of matching uses up the text.\<close>

definition rx_fullmatch :: "rx \<Rightarrow> str \<Rightarrow> bool" where
  "rx_fullmatch r s = list_ex (\<lambda>st. snd st = []) (ends r (None, s))"

definition com_lpt :: rx where
  "com_lpt = cat [alt [RLitI ''COM'', RLitI ''LPT''], RSet False [CRange 49 57], opt (cat [RLit ''.'', star RAny])]"

definition bad_segment :: "str \<Rightarrow> bool" where
  "bad_segment seg \<longleftrightarrow> seg \<in> {[], [46], [46, 46]} \<or> 58 \<in> set seg \<or> endswith seg [32] \<or> endswith seg [46] \<or>
     lower seg \<in> {U ''.git'', U ''.ethos-aegis''} \<or>
     upper (takeWhile (\<lambda>c. c \<noteq> 46) seg) \<in> {U ''CON'', U ''PRN'', U ''AUX'', U ''NUL''} \<or>
     rx_fullmatch com_lpt seg"

definition drive_prefix :: "str \<Rightarrow> bool" where
  "drive_prefix v = (case v of a # b # _ \<Rightarrow> is_alpha a \<and> b = 58 | _ \<Rightarrow> False)"

text \<open>The target and its ancestors below the root, nearest first.\<close>

definition ancestry :: "str list \<Rightarrow> str list" where
  "ancestry segs = map (\<lambda>n. join [47] (take n segs)) (rev [1..<Suc (length segs)])"

definition target :: "disk \<Rightarrow> str \<Rightarrow> file_error + str list" where
  "target d path =
     (let raw = replace_char 92 47 path
      in if raw = [] \<or> 1024 < length raw \<or> startswith raw [47] \<or> drive_prefix raw \<or> list_ex (\<lambda>c. c < 32) raw
         then Inl BadRelativePath
         else
           (let segs = split_on 47 raw
            in if list_ex bad_segment segs then Inl AmbiguousSegment
               else if list_ex (\<lambda>p. dget d p = Some Symlink) (ancestry segs) then Inl SymlinkTraversal
               else Inr segs))"

section \<open>Snapshots\<close>

record file_snapshot =
  fs_path :: str
  fs_exists :: bool
  fs_size :: "nat option"
  fs_sha256 :: "str option"

definition max_bytes :: nat where
  "max_bytes = 8 * 1024 * 1024"

definition snapshot_one :: "(bytes \<Rightarrow> str) \<Rightarrow> disk \<Rightarrow> str \<Rightarrow> file_error + file_snapshot" where
  "snapshot_one sha d path =
     (case target d path of
        Inl e \<Rightarrow> Inl e
      | Inr segs \<Rightarrow>
          (let relative = join [47] segs
           in (case dget d relative of
                 None \<Rightarrow> Inr \<lparr>fs_path = relative, fs_exists = False, fs_size = None, fs_sha256 = None\<rparr>
               | Some (RegularFile content) \<Rightarrow>
                   (if max_bytes < length content then Inl SnapshotTooLarge
                    else Inr \<lparr>fs_path = relative, fs_exists = True, fs_size = Some (length content),
                             fs_sha256 = Some (sha content)\<rparr>)
               | Some other \<Rightarrow> Inl NotRegular)))"

fun snapshot :: "(bytes \<Rightarrow> str) \<Rightarrow> disk \<Rightarrow> str list \<Rightarrow> (str, file_snapshot) dict \<Rightarrow> file_error + (str, file_snapshot) dict" where
  "snapshot sha d [] result = Inr result"
| "snapshot sha d (p # ps) result =
     (case snapshot_one sha d p of
        Inl e \<Rightarrow> Inl e
      | Inr s \<Rightarrow> snapshot sha d ps (dset (fs_path s) s result))"

section \<open>The receipt ledger\<close>

record write_event =
  we_path :: str
  we_action :: str
  we_before :: "str option"
  we_after :: "str option"

datatype ledger_line = VerifiedWrite write_event | OverlongLine | AlienRecord

record memory_ledger =
  ml_symlinked :: bool \<comment> \<open>the ledger or its parent directory is a symbolic link\<close>
  ml_lines :: "ledger_line list"

definition append_verified :: "memory_ledger \<Rightarrow> write_event \<Rightarrow> file_error + memory_ledger" where
  "append_verified l e =
     (if ml_symlinked l then Inl LedgerSymlink else Inr (l\<lparr>ml_lines := ml_lines l @ [VerifiedWrite e]\<rparr>))"

fun read_lines :: "nat \<Rightarrow> ledger_line list \<Rightarrow> file_error + write_event list" where
  "read_lines index [] = Inr []"
| "read_lines index (l # ls) =
     (if 100000 \<le> index \<or> l = OverlongLine then Inl LedgerLimits
      else (case l of
              VerifiedWrite e \<Rightarrow> (case read_lines (Suc index) ls of Inl err \<Rightarrow> Inl err | Inr es \<Rightarrow> Inr (e # es))
            | _ \<Rightarrow> Inl UnknownSchema))"

text \<open>A ledger that does not exist yet has no lines.\<close>

definition list_events :: "memory_ledger \<Rightarrow> file_error + write_event list" where
  "list_events l =
     (if ml_lines l = [] then Inr []
      else if ml_symlinked l then Inl LedgerSymlink
      else read_lines 0 (ml_lines l))"

section \<open>Verified writes\<close>

record verification_report =
  vr_ok :: bool
  vr_action :: str
  vr_verified :: bool
  vr_before :: file_snapshot
  vr_after :: file_snapshot
  vr_detail :: str
  vr_dry_run :: bool

text \<open>\<^verbatim>\<open>mkdir(parents=True, exist_ok=True)\<close> for the ancestors of the target.\<close>

definition make_parents :: "disk \<Rightarrow> str list \<Rightarrow> file_error + disk" where
  "make_parents d segs =
     (let ps = rev (tl (ancestry segs))
      in if list_ex (\<lambda>p. case dget d p of Some (RegularFile _) \<Rightarrow> True | _ \<Rightarrow> False) ps then Inl OSFailure
         else Inr (foldl (\<lambda>d p. if dget d p = None then dset p Directory d else d) d ps))"

record workspace =
  ws_disk :: disk
  ws_ledger :: "memory_ledger option"

definition snapshot_path :: "(bytes \<Rightarrow> str) \<Rightarrow> disk \<Rightarrow> str \<Rightarrow> file_error + file_snapshot" where
  \<comment> \<open>\<^verbatim>\<open>self.snapshot([relative])[relative]\<close>\<close>
  "snapshot_path sha d relative =
     (case snapshot sha d [relative] [] of
        Inl e \<Rightarrow> Inl e
      | Inr res \<Rightarrow> (case dget res relative of None \<Rightarrow> Inl KeyMissing | Some s \<Rightarrow> Inr s))"

definition write_text ::
  "(bytes \<Rightarrow> str) \<Rightarrow> workspace \<Rightarrow> str \<Rightarrow> str \<Rightarrow> bool \<Rightarrow> (file_error + verification_report) \<times> workspace" where
  "write_text sha w path content dry_run =
     (case target (ws_disk w) path of
        Inl e \<Rightarrow> (Inl e, w)
      | Inr segs \<Rightarrow>
          (if \<not> list_all (\<lambda>c. c < 0xd800 \<or> 0xdfff < c) content then (Inl EncodeError, w)
           else if max_bytes < length (utf8 content) then (Inl WriteTooLarge, w)
           else
             (let relative = join [47] segs
              in (case snapshot_path sha (ws_disk w) relative of
                    Inl e \<Rightarrow> (Inl e, w)
                  | Inr old \<Rightarrow>
                      (let action = (if fs_exists old then U ''MODIFY'' else U ''CREATE'')
                       in if dry_run then
                            (Inr \<lparr>vr_ok = False, vr_action = action, vr_verified = False, vr_before = old,
                                  vr_after = old, vr_detail = U ''dry-run: write not executed'', vr_dry_run = True\<rparr>, w)
                          else
                            (case make_parents (ws_disk w) segs of
                               Inl e \<Rightarrow> (Inl e, w)
                             | Inr d \<Rightarrow>
                                 (case target d relative of
                                    Inl e \<Rightarrow> (Inl e, w\<lparr>ws_disk := d\<rparr>)
                                  | Inr _ \<Rightarrow>
                                      (let d = dset relative (RegularFile (utf8 content)) d;
                                           w = w\<lparr>ws_disk := d\<rparr>
                                       in (case snapshot_path sha d relative of
                                             Inl e \<Rightarrow> (Inl e, w)
                                           | Inr new \<Rightarrow>
                                               (let changed = (fs_exists new \<and> (\<not> fs_exists old \<or> fs_sha256 old \<noteq> fs_sha256 new));
                                                    report = \<lparr>vr_ok = changed, vr_action = action, vr_verified = changed,
                                                      vr_before = old, vr_after = new,
                                                      vr_detail = (if changed then U ''verified''
                                                         else U ''unchanged content: claim not verified''),
                                                      vr_dry_run = False\<rparr>
                                                in (case ws_ledger w of
                                                      Some l \<Rightarrow>
                                                        (if changed then
                                                           (case append_verified l \<lparr>we_path = relative, we_action = action,
                                                                 we_before = fs_sha256 old, we_after = fs_sha256 new\<rparr> of
                                                              Inl e \<Rightarrow> (Inl e, w)
                                                            | Inr l' \<Rightarrow> (Inr report, w\<lparr>ws_ledger := Some l'\<rparr>))
                                                         else (Inr report, w))
                                                    | None \<Rightarrow> (Inr report, w))))))))))))"

section \<open>Drift\<close>

record drift_result =
  dr_verified :: "str list"
  dr_drifted :: "str list"
  dr_missing :: "str list"

definition expected_of :: "write_event list \<Rightarrow> (str, str) dict" where
  "expected_of es = foldl (\<lambda>d e. case we_after e of Some digest \<Rightarrow> dset (we_path e) digest d | None \<Rightarrow> d) [] es"

text \<open>Value and operating system errors of a snapshot count as drift; a missing key is not caught.\<close>

definition scan_path :: "(bytes \<Rightarrow> str) \<Rightarrow> disk \<Rightarrow> str \<Rightarrow> str \<Rightarrow> drift_result \<Rightarrow> file_error + drift_result" where
  "scan_path sha d path digest r =
     (case snapshot_path sha d path of
        Inl KeyMissing \<Rightarrow> Inl KeyMissing
      | Inl e \<Rightarrow> Inr (r\<lparr>dr_drifted := dr_drifted r @ [path]\<rparr>)
      | Inr item \<Rightarrow>
          (if \<not> fs_exists item then Inr (r\<lparr>dr_missing := dr_missing r @ [path]\<rparr>)
           else if fs_sha256 item = Some digest then Inr (r\<lparr>dr_verified := dr_verified r @ [path]\<rparr>)
           else Inr (r\<lparr>dr_drifted := dr_drifted r @ [path]\<rparr>)))"

fun scan_paths :: "(bytes \<Rightarrow> str) \<Rightarrow> disk \<Rightarrow> (str, str) dict \<Rightarrow> drift_result \<Rightarrow> file_error + drift_result" where
  "scan_paths sha d [] r = Inr r"
| "scan_paths sha d ((path, digest) # rest) r =
     (case scan_path sha d path digest r of Inl e \<Rightarrow> Inl e | Inr r' \<Rightarrow> scan_paths sha d rest r')"

definition drift_scan :: "(bytes \<Rightarrow> str) \<Rightarrow> disk \<Rightarrow> memory_ledger \<Rightarrow> file_error + drift_result" where
  "drift_scan sha d l =
     (case list_events l of
        Inl e \<Rightarrow> Inl e
      | Inr es \<Rightarrow> scan_paths sha d (expected_of es) \<lparr>dr_verified = [], dr_drifted = [], dr_missing = []\<rparr>)"

text \<open>The exit code of the command line tool.\<close>

definition drift_exit_code :: "bool \<Rightarrow> drift_result \<Rightarrow> nat" where
  "drift_exit_code ledger_exists r =
     (if \<not> ledger_exists \<or> (dr_verified r = [] \<and> dr_drifted r = [] \<and> dr_missing r = []) then 2
      else if dr_drifted r \<noteq> [] \<or> dr_missing r \<noteq> [] then 1 else 0)"

section \<open>Targets\<close>

text \<open>A path that names itself and passes every check but that for links.\<close>

definition relative_path :: "str \<Rightarrow> bool" where
  "relative_path p \<longleftrightarrow> p \<noteq> [] \<and> length p \<le> 1024 \<and> 92 \<notin> set p \<and> \<not> startswith p [47] \<and> \<not> drive_prefix p \<and>
     list_all (\<lambda>c. 32 \<le> c) p \<and> list_all (\<lambda>s. \<not> bad_segment s) (split_on 47 p)"

lemma replace_none: "a \<notin> set s \<Longrightarrow> map (\<lambda>c. if c = a then b else c) s = s"
  by (induction s) auto

lemma replace_gone: "a \<noteq> b \<Longrightarrow> a \<notin> set (map (\<lambda>c. if c = a then b else c) s)"
  by (induction s) auto

lemma target_relative:
  assumes "target d path = Inr segs"
  shows "relative_path (join [47] segs) \<and> split_on 47 (join [47] segs) = segs \<and>
    (\<forall>p \<in> set (ancestry segs). dget d p \<noteq> Some Symlink)"
proof -
  let ?raw = "replace_char 92 47 path"
  have segs: "segs = split_on 47 ?raw" and ok: "?raw \<noteq> []" "length ?raw \<le> 1024" "\<not> startswith ?raw [47]"
    "\<not> drive_prefix ?raw" "\<not> list_ex (\<lambda>c. c < 32) ?raw" "\<not> list_ex bad_segment segs"
    "\<not> list_ex (\<lambda>p. dget d p = Some Symlink) (ancestry segs)"
    using assms by (auto simp: target_def Let_def split: if_splits)
  have raw: "join [47] segs = ?raw" unfolding segs by (rule join_split_on)
  have "92 \<notin> set ?raw" unfolding replace_char_def by (rule replace_gone) simp
  then show ?thesis using ok segs raw
    by (auto simp: relative_path_def list_all_iff list_ex_iff not_less)
qed

lemma target_of_relative:
  assumes "relative_path p" "\<forall>q \<in> set (ancestry (split_on 47 p)). dget d q \<noteq> Some Symlink"
  shows "target d p = Inr (split_on 47 p)"
  using assms
  by (auto simp: target_def relative_path_def replace_char_def replace_none Let_def list_all_iff list_ex_iff)

lemma join_self: "split_on 47 p = segs \<Longrightarrow> join [47] segs = p"
  using join_split_on by metis

lemma snapshot_path_eq:
  assumes "target d p = Inr segs" "join [47] segs = p"
  shows "snapshot_path sha d p = snapshot_one sha d p"
  using assms by (auto simp: snapshot_path_def snapshot_one_def Let_def split: option.splits node.splits)

end
