(* ===== verification/MythosDrift.thy ===== *)
theory MythosDrift
  imports MythosFiles
begin

text \<open>
  What the write discipline and the drift detector of \<^verbatim>\<open>mythos_runtime\<close> promise together: accepted
  targets stay inside the project, a report is positive exactly when the stored content changed, the
  ledger reads back what was appended to it, and a scan of a ledger that only verified writes filled
  raises no alarm until somebody else touches a recorded file.
\<close>

section \<open>Growing disks\<close>

text \<open>Making parents only adds directories where nothing was.\<close>

definition grows :: "disk \<Rightarrow> disk \<Rightarrow> bool" where
  "grows d d' \<longleftrightarrow> (\<forall>p. dget d' p = dget d p \<or> (dget d p = None \<and> dget d' p = Some Directory))"

lemma grows_refl [simp]: "grows d d"
  by (simp add: grows_def)

lemma growsD: "grows d d' \<Longrightarrow> dget d p = Some n \<Longrightarrow> dget d' p = Some n"
  by (metis grows_def option.distinct(1))

lemma grows_Symlink: "grows d d' \<Longrightarrow> dget d' p = Some Symlink \<Longrightarrow> dget d p = Some Symlink"
  by (metis grows_def node.distinct(6) option.inject)

lemma grows_mkdir: "dget d p = None \<Longrightarrow> grows d (dset p Directory d)"
  by (auto simp: grows_def)

lemma grows_trans: "grows d d' \<Longrightarrow> grows d' d'' \<Longrightarrow> grows d d''"
  unfolding grows_def by (metis (no_types))

lemma grows_fold: "grows d (foldl (\<lambda>d p. if dget d p = None then dset p Directory d else d) d ps)"
  by (induction ps arbitrary: d) (auto intro: grows_trans grows_mkdir)

lemma make_parents_grows: "make_parents d segs = Inr d' \<Longrightarrow> grows d d'"
  by (auto simp: make_parents_def Let_def grows_fold split: if_splits)

section \<open>The shape of a write\<close>

definition receipted :: "str \<Rightarrow> str \<Rightarrow> memory_ledger \<Rightarrow> memory_ledger \<Rightarrow> bool" where
  "receipted p digest l l' \<longleftrightarrow> (\<exists>e. we_path e = p \<and> we_after e = Some digest \<and>
     l' = l\<lparr>ml_lines := ml_lines l @ [VerifiedWrite e]\<rparr>)"

lemma receiptedI [simp]:
  "receipted p digest l (l\<lparr>ml_lines := ml_lines l @ [VerifiedWrite
     \<lparr>we_path = p, we_action = a, we_before = b, we_after = Some digest\<rparr>]\<rparr>)"
  unfolding receipted_def by (rule exI [of _ "\<lparr>we_path = p, we_action = a, we_before = b, we_after = Some digest\<rparr>"]) simp

text \<open>What a write that got as far as the disk left there.\<close>

definition stored ::
  "(bytes \<Rightarrow> str) \<Rightarrow> workspace \<Rightarrow> str \<Rightarrow> bytes \<Rightarrow> (file_error + verification_report) \<times> workspace \<Rightarrow> bool" where
  "stored sha w p bs out \<longleftrightarrow> (\<exists>d. grows (ws_disk w) d \<and> ws_disk (snd out) = dset p (RegularFile bs) d) \<and>
     relative_path p \<and> length bs \<le> max_bytes \<and>
     (\<forall>q \<in> set (ancestry (split_on 47 p)). dget (ws_disk (snd out)) q \<noteq> Some Symlink) \<and>
     (let same = (case dget (ws_disk w) p of Some (RegularFile c) \<Rightarrow> sha c = sha bs | _ \<Rightarrow> False)
      in (\<forall>report. fst out = Inr report \<longrightarrow> vr_ok report = (\<not> same)) \<and>
         (case ws_ledger w of
            None \<Rightarrow> ws_ledger (snd out) = None \<and> is_ok (fst out)
          | Some l \<Rightarrow>
              if same then ws_ledger (snd out) = Some l \<and> is_ok (fst out)
              else if ml_symlinked l then ws_ledger (snd out) = Some l \<and> fst out = Inl LedgerSymlink
              else is_ok (fst out) \<and>
                (\<exists>l'. ws_ledger (snd out) = Some l' \<and> receipted p (sha bs) l l')))"

definition untouched :: "workspace \<Rightarrow> (file_error + verification_report) \<times> workspace \<Rightarrow> bool" where
  "untouched w out \<longleftrightarrow> grows (ws_disk w) (ws_disk (snd out)) \<and> ws_ledger (snd out) = ws_ledger w \<and>
     (\<forall>report. fst out = Inr report \<longrightarrow> vr_dry_run report \<and> \<not> vr_ok report)"

lemma snapshot_one_Inr:
  assumes "target d p = Inr segs" "join [47] segs = p" "snapshot_one sha d p = Inr s"
  shows "fs_exists s = (dget d p \<noteq> None) \<and> fs_path s = p \<and>
    (dget d p = None \<and> fs_sha256 s = None \<or>
     (\<exists>c. dget d p = Some (RegularFile c) \<and> length c \<le> max_bytes \<and> fs_sha256 s = Some (sha c)))"
  using assms by (auto simp: snapshot_one_def Let_def split: option.splits node.splits if_splits)

lemma snapshot_one_file:
  "target d p = Inr segs \<Longrightarrow> join [47] segs = p \<Longrightarrow> dget d p = Some (RegularFile c) \<Longrightarrow> length c \<le> max_bytes \<Longrightarrow>
    snapshot_one sha d p = Inr \<lparr>fs_path = p, fs_exists = True, fs_size = Some (length c), fs_sha256 = Some (sha c)\<rparr>"
  by (simp add: snapshot_one_def Let_def)

lemma write_text_store:
  assumes t: "target (ws_disk w) path = Inr segs" and p: "p = join [47] segs"
    and enc: "list_all (\<lambda>c. c < 0xd800 \<or> 0xdfff < c) content" "length (utf8 content) \<le> max_bytes"
    and old: "snapshot_path sha (ws_disk w) p = Inr old"
    and mk: "make_parents (ws_disk w) segs = Inr d"
  shows "stored sha w p (utf8 content) (write_text sha w path content False)"
proof -
  have rel: "relative_path p" "split_on 47 p = segs" and
    ns: "\<forall>q \<in> set (ancestry segs). dget (ws_disk w) q \<noteq> Some Symlink"
    using target_relative [OF t] p by auto
  have self: "join [47] segs = p" using p by simp
  have g: "grows (ws_disk w) d" using mk by (rule make_parents_grows)
  have ns1: "\<forall>q \<in> set (ancestry segs). dget d q \<noteq> Some Symlink" using ns g grows_Symlink by blast
  have t1: "target d p = Inr segs" using target_of_relative [OF rel(1)] ns1 rel(2) by simp
  let ?d' = "dset p (RegularFile (utf8 content)) d"
  have ns2: "\<forall>q \<in> set (ancestry segs). dget ?d' q \<noteq> Some Symlink" using ns1 by simp
  have t2: "target ?d' p = Inr segs" using target_of_relative [OF rel(1)] ns2 rel(2) by simp
  have new: "snapshot_path sha ?d' p =
      Inr \<lparr>fs_path = p, fs_exists = True, fs_size = Some (length (utf8 content)), fs_sha256 = Some (sha (utf8 content))\<rparr>"
    unfolding snapshot_path_eq [OF t2 self] by (rule snapshot_one_file [OF t2 self]) (simp_all add: enc)
  have t0: "target (ws_disk w) p = Inr segs" using target_of_relative [OF rel(1)] ns rel(2) by simp
  have old1: "snapshot_one sha (ws_disk w) p = Inr old" using old unfolding snapshot_path_eq [OF t0 self] .
  define same where "same = (case dget (ws_disk w) p of Some (RegularFile c) \<Rightarrow> sha c = sha (utf8 content) | _ \<Rightarrow> False)"
  have changed: "(\<not> fs_exists old \<or> fs_sha256 old \<noteq> Some (sha (utf8 content))) = (\<not> same)"
    using snapshot_one_Inr [OF t0 self old1] unfolding same_def by auto
  show ?thesis
    using t enc old mk t1 new changed g rel ns2 unfolding stored_def same_def [symmetric]
    by (auto simp: write_text_def Let_def self append_verified_def split: option.splits)
qed

lemma write_text_shape:
  "untouched w (write_text sha w path content dry) \<or>
    (\<not> dry \<and> (\<exists>segs. target (ws_disk w) path = Inr segs \<and>
       stored sha w (join [47] segs) (utf8 content) (write_text sha w path content dry)))"
proof (cases "target (ws_disk w) path")
  case (Inr segs)
  note t = this
  let ?p = "join [47] segs"
  show ?thesis
  proof (cases "\<not> dry \<and> list_all (\<lambda>c. c < 0xd800 \<or> 0xdfff < c) content \<and> length (utf8 content) \<le> max_bytes \<and>
      is_ok (snapshot_path sha (ws_disk w) ?p) \<and> is_ok (make_parents (ws_disk w) segs)")
    case True
    then obtain old d where "snapshot_path sha (ws_disk w) ?p = Inr old" "make_parents (ws_disk w) segs = Inr d"
      by (auto simp: is_ok_def split: sum.splits)
    with True write_text_store [OF t refl] show ?thesis using t by auto
  next
    case False
    then have "untouched w (write_text sha w path content dry)"
      by (auto simp: untouched_def write_text_def t Let_def is_ok_def split: sum.splits)
    then show ?thesis ..
  qed
qed (auto simp: untouched_def write_text_def)

lemma mem_split_on: "s \<in> set (split_on c t) \<Longrightarrow> set s \<subseteq> set t"
proof (induction c t arbitrary: s rule: split_on.induct)
  case (2 d c s')
  then show ?case by (cases "split_on d s'") (fastforce split: if_splits)+
qed simp

section \<open>Reading the ledger back\<close>

lemma read_lines_writes:
  "read_lines i (map VerifiedWrite es) = (if es = [] \<or> i + length es \<le> 100000 then Inr es else Inl LedgerLimits)"
proof (induction es arbitrary: i)
  case (Cons e es)
  show ?case by (auto simp: Cons.IH)
qed simp

lemma expected_snoc:
  "expected_of (es @ [e]) = (case we_after e of Some digest \<Rightarrow> dset (we_path e) digest (expected_of es) | None \<Rightarrow> expected_of es)"
  by (simp add: expected_of_def split: option.split)

lemma dict_ok_expected [simp]: "dict_ok (expected_of es)"
  by (induction es rule: rev_induct) (auto simp: expected_snoc expected_of_def dict_ok_dset split: option.splits)

lemma dget_of_mem: "dict_ok d \<Longrightarrow> (k, v) \<in> set d \<Longrightarrow> dget d k = Some v"
  by (simp add: dict_ok_def dget_def)

section \<open>What a scan reports\<close>

datatype drift_status = Verified | Drifted | Missing

definition drift_status_of :: "(bytes \<Rightarrow> str) \<Rightarrow> disk \<Rightarrow> str \<Rightarrow> str \<Rightarrow> drift_status" where
  "drift_status_of sha d p digest =
     (if list_ex (\<lambda>q. dget d q = Some Symlink) (ancestry (split_on 47 p)) then Drifted
      else (case dget d p of
              None \<Rightarrow> Missing
            | Some (RegularFile c) \<Rightarrow> if length c \<le> max_bytes \<and> sha c = digest then Verified else Drifted
            | _ \<Rightarrow> Drifted))"

definition with_status :: "(bytes \<Rightarrow> str) \<Rightarrow> disk \<Rightarrow> drift_status \<Rightarrow> (str, str) dict \<Rightarrow> str list" where
  "with_status sha d s expected = map fst (filter (\<lambda>(p, digest). drift_status_of sha d p digest = s) expected)"

lemma with_status_simps [simp]:
  "with_status sha d s [] = []"
  "with_status sha d s ((p, g) # es) = (if drift_status_of sha d p g = s then p # with_status sha d s es else with_status sha d s es)"
  by (simp_all add: with_status_def)

lemma scan_path_status:
  assumes "relative_path p"
  shows "scan_path sha d p g r =
    Inr (case drift_status_of sha d p g of
           Verified \<Rightarrow> r\<lparr>dr_verified := dr_verified r @ [p]\<rparr>
         | Drifted \<Rightarrow> r\<lparr>dr_drifted := dr_drifted r @ [p]\<rparr>
         | Missing \<Rightarrow> r\<lparr>dr_missing := dr_missing r @ [p]\<rparr>)"
proof (cases "list_ex (\<lambda>q. dget d q = Some Symlink) (ancestry (split_on 47 p))")
  case True
  then have "target d p = Inl SymlinkTraversal"
    using assms by (auto simp: target_def relative_path_def replace_char_def replace_none Let_def list_all_iff list_ex_iff)
  then have "snapshot_path sha d p = Inl SymlinkTraversal" by (simp add: snapshot_path_def snapshot_one_def)
  with True show ?thesis by (simp add: scan_path_def drift_status_of_def)
next
  case False
  then have t: "target d p = Inr (split_on 47 p)" using target_of_relative [OF assms] by (auto simp: list_ex_iff)
  have j: "join [47] (split_on 47 p) = p" by (rule join_split_on)
  show ?thesis
    using False t j unfolding scan_path_def snapshot_path_eq [OF t j]
    by (auto simp: snapshot_one_def drift_status_of_def not_le split: option.splits node.splits)
qed

lemma scan_paths_status:
  assumes "\<forall>(p, g) \<in> set es. relative_path p"
  shows "scan_paths sha d es r = Inr \<lparr>dr_verified = dr_verified r @ with_status sha d Verified es,
    dr_drifted = dr_drifted r @ with_status sha d Drifted es, dr_missing = dr_missing r @ with_status sha d Missing es\<rparr>"
  using assms
proof (induction es arbitrary: r)
  case (Cons e es)
  then show ?case
    by (cases e) (auto simp: scan_path_status split: drift_status.splits)
qed simp

section \<open>Ledgers filled by verified writes\<close>

definition recorded :: "(bytes \<Rightarrow> str) \<Rightarrow> disk \<Rightarrow> str \<Rightarrow> str \<Rightarrow> bool" where
  "recorded sha d p g \<longleftrightarrow> relative_path p \<and> drift_status_of sha d p g = Verified"

definition ledger_inv :: "(bytes \<Rightarrow> str) \<Rightarrow> workspace \<Rightarrow> bool" where
  "ledger_inv sha w \<longleftrightarrow> (\<exists>es. ws_ledger w = Some \<lparr>ml_symlinked = False, ml_lines = map VerifiedWrite es\<rparr> \<and>
     (\<forall>(p, g) \<in> set (expected_of es). recorded sha (ws_disk w) p g))"

lemma ledger_invI:
  "ws_ledger w = Some \<lparr>ml_symlinked = False, ml_lines = map VerifiedWrite es\<rparr> \<Longrightarrow>
    (\<And>p g. (p, g) \<in> set (expected_of es) \<Longrightarrow> recorded sha (ws_disk w) p g) \<Longrightarrow> ledger_inv sha w"
  unfolding ledger_inv_def by blast

lemma recorded_grows: "recorded sha d p g \<Longrightarrow> grows d d' \<Longrightarrow> recorded sha d' p g"
  unfolding recorded_def drift_status_of_def
  by (auto simp: list_ex_iff split: option.splits node.splits if_splits dest: growsD grows_Symlink)

lemma recorded_stored:
  assumes "recorded sha d p g" "q = p \<Longrightarrow> sha bs = g" "length bs \<le> max_bytes"
  shows "recorded sha (dset q (RegularFile bs) d) p g"
  using assms unfolding recorded_def drift_status_of_def
  by (auto simp: list_ex_iff split: option.splits node.splits if_splits)

lemma mem_dset: "dict_ok d \<Longrightarrow> x \<in> set (dset k v d) \<Longrightarrow> x = (k, v) \<or> (x \<in> set d \<and> fst x \<noteq> k)"
  by (cases x) (metis dget_of_mem dict_ok_dset dget_dset dget_def map_of_SomeD option.inject fst_conv)

lemma ledger_inv_store:
  assumes inv: "ledger_inv sha w" and st: "stored sha w p bs out"
  shows "ledger_inv sha (snd out)"
proof -
  obtain es where l: "ws_ledger w = Some \<lparr>ml_symlinked = False, ml_lines = map VerifiedWrite es\<rparr>"
    and rec: "\<And>q g. (q, g) \<in> set (expected_of es) \<Longrightarrow> recorded sha (ws_disk w) q g"
    using inv by (auto simp: ledger_inv_def)
  obtain d where g: "grows (ws_disk w) d" and d: "ws_disk (snd out) = dset p (RegularFile bs) d"
    and p: "relative_path p" "length bs \<le> max_bytes"
    and ns: "\<forall>q \<in> set (ancestry (split_on 47 p)). dget (ws_disk (snd out)) q \<noteq> Some Symlink"
    using st by (auto simp: stored_def)
  define same where "same = (case dget (ws_disk w) p of Some (RegularFile c) \<Rightarrow> sha c = sha bs | _ \<Rightarrow> False)"
  have others: "recorded sha (ws_disk (snd out)) q h" if "(q, h) \<in> set (expected_of es)" "p = q \<Longrightarrow> sha bs = h" for q h
    unfolding d by (rule recorded_stored [OF recorded_grows [OF rec [OF that(1)] g]]) (use that p in auto)
  have this_one: "recorded sha (ws_disk (snd out)) p (sha bs)"
    using p ns unfolding recorded_def drift_status_of_def by (simp add: d list_ex_iff)
  show ?thesis
  proof (cases same)
    case True
    have "sha bs = h" if "(p, h) \<in> set (expected_of es)" for h
      using rec [OF that] True unfolding recorded_def drift_status_of_def same_def
      by (auto split: option.splits node.splits if_splits)
    moreover have "ws_ledger (snd out) = ws_ledger w" using st True l unfolding stored_def same_def [symmetric] by simp
    ultimately show ?thesis using l by (intro ledger_invI [of _ es] others) auto
  next
    case False
    then obtain l' where "ws_ledger (snd out) = Some l'"
      "receipted p (sha bs) \<lparr>ml_symlinked = False, ml_lines = map VerifiedWrite es\<rparr> l'"
      using st l unfolding stored_def same_def [symmetric] by auto
    then obtain e where e: "we_path e = p" "we_after e = Some (sha bs)"
      and l': "ws_ledger (snd out) = Some \<lparr>ml_symlinked = False, ml_lines = map VerifiedWrite (es @ [e])\<rparr>"
      by (auto simp: receipted_def)
    have "recorded sha (ws_disk (snd out)) q h" if "(q, h) \<in> set (expected_of (es @ [e]))" for q h
      using mem_dset [OF dict_ok_expected that [unfolded expected_snoc e option.case]] others this_one by auto
    then show ?thesis by (rule ledger_invI [OF l'])
  qed
qed

lemma ledger_inv_write [inv_intros]:
  assumes "ledger_inv sha w"
  shows "ledger_inv sha (snd (write_text sha w path content dry))"
  using write_text_shape [of w sha path content dry]
proof
  assume "untouched w (write_text sha w path content dry)"
  then show ?thesis using assms recorded_grows by (fastforce simp: untouched_def ledger_inv_def)
qed (use ledger_inv_store assms in blast)

definition write_all :: "(bytes \<Rightarrow> str) \<Rightarrow> (str \<times> str \<times> bool) list \<Rightarrow> workspace \<Rightarrow> workspace" where
  "write_all sha ops w = foldl (\<lambda>w (path, content, dry). snd (write_text sha w path content dry)) w ops"

lemma ledger_inv_write_all: "ledger_inv sha w \<Longrightarrow> ledger_inv sha (write_all sha ops w)"
  unfolding write_all_def by (induction ops arbitrary: w) (auto intro: ledger_inv_write)

definition fresh_workspace :: "disk \<Rightarrow> workspace" where
  "fresh_workspace d = \<lparr>ws_disk = d, ws_ledger = Some \<lparr>ml_symlinked = False, ml_lines = []\<rparr>\<rparr>"

lemma ledger_inv_fresh: "ledger_inv sha (fresh_workspace d)"
  unfolding ledger_inv_def fresh_workspace_def by (rule exI [of _ "[]"]) (simp add: expected_of_def)

lemma scan_of_inv:
  assumes "ledger_inv sha w"
  shows "\<exists>es. ws_ledger w = Some \<lparr>ml_symlinked = False, ml_lines = map VerifiedWrite es\<rparr> \<and>
    (\<forall>d. drift_scan sha d \<lparr>ml_symlinked = False, ml_lines = map VerifiedWrite es\<rparr> =
       (if length es \<le> 100000 then
          Inr \<lparr>dr_verified = with_status sha d Verified (expected_of es),
               dr_drifted = with_status sha d Drifted (expected_of es),
               dr_missing = with_status sha d Missing (expected_of es)\<rparr>
        else Inl LedgerLimits)) \<and>
    (\<forall>(p, g) \<in> set (expected_of es). recorded sha (ws_disk w) p g)"
proof -
  obtain es where l: "ws_ledger w = Some \<lparr>ml_symlinked = False, ml_lines = map VerifiedWrite es\<rparr>"
    and rec: "\<forall>(p, g) \<in> set (expected_of es). recorded sha (ws_disk w) p g"
    using assms by (auto simp: ledger_inv_def)
  have rel: "\<forall>(p, g) \<in> set (expected_of es). relative_path p" using rec by (auto simp: recorded_def)
  have "drift_scan sha d \<lparr>ml_symlinked = False, ml_lines = map VerifiedWrite es\<rparr> =
       (if length es \<le> 100000 then
          Inr \<lparr>dr_verified = with_status sha d Verified (expected_of es),
               dr_drifted = with_status sha d Drifted (expected_of es),
               dr_missing = with_status sha d Missing (expected_of es)\<rparr>
        else Inl LedgerLimits)" for d
    using rel by (auto simp: drift_scan_def list_events_def read_lines_writes scan_paths_status)
  with l rec show ?thesis by blast
qed

lemma with_status_recorded:
  assumes "\<forall>(p, g) \<in> set es. recorded sha d p g"
  shows "with_status sha d Verified es = dkeys es" "with_status sha d Drifted es = []" "with_status sha d Missing es = []"
  using assms by (induction es) (auto simp: recorded_def dkeys_def)

section \<open>Properties\<close>

text \<open>C17: an accepted target is a chain of plain segments below the project root: none is empty, a dot or two
  dots, none is the version control or the evidence directory in any case, none names a drive or stream, and no
  node on the way is a symbolic link; the name it is known by is accepted again and names the same node.\<close>
theorem target_contained:
  assumes "target d path = Inr segs"
  shows "segs \<noteq> [] \<and> list_all (\<lambda>s. s \<notin> {[], U ''.'', U ''..''} \<and> lower s \<notin> {U ''.git'', U ''.ethos-aegis''} \<and>
      58 \<notin> set s \<and> 47 \<notin> set s \<and> 92 \<notin> set s) segs \<and>
    list_all (\<lambda>q. dget d q \<noteq> Some Symlink) (ancestry segs) \<and> target d (join [47] segs) = Inr segs"
proof -
  let ?p = "join [47] segs"
  have t: "relative_path ?p" "split_on 47 ?p = segs" and ns: "\<forall>p \<in> set (ancestry segs). dget d p \<noteq> Some Symlink"
    using target_relative [OF assms] by auto
  have good: "s \<in> set segs \<Longrightarrow> \<not> bad_segment s" for s using t by (auto simp: relative_path_def list_all_iff)
  have slash: "s \<in> set segs \<Longrightarrow> 47 \<notin> set s" for s using split_on_no_sep t(2) by metis
  have bsl: "s \<in> set segs \<Longrightarrow> 92 \<notin> set s" for s
    using t mem_split_on [of s 47 ?p] by (auto simp: relative_path_def)
  have ne: "segs \<noteq> []" using split_on_not_Nil t(2) by metis
  have again: "target d ?p = Inr segs" using target_of_relative [OF t(1)] t(2) ns by simp
  from ne again ns good slash bsl show ?thesis by (auto simp: list_all_iff bad_segment_def U_def)
qed

text \<open>C18: a write that is not a dry run and returns a report has stored exactly the UTF-8 text under the
  accepted name, has left every other regular file alone, and is reported as verified exactly when the
  digest of the file changed (or there was no file).\<close>
theorem write_report_true:
  assumes "write_text sha w path content False = (Inr report, w')"
  shows "\<exists>segs. target (ws_disk w) path = Inr segs \<and>
    (let p = join [47] segs
     in dget (ws_disk w') p = Some (RegularFile (utf8 content)) \<and>
        (\<forall>q c. q \<noteq> p \<longrightarrow> dget (ws_disk w) q = Some (RegularFile c) \<longrightarrow> dget (ws_disk w') q = Some (RegularFile c)) \<and>
        vr_ok report = (case dget (ws_disk w) p of
                          Some (RegularFile c) \<Rightarrow> sha c \<noteq> sha (utf8 content)
                        | _ \<Rightarrow> True))"
proof -
  have nd: "\<not> vr_dry_run report" using assms
    by (auto simp: write_text_def Let_def split: sum.splits if_splits option.splits)
  then have "\<not> untouched w (write_text sha w path content False)" using assms by (simp add: untouched_def)
  then obtain segs where t: "target (ws_disk w) path = Inr segs"
    and st: "stored sha w (join [47] segs) (utf8 content) (Inr report, w')"
    using write_text_shape [of w sha path content False] assms by auto
  show ?thesis
    using t st unfolding stored_def Let_def
    by (intro exI [of _ segs] conjI) (auto dest: growsD split: option.splits node.splits)
qed

text \<open>C19: whatever sequence of writes (accepted, refused, dry or repeated) runs over any directory, starting with
  an empty ledger, every receipt can be read back and a scan verifies every recorded path and alarms on none,
  until the ledger holds more than 100,000 receipts: from then on every scan fails.\<close>
theorem no_false_drift:
  "let w = write_all sha ops (fresh_workspace d0)
   in \<exists>es. ws_ledger w = Some \<lparr>ml_symlinked = False, ml_lines = map VerifiedWrite es\<rparr> \<and>
        list_events \<lparr>ml_symlinked = False, ml_lines = map VerifiedWrite es\<rparr> =
          (if length es \<le> 100000 then Inr es else Inl LedgerLimits) \<and>
        drift_scan sha (ws_disk w) \<lparr>ml_symlinked = False, ml_lines = map VerifiedWrite es\<rparr> =
          (if length es \<le> 100000 then Inr \<lparr>dr_verified = dkeys (expected_of es), dr_drifted = [], dr_missing = []\<rparr>
           else Inl LedgerLimits)"
proof -
  let ?w = "write_all sha ops (fresh_workspace d0)"
  obtain es where es: "ws_ledger ?w = Some \<lparr>ml_symlinked = False, ml_lines = map VerifiedWrite es\<rparr>"
    and scan: "drift_scan sha (ws_disk ?w) \<lparr>ml_symlinked = False, ml_lines = map VerifiedWrite es\<rparr> =
       (if length es \<le> 100000 then
          Inr \<lparr>dr_verified = with_status sha (ws_disk ?w) Verified (expected_of es),
               dr_drifted = with_status sha (ws_disk ?w) Drifted (expected_of es),
               dr_missing = with_status sha (ws_disk ?w) Missing (expected_of es)\<rparr>
        else Inl LedgerLimits)"
    and rec: "\<forall>(p, g) \<in> set (expected_of es). recorded sha (ws_disk ?w) p g"
    using scan_of_inv [OF ledger_inv_write_all [OF ledger_inv_fresh [of sha d0], of ops]] by blast
  show ?thesis
    unfolding Let_def by (rule exI [of _ es])
      (simp add: es scan with_status_recorded [OF rec] list_events_def read_lines_writes)
qed

text \<open>After any sequence of writes, and whatever happened to the directory since, a scan sorts every recorded
  path: verified when a regular file of at most eight MiB has the recorded digest, missing when nothing is
  there, drifted otherwise (another digest, a directory, a symbolic link on the way); the exit code is clean
  exactly when nothing drifted or is missing.\<close>
theorem scan_classifies:
  "let w = write_all sha ops (fresh_workspace d0)
   in \<exists>es. ws_ledger w = Some \<lparr>ml_symlinked = False, ml_lines = map VerifiedWrite es\<rparr> \<and>
        (100000 < length es \<or>
         (\<exists>r. drift_scan sha d \<lparr>ml_symlinked = False, ml_lines = map VerifiedWrite es\<rparr> = Inr r \<and>
            dr_verified r = [p. (p, g) \<leftarrow> expected_of es, drift_status_of sha d p g = Verified] \<and>
            dr_drifted r = [p. (p, g) \<leftarrow> expected_of es, drift_status_of sha d p g = Drifted] \<and>
            dr_missing r = [p. (p, g) \<leftarrow> expected_of es, drift_status_of sha d p g = Missing] \<and>
            (drift_exit_code True r = 0) =
              (expected_of es \<noteq> [] \<and> list_all (\<lambda>(p, g). drift_status_of sha d p g = Verified) (expected_of es))))"
proof -
  let ?w = "write_all sha ops (fresh_workspace d0)"
  have comp: "with_status sha d s ps = [p. (p, g) \<leftarrow> ps, drift_status_of sha d p g = s]" for s ps
    by (induction ps) auto
  have exit: "(with_status sha d Drifted ps = [] \<and> with_status sha d Missing ps = []) =
      list_all (\<lambda>(p, g). drift_status_of sha d p g = Verified) ps" for ps
  proof (induction ps)
    case (Cons e ps)
    then show ?case by (cases e; cases "drift_status_of sha d (fst e) (snd e)") auto
  qed simp
  have some: "with_status sha d Verified ps = [] \<Longrightarrow> with_status sha d Drifted ps = [] \<Longrightarrow>
      with_status sha d Missing ps = [] \<Longrightarrow> ps = []" for ps
    using exit [of ps] by (cases ps) auto
  obtain es where "ws_ledger ?w = Some \<lparr>ml_symlinked = False, ml_lines = map VerifiedWrite es\<rparr>"
    and "drift_scan sha d \<lparr>ml_symlinked = False, ml_lines = map VerifiedWrite es\<rparr> =
       (if length es \<le> 100000 then
          Inr \<lparr>dr_verified = with_status sha d Verified (expected_of es),
               dr_drifted = with_status sha d Drifted (expected_of es),
               dr_missing = with_status sha d Missing (expected_of es)\<rparr>
        else Inl LedgerLimits)"
    using scan_of_inv [OF ledger_inv_write_all [OF ledger_inv_fresh [of sha d0], of ops]] by blast
  then show ?thesis
    unfolding Let_def comp [symmetric]
    by (intro exI [of _ es]) (use exit [of "expected_of es"] some [of "expected_of es"] in \<open>auto simp: drift_exit_code_def\<close>)
qed

section \<open>Witnesses\<close>

lemma note_target: "target [] (U ''a/b'') = Inr [U ''a'', U ''b'']"
  by code_simp

theorem target_contained_witness:
  "[U ''a'', U ''b''] \<noteq> [] \<and> target [] (U ''a/b'') = Inr [U ''a'', U ''b''] \<and>
    target [] (join [47] [U ''a'', U ''b'']) = Inr [U ''a'', U ''b'']"
  using target_contained [OF note_target] note_target by blast

lemma note_bytes: "utf8 (U ''hi'') = [104, 105]" "join [47] [U ''a'', U ''b''] = U ''a/b''"
  "U ''a'' @ 47 # U ''b'' = U ''a/b''"
  by code_simp+

lemma note_parents: "make_parents [] [U ''a'', U ''b''] = Inr [(U ''a'', Directory)]"
  by code_simp

lemma note_write:
  "\<exists>report w'. write_text id (fresh_workspace []) (U ''a/b'') (U ''hi'') False = (Inr report, w')"
proof -
  let ?w = "fresh_workspace []" and ?p = "U ''a/b''"
  have d: "ws_disk ?w = []" by (simp add: fresh_workspace_def)
  have t: "target (ws_disk ?w) ?p = Inr [U ''a'', U ''b'']" unfolding d by (rule note_target)
  have p: "?p = join [47] [U ''a'', U ''b'']" by (rule note_bytes(2) [symmetric])
  have enc: "list_all (\<lambda>c. c < 0xd800 \<or> 0xdfff < c) (U ''hi'')" "length (utf8 (U ''hi'')) \<le> max_bytes"
    unfolding note_bytes(1) by (simp_all add: U_def max_bytes_def)
  have old: "snapshot_path id (ws_disk ?w) ?p =
      Inr \<lparr>fs_path = ?p, fs_exists = False, fs_size = None, fs_sha256 = None\<rparr>"
    unfolding d snapshot_path_eq [OF note_target note_bytes(2)]
    by (simp add: snapshot_one_def note_target note_bytes Let_def)
  have mk: "make_parents (ws_disk ?w) [U ''a'', U ''b''] = Inr [(U ''a'', Directory)]"
    unfolding d by (rule note_parents)
  have "stored id ?w ?p (utf8 (U ''hi'')) (write_text id ?w ?p (U ''hi'') False)"
    by (rule write_text_store [OF t p enc old mk])
  then have "is_ok (fst (write_text id ?w ?p (U ''hi'') False))"
    by (simp add: stored_def fresh_workspace_def Let_def)
  then show ?thesis by (cases "write_text id ?w ?p (U ''hi'') False") (auto simp: is_ok_def split: sum.splits)
qed

theorem write_report_true_witness:
  "\<exists>w' segs. target [] (U ''a/b'') = Inr segs \<and> snd (write_text id (fresh_workspace []) (U ''a/b'') (U ''hi'') False) = w' \<and>
     dget (ws_disk w') (join [47] segs) = Some (RegularFile (utf8 (U ''hi'')))"
proof -
  obtain report w' where run: "write_text id (fresh_workspace []) (U ''a/b'') (U ''hi'') False = (Inr report, w')"
    using note_write by blast
  show ?thesis using write_report_true [OF run] run by (auto simp: fresh_workspace_def Let_def)
qed

end
