(* ===== verification/PyJsonRead.thy ===== *)
theory PyJsonRead
  imports PyJson
begin

text \<open>
  \<^verbatim>\<open>json.loads\<close>: a reader for JSON texts as the standard library has it (strict strings, numbers by the
  grammar of \<^verbatim>\<open>json.scanner\<close>, later duplicates of a key win). The constants \<^verbatim>\<open>NaN\<close> and
  \<^verbatim>\<open>Infinity\<close>, which the model's floats cannot hold, are refused. Reading a text that \<^verbatim>\<open>json.dumps\<close>
  wrote, in the compact or the indented layout, gives the value back.
\<close>

section \<open>White space and strings\<close>

definition json_ws :: "nat \<Rightarrow> bool" where
  "json_ws c \<longleftrightarrow> c = 32 \<or> c = 9 \<or> c = 10 \<or> c = 13"

definition skip_ws :: "str \<Rightarrow> str" where
  "skip_ws s = dropWhile json_ws s"

definition hex_char :: "nat \<Rightarrow> bool" where
  "hex_char c \<longleftrightarrow> (48 \<le> c \<and> c \<le> 57) \<or> (65 \<le> c \<and> c \<le> 70) \<or> (97 \<le> c \<and> c \<le> 102)"

definition hex_value :: "nat \<Rightarrow> nat" where
  "hex_value c = (if c \<le> 57 then c - 48 else if c \<le> 70 then c - 55 else c - 87)"

definition hex4 :: "str \<Rightarrow> nat option" where
  "hex4 s = (if 4 \<le> length s \<and> list_all hex_char (take 4 s)
     then Some (foldl (\<lambda>a c. 16 * a + hex_value c) 0 (take 4 s)) else None)"

text \<open>One character of a string, escapes resolved.\<close>

fun json_char :: "str \<Rightarrow> (nat \<times> str) option" where
  "json_char [] = None"
| "json_char (c # r) =
     (if c < 32 then None
      else if c \<noteq> 92 then Some (c, r)
      else (case r of
              [] \<Rightarrow> None
            | k # r1 \<Rightarrow>
                (if k \<noteq> 117 then
                   (if k \<in> {34, 92, 47, 98, 102, 110, 114, 116} then Some (json_unescape k, r1) else None)
                 else
                   (case hex4 r1 of
                      None \<Rightarrow> None
                    | Some v \<Rightarrow>
                        (let r2 = drop 4 r1
                         in if 0xd800 \<le> v \<and> v < 0xdc00 \<and> take 2 r2 = [92, 117] then
                              (case hex4 (drop 2 r2) of
                                 None \<Rightarrow> None
                               | Some w \<Rightarrow>
                                   if 0xdc00 \<le> w \<and> w < 0xe000
                                   then Some (0x10000 + (v - 0xd800) * 0x400 + (w - 0xdc00), drop 6 r2)
                                   else Some (v, r2))
                            else Some (v, r2))))))"

lemma json_char_shorter: "json_char s = Some (c, r) \<Longrightarrow> length r < length s"
  by (cases s) (auto simp: json_char.simps(2) Let_def split: if_splits list.splits option.splits)

lemmas json_char_Cons = json_char.simps(2)

declare json_char.simps(2) [simp del]

text \<open>The rest of a string after its opening quote.\<close>

function json_chars :: "str \<Rightarrow> (str \<times> str) option" where
  "json_chars s =
     (case s of
        [] \<Rightarrow> None
      | c # r \<Rightarrow>
          if c = 34 then Some ([], r)
          else (case json_char s of
                  None \<Rightarrow> None
                | Some (d, r') \<Rightarrow> (case json_chars r' of None \<Rightarrow> None | Some (t, x) \<Rightarrow> Some (d # t, x))))"
  by pat_completeness auto

termination by (relation "measure length") (auto dest: json_char_shorter)

declare json_chars.simps [simp del]

lemma json_chars_shorter: "json_chars s = Some (t, x) \<Longrightarrow> length x < length s"
proof (induction s arbitrary: t x rule: json_chars.induct)
  case (1 s)
  show ?case
  proof (cases s)
    case Nil
    with "1.prems" show ?thesis by (simp add: json_chars.simps)
  next
    case (Cons c r)
    show ?thesis
    proof (cases "c = 34")
      case True
      with Cons "1.prems" show ?thesis by (simp add: json_chars.simps)
    next
      case False
      with Cons "1.prems" obtain d r' t' where d: "json_char s = Some (d, r')" "json_chars r' = Some (t', x)"
        by (auto simp: json_chars.simps [of "c # r"] split: option.splits)
      from "1.IH" [OF Cons False d(1) refl d(2)] json_char_shorter [OF d(1)] show ?thesis by simp
    qed
  qed
qed

section \<open>Numbers\<close>

definition ascii_digit :: "nat \<Rightarrow> bool" where
  "ascii_digit c \<longleftrightarrow> 48 \<le> c \<and> c \<le> 57"

definition int_part :: "str \<Rightarrow> str" where
  "int_part s = (case s of
     [] \<Rightarrow> []
   | c # r \<Rightarrow> if c = 48 then [c] else takeWhile ascii_digit s)"

definition frac_part :: "str \<Rightarrow> str" where
  "frac_part s = (case s of
     c # d # r \<Rightarrow> if c = 46 \<and> ascii_digit d then c # takeWhile ascii_digit (d # r) else []
   | _ \<Rightarrow> [])"

definition exp_part :: "str \<Rightarrow> str" where
  "exp_part s = (case s of
     e # r \<Rightarrow>
       (if e = 101 \<or> e = 69 then
          (let sgn = (case r of c # _ \<Rightarrow> if c = 43 \<or> c = 45 then [c] else [] | [] \<Rightarrow> []);
               ds = takeWhile ascii_digit (drop (length sgn) r)
           in if ds = [] then [] else e # sgn @ ds)
        else [])
   | [] \<Rightarrow> [])"

definition json_number :: "(str \<Rightarrow> pyfloat) \<Rightarrow> str \<Rightarrow> (pyval \<times> str) option" where
  "json_number fp s =
     (let sgn = (case s of c # _ \<Rightarrow> if c = 45 then [c] else [] | [] \<Rightarrow> []);
          r0 = drop (length sgn) s;
          ip = int_part r0;
          r1 = drop (length ip) r0;
          fr = frac_part r1;
          r2 = drop (length fr) r1;
          ex = exp_part r2;
          r3 = drop (length ex) r2
      in if ip = [] then None
         else if fr = [] \<and> ex = []
           then Some (PInt (if sgn = [] then int (digits_val ip) else - int (digits_val ip)), r3)
         else Some (PFloat (fp (sgn @ ip @ fr @ ex)), r3))"

section \<open>Values\<close>

text \<open>The first argument but one bounds the steps; \<open>json_loads\<close> gives twice the length of the text.\<close>

fun json_value :: "(str \<Rightarrow> pyfloat) \<Rightarrow> nat \<Rightarrow> str \<Rightarrow> (pyval \<times> str) option"
  and json_elements :: "(str \<Rightarrow> pyfloat) \<Rightarrow> nat \<Rightarrow> pyval list \<Rightarrow> str \<Rightarrow> (pyval \<times> str) option"
  and json_members :: "(str \<Rightarrow> pyfloat) \<Rightarrow> nat \<Rightarrow> (str, pyval) dict \<Rightarrow> str \<Rightarrow> (pyval \<times> str) option" where
  "json_value fp 0 s = None"
| "json_value fp (Suc n) s =
     (case s of
        [] \<Rightarrow> None
      | c # r \<Rightarrow>
          if c = 34 then map_option (\<lambda>(t, x). (PStr t, x)) (json_chars r)
          else if c = 123 then
            (let x = skip_ws r in if take 1 x = [125] then Some (PDict [], drop 1 x) else json_members fp n [] x)
          else if c = 91 then
            (let x = skip_ws r in if take 1 x = [93] then Some (PList [], drop 1 x) else json_elements fp n [] x)
          else if startswith s (U ''null'') then Some (PNone, drop 4 s)
          else if startswith s (U ''true'') then Some (PBool True, drop 4 s)
          else if startswith s (U ''false'') then Some (PBool False, drop 5 s)
          else json_number fp s)"
| "json_elements fp 0 acc s = None"
| "json_elements fp (Suc n) acc s =
     (case json_value fp n s of
        None \<Rightarrow> None
      | Some (v, r) \<Rightarrow>
          (case skip_ws r of
             [] \<Rightarrow> None
           | c # x \<Rightarrow>
               if c = 93 then Some (PList (acc @ [v]), x)
               else if c = 44 then json_elements fp n (acc @ [v]) (skip_ws x)
               else None))"
| "json_members fp 0 acc s = None"
| "json_members fp (Suc n) acc s =
     (case s of
        [] \<Rightarrow> None
      | q # r0 \<Rightarrow>
          if q \<noteq> 34 then None
          else (case json_chars r0 of
                  None \<Rightarrow> None
                | Some (key, r1) \<Rightarrow>
                    (case skip_ws r1 of
                       [] \<Rightarrow> None
                     | d # r2 \<Rightarrow>
                         if d \<noteq> 58 then None
                         else (case json_value fp n (skip_ws r2) of
                                 None \<Rightarrow> None
                               | Some (v, r) \<Rightarrow>
                                   (case skip_ws r of
                                      [] \<Rightarrow> None
                                    | c # x \<Rightarrow>
                                        if c = 125 then Some (PDict (dset key v acc), x)
                                        else if c = 44 then json_members fp n (dset key v acc) (skip_ws x)
                                        else None)))))"

definition json_loads :: "(str \<Rightarrow> pyfloat) \<Rightarrow> str \<Rightarrow> pyval option" where
  "json_loads fp s =
     (case json_value fp (2 * length s + 1) (skip_ws s) of
        None \<Rightarrow> None
      | Some (v, r) \<Rightarrow> if skip_ws r = [] then Some v else None)"

section \<open>Reading back strings and integers\<close>

lemma hex_digit_props: "d < 16 \<Longrightarrow> hex_char (hex_digit d) \<and> hex_value (hex_digit d) = d"
  by (auto simp: hex_char_def hex_value_def hex_digit_def)

lemma hex_w_chars: "list_all hex_char (hex_w k n)"
  by (induction k arbitrary: n) (auto simp: hex_digit_props)

lemma hex_w_value: "n < 16 ^ k \<Longrightarrow> foldl (\<lambda>a c. 16 * a + hex_value c) 0 (hex_w k n) = n"
proof (induction k arbitrary: n)
  case (Suc k)
  then have "foldl (\<lambda>a c. 16 * a + hex_value c) 0 (hex_w k (n div 16)) = n div 16" by (intro Suc.IH) auto
  then show ?case by (simp add: hex_digit_props)
qed simp

lemma hex4_hex_w: "n < 65536 \<Longrightarrow> hex4 (hex_w 4 n @ x) = Some n"
  using hex_w_value [of n 4] hex_w_chars [of 4 n] by (simp add: hex4_def del: hex_w.simps)

lemma json_char_u:
  "n < 65536 \<Longrightarrow> \<not> (0xd800 \<le> n \<and> n < 0xdc00) \<Longrightarrow> json_char (json_u n @ x) = Some (n, x)"
  by (auto simp: json_u_def json_char_Cons hex4_hex_w Let_def simp del: hex_w.simps)

lemma json_char_pair:
  assumes "m < 1024" "n < 1024"
  shows "json_char (json_u (0xd800 + m) @ json_u (0xdc00 + n) @ x) = Some (0x10000 + m * 0x400 + n, x)"
proof -
  have h: "hex4 (hex_w 4 (0xd800 + m) @ y) = Some (0xd800 + m)" "hex4 (hex_w 4 (0xdc00 + n) @ y) = Some (0xdc00 + n)" for y
    using assms by (intro hex4_hex_w; simp)+
  have l: "length (hex_w 4 k) = 4" for k by (rule hex_w_length)
  have "json_char (92 # 117 # hex_w 4 (0xd800 + m) @ 92 # 117 # hex_w 4 (0xdc00 + n) @ x) = Some (0x10000 + m * 0x400 + n, x)"
    unfolding json_char_Cons using assms by (simp add: h l Let_def del: hex_w.simps)
  then show ?thesis by (simp add: json_u_def del: hex_w.simps)
qed

lemma json_char_cp:
  assumes "scalar c"
  shows "json_char (json_cp c @ x) = Some (c, x)"
proof -
  consider "c < 65536" | "65536 \<le> c" by linarith
  then show ?thesis
  proof cases
    case 1
    with assms have u: "json_char (json_u c @ x) = Some (c, x)"
      by (intro json_char_u) (auto simp: scalar_def)
    show ?thesis unfolding json_cp_def using 1 u by (simp add: json_char_Cons json_unescape_def)
  next
    case 2
    let ?m = "(c - 65536) div 1024" and ?n = "(c - 65536) mod 1024"
    have c: "c - 65536 < 1048576" using assms 2 by (auto simp: scalar_def)
    then have m: "?m < 1024" "?n < 1024" by auto
    have "json_cp c = json_u (0xd800 + ?m) @ json_u (0xdc00 + ?n)"
      using 2 by (simp add: json_cp_def)
    moreover have "65536 + ?m * 1024 + ?n = c" using 2 by simp
    ultimately show ?thesis using json_char_pair [OF m, of x] by simp
  qed
qed

lemma json_chars_print:
  assumes "list_all scalar s"
  shows "json_chars (concat (map json_cp s) @ 34 # x) = Some (s, x)"
  using assms
proof (induction s)
  case Nil
  then show ?case by (simp add: json_chars.simps)
next
  case (Cons c s)
  let ?r = "concat (map json_cp s) @ 34 # x"
  obtain d r where dr: "json_cp c @ ?r = d # r" by (cases "json_cp c") auto
  with json_cp_hd [of c ?r] have "d \<noteq> 34" by simp
  moreover have "json_char (d # r) = Some (c, ?r)" using json_char_cp [of c ?r] Cons.prems dr by simp
  ultimately show ?case using Cons dr by (simp add: json_chars.simps [of "d # r"])
qed

text \<open>What may follow a value in a JSON text.\<close>

definition ends_json :: "str \<Rightarrow> bool" where
  "ends_json x \<longleftrightarrow> x = [] \<or> json_ws (hd x) \<or> hd x \<in> {44, 93, 125}"

lemma ends_json_no_digit:
  assumes "ends_json x"
  shows "takeWhile ascii_digit x = []" "frac_part x = []" "exp_part x = []"
  using assms by (cases x; auto simp: ends_json_def json_ws_def ascii_digit_def frac_part_def exp_part_def split: list.splits)+

lemma nat_digits_first: "nat_digits n = 48 # r \<Longrightarrow> r = []"
proof (induction n arbitrary: r rule: nat_digits.induct)
  case (1 n)
  show ?case
  proof (cases "n < 10")
    case True
    with 1 show ?thesis by (simp add: nat_digits.simps [of n])
  next
    case False
    then obtain d q where dq: "nat_digits (n div 10) = d # q" by (cases "nat_digits (n div 10)") auto
    with 1 False have "d = 48" by (simp add: nat_digits.simps [of n])
    with 1 False dq have "nat_digits (n div 10) = [48]" by simp
    then have "n div 10 = 0" using digits_val_nat_digits [of "n div 10"] by simp
    with False show ?thesis by simp
  qed
qed

lemma int_part_nat_str:
  assumes "ends_json x"
  shows "int_part (nat_str n @ x) = nat_str n"
proof (cases "nat_digits n")
  case (Cons d r)
  have ds: "list_all ascii_digit (nat_digits n)" using nat_digits_range by (auto simp: list_all_iff ascii_digit_def)
  then have tw: "takeWhile ascii_digit (nat_digits n @ x) = nat_digits n"
    using ends_json_no_digit(1) [OF assms] by (simp add: takeWhile_append list_all_iff)
  show ?thesis
  proof (cases "d = 48")
    case True
    with Cons nat_digits_first [of n r] show ?thesis by (simp add: nat_str_def int_part_def)
  next
    case False
    with Cons tw show ?thesis by (simp add: nat_str_def int_part_def)
  qed
qed simp

lemma json_number_int:
  assumes "ends_json x"
  shows "json_number fp (int_str n @ x) = Some (PInt n, x)"
proof -
  have val: "digits_val (nat_str m) = m" for m unfolding nat_str_def by (rule digits_val_nat_digits)
  have nil: "nat_str m \<noteq> []" for m by (simp add: nat_str_def)
  obtain d r where d: "nat_str (nat n) = d # r" "d \<noteq> 45"
    using nil [of "nat n"] nat_str_no_minus [of "nat n"] by (cases "nat_str (nat n)") auto
  note parts = int_part_nat_str [OF assms] ends_json_no_digit(2,3) [OF assms]
  show ?thesis
  proof (cases "n < 0")
    case True
    then show ?thesis by (simp add: json_number_def int_str_def Let_def parts nil val del: digits_val.simps)
  next
    case False
    then have "(case nat_str (nat n) @ x of [] \<Rightarrow> [] | c # _ \<Rightarrow> if c = 45 then [c] else []) = []" using d by simp
    with False show ?thesis
      by (simp add: json_number_def int_str_def Let_def parts nil val del: digits_val.simps)
  qed
qed

section \<open>Layouts\<close>

text \<open>
  \<open>json_lay fr nl sp ks l v\<close> is the text at nesting depth \<open>l\<close>, where \<open>nl\<close> gives the white space after
  an opening and before a closing bracket, \<open>sp\<close> that after a comma, and \<open>ks\<close> separates key and value; \<open>json_indented\<close> is
  \<^verbatim>\<open>json.dumps(v, sort_keys=True, indent=2)\<close>.
\<close>

fun json_lay :: "(pyval \<Rightarrow> str) \<Rightarrow> (nat \<Rightarrow> str) \<Rightarrow> (nat \<Rightarrow> str) \<Rightarrow> str \<Rightarrow> nat \<Rightarrow> pyval \<Rightarrow> str" where
  "json_lay fr nl sp ks l (PList vs) =
     (if vs = [] then [91, 93]
      else 91 # nl (Suc l) @ join (44 # sp (Suc l)) (map (json_lay fr nl sp ks (Suc l)) vs) @ nl l @ [93])"
| "json_lay fr nl sp ks l (PTuple vs) =
     (if vs = [] then [91, 93]
      else 91 # nl (Suc l) @ join (44 # sp (Suc l)) (map (json_lay fr nl sp ks (Suc l)) vs) @ nl l @ [93])"
| "json_lay fr nl sp ks l (PDict kvs) =
     (if kvs = [] then [123, 125]
      else 123 # nl (Suc l) @ join (44 # sp (Suc l)) (map (\<lambda>(key, t). json_str key @ ks @ t)
             (sort_key fst (map (\<lambda>(key, v). (key, json_lay fr nl sp ks (Suc l) v)) kvs))) @ nl l @ [125])"
| "json_lay fr nl sp ks l v = json_dumps fr [] [] v"

definition json_indented :: "(pyval \<Rightarrow> str) \<Rightarrow> pyval \<Rightarrow> bytes" where
  "json_indented fr v = (let nl = \<lambda>l. 10 # replicate (2 * l) 32 in json_lay fr nl nl [58, 32] 0 v)"

lemma json_lay_flat: "json_lay fr (\<lambda>l. []) (\<lambda>l. i) ks l v = json_dumps fr (44 # i) ks v"
proof (induction fr "\<lambda>l :: nat. [] :: str" "\<lambda>l :: nat. i" ks l v rule: json_lay.induct)
  case (1 fr ks l vs)
  then show ?case by (simp cong: map_cong)
next
  case (2 fr ks l vs)
  then show ?case by (simp cong: map_cong)
next
  case (3 fr ks l kvs)
  have "map (\<lambda>(key, v). (key, json_lay fr (\<lambda>l. []) (\<lambda>l. i) ks (Suc l) v)) kvs =
      map (\<lambda>(key, v). (key, json_dumps fr (44 # i) ks v)) kvs"
    using 3 by (cases "kvs = []") (auto intro!: map_cong)
  then show ?case unfolding json_lay.simps json_dumps.simps by (simp del: map_eq_conv)
qed simp_all

text \<open>What \<^verbatim>\<open>float(repr(x)) == x\<close> says of the two parameters.\<close>

definition float_reads :: "(pyval \<Rightarrow> str) \<Rightarrow> (str \<Rightarrow> pyfloat) \<Rightarrow> bool" where
  "float_reads fr fp \<longleftrightarrow> (\<forall>x r. ends_json r \<longrightarrow> json_number fp (fr (PFloat x) @ r) = Some (PFloat x, r))"

definition layout_ok :: "(nat \<Rightarrow> str) \<Rightarrow> (nat \<Rightarrow> str) \<Rightarrow> str \<Rightarrow> bool" where
  "layout_ok nl sp ks \<longleftrightarrow> (\<forall>l. list_all json_ws (nl l) \<and> list_all json_ws (sp l)) \<and> (\<exists>w. ks = 58 # w \<and> list_all json_ws w)"

lemma skip_ws_append: "list_all json_ws w \<Longrightarrow> skip_ws (w @ x) = skip_ws x"
  by (induction w) (auto simp: skip_ws_def)

lemma skip_ws_stop: "\<not> json_ws c \<Longrightarrow> skip_ws (c # x) = c # x"
  by (simp add: skip_ws_def)

lemma ends_json_ws: "list_all json_ws w \<Longrightarrow> c \<in> {44, 93, 125} \<Longrightarrow> ends_json (w @ c # x)"
  by (cases w) (auto simp: ends_json_def)

lemma json_number_first: "json_number fp s = Some p \<Longrightarrow> \<exists>c r. s = c # r \<and> (c = 45 \<or> ascii_digit c)"
  by (cases s) (auto simp: json_number_def Let_def int_part_def ascii_digit_def split: if_splits)

lemma json_value_number:
  assumes "json_number fp s = Some p"
  shows "json_value fp (Suc n) s = Some p"
  using json_number_first [OF assms] assms
  by (auto simp: ascii_digit_def startswith_def U_def)

lemma lay_first:
  assumes "float_reads fr fp" "plain v"
  shows "\<exists>c r. json_lay fr nl sp ks l v = c # r \<and> \<not> json_ws c \<and> c \<noteq> 93 \<and> c \<noteq> 125"
proof -
  have num: "\<exists>c r. t = c # r \<and> \<not> json_ws c \<and> c \<noteq> 93 \<and> c \<noteq> 125" if "json_number fp t = Some p" for t p
    using json_number_first [OF that] by (auto simp: json_ws_def ascii_digit_def)
  show ?thesis
  proof (cases v)
    case (PFloat x)
    then show ?thesis using assms(1) num [of "fr (PFloat x)"] by (simp add: float_reads_def ends_json_def)
  next
    case (PInt i)
    then show ?thesis using num [of "int_str i"] json_number_int [of "[]" fp i] by (simp add: ends_json_def)
  qed (use assms(2) in \<open>auto simp: U_def json_str_def json_ws_def\<close>)
qed

section \<open>Reading back a text\<close>

lemma elements_print:
  assumes ne: "vs \<noteq> []" and w: "list_all json_ws w" "list_all json_ws w'"
    and val: "\<And>v n x. v \<in> set vs \<Longrightarrow> 2 * length (f v) \<le> n \<Longrightarrow> ends_json x \<Longrightarrow>
        json_value fp n (f v @ x) = Some (g v, x)"
    and first: "\<And>v. v \<in> set vs \<Longrightarrow> \<exists>c r. f v = c # r \<and> \<not> json_ws c"
    and n: "2 * length (join (44 # w) (map f vs)) < n"
  shows "json_elements fp n acc (join (44 # w) (map f vs) @ w' @ 93 # x) = Some (PList (acc @ map g vs), x)"
  using ne val first n
proof (induction vs arbitrary: n acc)
  case (Cons v vs)
  obtain m where m: "n = Suc m" using Cons.prems(4) by (cases n) auto
  show ?case
  proof (cases vs)
    case Nil
    have "json_value fp m (f v @ w' @ 93 # x) = Some (g v, w' @ 93 # x)"
      by (rule Cons.prems(2)) (use Cons.prems(4) m Nil ends_json_ws [OF w(2)] in auto)
    then show ?thesis by (simp add: Nil m skip_ws_append [OF w(2)] skip_ws_stop json_ws_def)
  next
    case (Cons u us)
    let ?rest = "join (44 # w) (map f vs) @ w' @ 93 # x"
    have len: "2 * length (f v) \<le> m" "2 * length (join (44 # w) (map f vs)) < m"
      using Cons.prems(4) m Cons by auto
    have one: "json_value fp m (f v @ 44 # w @ ?rest) = Some (g v, 44 # w @ ?rest)"
      by (rule Cons.prems(2)) (use len in \<open>auto simp: ends_json_def\<close>)
    obtain c r where "f u = c # r" "\<not> json_ws c" using Cons.prems(3) [of u] Cons by auto
    then have stop: "skip_ws (w @ ?rest) = ?rest"
      unfolding skip_ws_append [OF w(1)] using Cons by (cases us) (auto simp: skip_ws_stop)
    have "json_elements fp m (acc @ [g v]) ?rest = Some (PList ((acc @ [g v]) @ map g vs), x)"
      by (rule Cons.IH [OF _ _ _ len(2)]) (use Cons.prems Cons in auto)
    with one stop Cons show ?thesis by (simp add: m skip_ws_stop json_ws_def)
  qed
qed simp

lemma members_print:
  assumes ne: "kvs \<noteq> []" and w: "list_all json_ws w" "list_all json_ws w'" "list_all json_ws kw"
    and val: "\<And>k v n x. (k, v) \<in> set kvs \<Longrightarrow> 2 * length (f v) \<le> n \<Longrightarrow> ends_json x \<Longrightarrow>
        json_value fp n (f v @ x) = Some (g v, x)"
    and first: "\<And>k v. (k, v) \<in> set kvs \<Longrightarrow> \<exists>c r. f v = c # r \<and> \<not> json_ws c"
    and keys: "\<And>k v. (k, v) \<in> set kvs \<Longrightarrow> list_all scalar k" "distinct (map fst acc @ map fst kvs)"
    and n: "2 * length (join (44 # w) (map (\<lambda>(k, v). json_str k @ (58 # kw) @ f v) kvs)) < n"
  shows "json_members fp n acc (join (44 # w) (map (\<lambda>(k, v). json_str k @ (58 # kw) @ f v) kvs) @ w' @ 125 # x) =
    Some (PDict (acc @ map (\<lambda>(k, v). (k, g v)) kvs), x)"
  using ne val first keys n
proof (induction kvs arbitrary: n acc)
  case (Cons kv kvs)
  let ?g = "\<lambda>(k, v). json_str k @ (58 # kw) @ f v"
  obtain m where m: "n = Suc m" using Cons.prems(6) by (cases n) auto
  obtain k v where kv: "kv = (k, v)" by (cases kv)
  have key: "json_chars (concat (map json_cp k) @ 34 # y) = Some (k, y)" for y
    using Cons.prems(4) [of k v] kv by (intro json_chars_print) auto
  obtain c r where "f v = c # r" "\<not> json_ws c" using Cons.prems(3) [of k v] kv by auto
  then have val_start: "skip_ws (kw @ f v @ y) = f v @ y" for y
    by (simp add: skip_ws_append [OF w(3)] skip_ws_stop)
  have colon: "skip_ws (58 # y) = 58 # y" for y by (simp add: skip_ws_stop json_ws_def)
  have "k \<notin> fst ` set acc" using Cons.prems(5) kv by auto
  then have new: "dset k u acc = acc @ [(k, u)]" for u by (intro dset_new) (auto simp: din_def dkeys_def)
  show ?case
  proof (cases kvs)
    case Nil
    have "json_value fp m (f v @ w' @ 125 # x) = Some (g v, w' @ 125 # x)"
      by (rule Cons.prems(2) [of k]) (use Cons.prems(6) m kv Nil ends_json_ws [OF w(2)] in auto)
    then show ?thesis
      by (simp add: Nil m kv json_str_def key colon val_start new skip_ws_append [OF w(2)] skip_ws_stop json_ws_def)
  next
    case (Cons u us)
    let ?rest = "join (44 # w) (map ?g kvs) @ w' @ 125 # x"
    have len: "2 * length (f v) \<le> m" "2 * length (join (44 # w) (map ?g kvs)) < m"
      using Cons.prems(6) m kv Cons by auto
    have one: "json_value fp m (f v @ 44 # w @ ?rest) = Some (g v, 44 # w @ ?rest)"
      by (rule Cons.prems(2) [of k]) (use len kv in \<open>auto simp: ends_json_def\<close>)
    obtain r' where "join (44 # w) (map ?g kvs) = 34 # r'"
      using Cons by (cases u; cases us) (auto simp: json_str_def)
    then have stop: "skip_ws (w @ ?rest) = ?rest"
      unfolding skip_ws_append [OF w(1)] by (simp add: skip_ws_stop json_ws_def)
    have "json_members fp m (acc @ [(k, g v)]) ?rest =
        Some (PDict ((acc @ [(k, g v)]) @ map (\<lambda>(k, v). (k, g v)) kvs), x)"
    proof (rule Cons.IH [OF _ _ _ _ _ len(2)])
      show "kvs \<noteq> []" using Cons by simp
      show "json_value fp n (f b @ y) = Some (g b, y)"
        if "(a, b) \<in> set kvs" "2 * length (f b) \<le> n" "ends_json y" for a b n y
        by (rule Cons.prems(2) [of a, OF _ that(2,3)]) (simp add: that(1))
      show "\<exists>c r. f b = c # r \<and> \<not> json_ws c" if "(a, b) \<in> set kvs" for a b
        by (rule Cons.prems(3) [of a]) (simp add: that)
      show "list_all scalar a" if "(a, b) \<in> set kvs" for a b
        by (rule Cons.prems(4) [of a b]) (simp add: that)
      show "distinct (map fst (acc @ [(k, g v)]) @ map fst kvs)" using Cons.prems(5) kv by auto
    qed
    with one stop have "json_members fp n acc (json_str k @ 58 # kw @ f v @ 44 # w @ ?rest) =
        Some (PDict (acc @ map (\<lambda>(k, v). (k, g v)) (kv # kvs)), x)"
      by (simp add: m kv json_str_def key colon val_start new skip_ws_stop json_ws_def)
    with Cons kv show ?thesis by (simp add: case_prod_unfold)
  qed
qed simp

lemma sort_key_mem: "x \<in> set (sort_key f xs) \<longleftrightarrow> x \<in> set xs"
  by simp

lemma array_print:
  assumes lay: "layout_ok nl sp ks"
    and val: "\<And>v n x. v \<in> set vs \<Longrightarrow> 2 * length (f v) \<le> n \<Longrightarrow> ends_json x \<Longrightarrow>
        json_value fp n (f v @ x) = Some (g v, x)"
    and first: "\<And>v. v \<in> set vs \<Longrightarrow> \<exists>c r. f v = c # r \<and> \<not> json_ws c \<and> c \<noteq> 93 \<and> c \<noteq> 125"
    and t: "t = (if vs = [] then [91, 93] else 91 # nl l' @ join (44 # sp l') (map f vs) @ nl l @ [93])"
    and n: "2 * length t \<le> n"
  shows "json_value fp n (t @ x) = Some (PList (map g vs), x)"
proof (cases vs)
  case Nil
  obtain m where "n = Suc m" using n t by (cases n) (auto split: if_splits)
  with Nil t show ?thesis by (simp add: skip_ws_stop json_ws_def)
next
  case (Cons u us)
  obtain m where m: "n = Suc m" using n t by (cases n) (auto split: if_splits)
  have ws: "list_all json_ws (nl k)" "list_all json_ws (sp k)" for k using lay by (simp_all add: layout_ok_def)
  let ?body = "join (44 # sp l') (map f vs)"
  obtain c r where c: "f u = c # r" "\<not> json_ws c" "c \<noteq> 93" using first [of u] Cons by auto
  obtain r' where r': "?body = c # r'" using Cons c by (cases us) auto
  have start: "skip_ws (nl l' @ ?body @ y) = ?body @ y" for y
    unfolding skip_ws_append [OF ws(1)] using r' c by (simp add: skip_ws_stop)
  have els: "json_elements fp m [] (?body @ nl l @ 93 # x) = Some (PList ([] @ map g vs), x)"
  proof (rule elements_print [OF _ ws(2) ws(1) val])
    show "\<exists>c r. f v = c # r \<and> \<not> json_ws c" if "v \<in> set vs" for v using first [OF that] by blast
    show "2 * length ?body < m" using n t m Cons by simp
  qed (use Cons in auto)
  have "t @ x = 91 # nl l' @ ?body @ nl l @ 93 # x" using t Cons by simp
  then have "json_value fp n (t @ x) = json_elements fp m [] (?body @ nl l @ 93 # x)"
    using start [of "nl l @ 93 # x"] r' c by (simp add: m Let_def)
  with els show ?thesis by simp
qed

lemma object_print:
  assumes lay: "layout_ok nl sp ks"
    and val: "\<And>k v n x. (k, v) \<in> set kvs \<Longrightarrow> 2 * length (f v) \<le> n \<Longrightarrow> ends_json x \<Longrightarrow>
        json_value fp n (f v @ x) = Some (g v, x)"
    and first: "\<And>k v. (k, v) \<in> set kvs \<Longrightarrow> \<exists>c r. f v = c # r \<and> \<not> json_ws c \<and> c \<noteq> 93 \<and> c \<noteq> 125"
    and keys: "\<And>k v. (k, v) \<in> set kvs \<Longrightarrow> list_all scalar k" "distinct (map fst kvs)"
    and t: "t = (if kvs = [] then [123, 125]
      else 123 # nl l' @ join (44 # sp l') (map (\<lambda>(k, v). json_str k @ ks @ f v) kvs) @ nl l @ [125])"
    and n: "2 * length t \<le> n"
  shows "json_value fp n (t @ x) = Some (PDict (map (\<lambda>(k, v). (k, g v)) kvs), x)"
proof (cases kvs)
  case Nil
  obtain m where "n = Suc m" using n t by (cases n) (auto split: if_splits)
  with Nil t show ?thesis by (simp add: skip_ws_stop json_ws_def)
next
  case (Cons u us)
  obtain m where m: "n = Suc m" using n t by (cases n) (auto split: if_splits)
  have ws: "list_all json_ws (nl k)" "list_all json_ws (sp k)" for k using lay by (simp_all add: layout_ok_def)
  obtain kw where kw: "ks = 58 # kw" "list_all json_ws kw" using lay by (auto simp: layout_ok_def)
  let ?g = "\<lambda>(k, v). json_str k @ (58 # kw) @ f v"
  let ?body = "join (44 # sp l') (map ?g kvs)"
  obtain r' where r': "?body = 34 # r'" using Cons by (cases u; cases us) (auto simp: json_str_def)
  have start: "skip_ws (nl l' @ ?body @ y) = ?body @ y" for y
    unfolding skip_ws_append [OF ws(1)] using r' by (simp add: skip_ws_stop json_ws_def)
  have mem: "json_members fp m [] (?body @ nl l @ 125 # x) = Some (PDict ([] @ map (\<lambda>(k, v). (k, g v)) kvs), x)"
  proof (rule members_print [OF _ ws(2) ws(1) kw(2) val])
    show "\<exists>c r. f v = c # r \<and> \<not> json_ws c" if "(k, v) \<in> set kvs" for k v using first [OF that] by blast
    show "list_all scalar k" if "(k, v) \<in> set kvs" for k v by (rule keys(1) [OF that])
    show "2 * length ?body < m" using n t m Cons kw by simp
  qed (use Cons keys(2) in auto)
  have "t @ x = 123 # nl l' @ ?body @ nl l @ 125 # x" using t Cons kw by simp
  then have "json_value fp n (t @ x) = json_members fp m [] (?body @ nl l @ 125 # x)"
    using start [of "nl l @ 125 # x"] r' by (simp add: m Let_def)
  with mem show ?thesis by simp
qed

lemma json_value_lay:
  assumes fr: "float_reads fr fp" and lay: "layout_ok nl sp ks"
  shows "plain v \<Longrightarrow> 2 * length (json_lay fr nl sp ks l v) \<le> n \<Longrightarrow> ends_json x \<Longrightarrow>
    json_value fp n (json_lay fr nl sp ks l v @ x) = Some (json_norm v, x)"
proof (induction v arbitrary: l n x rule: json_norm.induct)
  case (1 vs)
  have "json_value fp n (json_lay fr nl sp ks l (PList vs) @ x) = Some (PList (map json_norm vs), x)"
    by (rule array_print [OF lay _ _ _ 1(3), where g = json_norm and f = "json_lay fr nl sp ks (Suc l)"])
      (use 1 lay_first [OF fr] in \<open>auto simp: list_all_iff\<close>)
  then show ?case by simp
next
  case (2 vs)
  have "json_value fp n (json_lay fr nl sp ks l (PTuple vs) @ x) = Some (PList (map json_norm vs), x)"
    by (rule array_print [OF lay _ _ _ 2(3), where g = json_norm and f = "json_lay fr nl sp ks (Suc l)"])
      (use 2 lay_first [OF fr] in \<open>auto simp: list_all_iff\<close>)
  then show ?case by simp
next
  case (3 kvs)
  let ?s = "sort_key fst kvs" and ?f = "json_lay fr nl sp ks (Suc l)"
  have pl: "plain v" "list_all scalar k" if "(k, v) \<in> set kvs" for k v
    using that 3(2) by (auto simp: list_all_iff)
  have form: "json_lay fr nl sp ks l (PDict kvs) = (if ?s = [] then [123, 125]
      else 123 # nl (Suc l) @ join (44 # sp (Suc l)) (map (\<lambda>(k, v). json_str k @ ks @ ?f v) ?s) @ nl l @ [125])"
  proof -
    have "(?s = []) = (kvs = [])" by (metis length_0_conv length_sort)
    moreover have "map (\<lambda>(key, t). json_str key @ ks @ t) (sort_key fst (map (\<lambda>(key, v). (key, ?f v)) kvs)) =
        map (\<lambda>(k, v). json_str k @ ks @ ?f v) ?s"
      unfolding sort_map_snd by (simp add: case_prod_unfold comp_def)
    ultimately show ?thesis by simp
  qed
  have "json_value fp n (json_lay fr nl sp ks l (PDict kvs) @ x) =
      Some (PDict (map (\<lambda>(k, v). (k, json_norm v)) ?s), x)"
  proof (rule object_print [OF lay _ _ _ _ form 3(3), where g = json_norm])
    show "json_value fp n (?f v @ x) = Some (json_norm v, x)"
      if "(k, v) \<in> set ?s" "2 * length (?f v) \<le> n" "ends_json x" for k v n x
      using 3(1) [of "(k, v)" k v, OF _ refl _ that(2,3)] that(1) pl by auto
    show "\<exists>c r. ?f v = c # r \<and> \<not> json_ws c \<and> c \<noteq> 93 \<and> c \<noteq> 125" if "(k, v) \<in> set ?s" for k v
      using lay_first [OF fr] pl that by auto
  qed (use 3(2) pl in \<open>auto simp: distinct_map\<close>)
  then show ?case by (simp add: sort_map_snd)
next
  case 4
  then obtain m where "n = Suc m" by (cases n) (auto simp: U_def)
  then show ?case by (simp add: U_def startswith_def)
next
  case (5 b)
  then obtain m where "n = Suc m" by (cases n) (auto simp: U_def split: if_splits)
  then show ?case by (cases b) (simp_all add: U_def startswith_def)
next
  case (6 i)
  then obtain m where "n = Suc m" by (cases n) auto
  with 6 json_value_number [OF json_number_int [of x fp i]] show ?case by simp
next
  case (7 y)
  have num: "json_number fp (fr (PFloat y) @ x) = Some (PFloat y, x)" using fr 7(3) by (simp add: float_reads_def)
  then obtain m where "n = Suc m" using lay_first [OF fr 7(1), of nl sp ks l] 7(2) by (cases n) auto
  with json_value_number [OF num] show ?case by simp
next
  case (8 s)
  then obtain m where "n = Suc m" by (cases n) (auto simp: json_str_def)
  with 8 show ?case by (simp add: json_str_def json_chars_print)
qed simp_all

text \<open>Reading either form back gives the value with sorted keys.\<close>

lemma loads_lay:
  assumes "float_reads fr fp" "layout_ok nl sp ks" "plain v" "list_all json_ws w"
  shows "json_loads fp (json_lay fr nl sp ks l v @ w) = Some (json_norm v)"
proof -
  let ?t = "json_lay fr nl sp ks l v"
  obtain c r where c: "?t = c # r" "\<not> json_ws c" using lay_first [OF assms(1,3)] by metis
  have e: "ends_json w" using assms(4) by (cases w) (auto simp: ends_json_def)
  have "json_value fp (2 * length (?t @ w) + 1) (?t @ w) = Some (json_norm v, w)"
    by (rule json_value_lay [OF assms(1-3) _ e]) simp
  moreover have "skip_ws (?t @ w) = ?t @ w" using c by (simp add: skip_ws_stop)
  moreover have "skip_ws w = []" using skip_ws_append [OF assms(4), of "[]"] by (simp add: skip_ws_def)
  ultimately show ?thesis by (simp add: json_loads_def del: json_value.simps)
qed

lemma loads_canonical:
  assumes "float_reads fr fp" "plain v"
  shows "json_loads fp (json_canonical fr v) = Some (json_norm v)"
proof -
  have "layout_ok (\<lambda>l. []) (\<lambda>l. []) [58]" by (simp add: layout_ok_def)
  from loads_lay [OF assms(1) this assms(2), of "[]" 0] show ?thesis
    by (simp add: json_canonical_def json_lay_flat)
qed

lemma loads_default:
  assumes "float_reads fr fp" "plain v"
  shows "json_loads fp (json_default fr v) = Some (json_norm v)"
proof -
  have "layout_ok (\<lambda>l. []) (\<lambda>l. [32]) [58, 32]" by (simp add: layout_ok_def json_ws_def)
  from loads_lay [OF assms(1) this assms(2), of "[]" 0] show ?thesis
    by (simp add: json_default_def json_lay_flat)
qed

lemma loads_indented:
  assumes "float_reads fr fp" "plain v"
  shows "json_loads fp (json_indented fr v @ [10]) = Some (json_norm v)"
proof -
  have "layout_ok (\<lambda>l. 10 # replicate (2 * l) 32) (\<lambda>l. 10 # replicate (2 * l) 32) [58, 32]"
    by (auto simp: layout_ok_def list_all_iff json_ws_def)
  from loads_lay [OF assms(1) this assms(2), of "[10]" 0] show ?thesis
    by (simp add: json_indented_def json_ws_def Let_def)
qed

lemma layout_ascii:
  assumes "layout_ok nl sp ks"
  shows "c \<in> set (nl k) \<Longrightarrow> c < 128" "c \<in> set (sp k) \<Longrightarrow> c < 128" "c \<in> set ks \<Longrightarrow> c < 128"
proof -
  obtain w where w: "ks = 58 # w" "list_all json_ws w" using assms by (auto simp: layout_ok_def)
  have ws: "json_ws c \<Longrightarrow> c < 128" by (auto simp: json_ws_def)
  show "c \<in> set (nl k) \<Longrightarrow> c < 128" "c \<in> set (sp k) \<Longrightarrow> c < 128"
    using assms ws unfolding layout_ok_def list_all_iff by blast+
  show "c \<in> set ks \<Longrightarrow> c < 128" using w ws by (auto simp: list_all_iff)
qed

lemma lay_ascii:
  assumes fr: "float_text fr" and lay: "layout_ok nl sp ks"
  shows "plain v \<Longrightarrow> d \<in> set (json_lay fr nl sp ks l v) \<Longrightarrow> d < 128"
proof (induction v arbitrary: d l rule: json_norm.induct)
  case (1 vs)
  from 1 show ?case by (auto simp: list_all_iff split: if_splits dest!: join_set dest: layout_ascii [OF lay])
next
  case (2 vs)
  from 2 show ?case by (auto simp: list_all_iff split: if_splits dest!: join_set dest: layout_ascii [OF lay])
next
  case (3 kvs)
  have v: "c < 128" if "(k, v) \<in> set kvs" "c \<in> set (json_lay fr nl sp ks (Suc l) v)" for k v c
    using 3(1) [of "(k, v)" k v c "Suc l"] 3(2) that by (auto simp: list_all_iff)
  have kw: "c \<in> set ks \<Longrightarrow> c < 128" for c by (rule layout_ascii(3) [OF lay])
  from 3(3) show ?case by (auto simp: v kw json_str_ascii split: if_splits dest!: join_set dest: layout_ascii [OF lay])
next
  case 4
  then show ?case by (auto simp: U_def)
next
  case (5 b)
  then show ?case by (auto simp: U_def split: if_splits)
next
  case (6 n)
  then show ?case using dumps_ascii [OF fr, of "[]" "[]" "PInt n" d] by simp
next
  case (7 x)
  then show ?case using dumps_ascii [OF fr, of "[]" "[]" "PFloat x" d] by simp
next
  case (8 s)
  then show ?case using json_str_ascii by simp
qed simp_all

lemma indented_ascii:
  assumes "float_text fr" "plain v" "d \<in> set (json_indented fr v)"
  shows "d < 128"
proof -
  have "layout_ok (\<lambda>l. 10 # replicate (2 * l) 32) (\<lambda>l. 10 # replicate (2 * l) 32) [58, 32]"
    by (auto simp: layout_ok_def list_all_iff json_ws_def)
  from lay_ascii [OF assms(1) this assms(2)] assms(3) show ?thesis by (simp add: json_indented_def Let_def)
qed

section \<open>A concrete float text that reads back\<close>

definition read_int :: "str \<Rightarrow> int" where
  "read_int t = (case t of
     c # r \<Rightarrow> if c = 45 then - int (digits_val r) else int (digits_val t)
   | [] \<Rightarrow> 0)"

definition ratio_read :: "str \<Rightarrow> pyfloat" where
  "ratio_read t = of_int (read_int (takeWhile (\<lambda>c. c \<noteq> 101) t)) / of_int (read_int (tl (dropWhile (\<lambda>c. c \<noteq> 101) t)))"

lemma read_int_str: "read_int (int_str n) = n"
proof -
  have val: "digits_val (nat_str m) = m" for m unfolding nat_str_def by (rule digits_val_nat_digits)
  obtain d r where d: "nat_str (nat n) = d # r" "d \<noteq> 45"
    using nat_str_no_minus [of "nat n"] by (cases "nat_str (nat n)") (auto simp: nat_str_def)
  show ?thesis
    using val d val [of "nat n"] by (simp add: read_int_def int_str_def del: digits_val.simps)
qed

lemma int_str_e: "takeWhile (\<lambda>c. c \<noteq> 101) (int_str p @ 101 # r) = int_str p"
  "dropWhile (\<lambda>c. c \<noteq> 101) (int_str p @ 101 # r) = 101 # r"
proof -
  have "\<forall>c \<in> set (int_str p). c \<noteq> 101" using int_str_num by blast
  then show "takeWhile (\<lambda>c. c \<noteq> 101) (int_str p @ 101 # r) = int_str p"
    "dropWhile (\<lambda>c. c \<noteq> 101) (int_str p @ 101 # r) = 101 # r"
    by (simp_all add: takeWhile_append2 dropWhile_append2)
qed

lemma ratio_reads: "float_reads ratio_text ratio_read"
  unfolding float_reads_def
proof (intro allI impI)
  fix x and r :: str
  assume r: "ends_json r"
  obtain p q where pq: "quotient_of x = (p, q)" by (cases "quotient_of x")
  have q: "0 < q" by (rule quotient_of_denom_pos [OF pq])
  have x: "x = of_int p / of_int q" by (rule quotient_of_div [OF pq])
  have rt: "ratio_text (PFloat x) = int_str p @ 101 # nat_str (nat q)"
    using pq q by (simp add: ratio_text_def int_str_def)
  have ds: "list_all ascii_digit (nat_str (nat q))" and nonempty: "nat_str (nat q) \<noteq> []"
    using nat_digits_range by (auto simp: list_all_iff ascii_digit_def nat_str_def)
  have tw: "takeWhile ascii_digit (nat_str (nat q) @ r) = nat_str (nat q)"
    using ds ends_json_no_digit(1) [OF r] by (simp add: takeWhile_append list_all_iff)
  obtain d t where dt: "nat_str (nat q) = d # t" using nonempty by (cases "nat_str (nat q)") auto
  then have "d \<noteq> 43" "d \<noteq> 45" using ds by (auto simp: ascii_digit_def)
  then have expo: "exp_part (101 # nat_str (nat q) @ r) = 101 # nat_str (nat q)"
    using tw dt by (simp add: exp_part_def Let_def)
  have frac: "frac_part (101 # y) = []" for y by (cases y) (simp_all add: frac_part_def)
  have ipart: "int_part (nat_str n @ 101 # y) = nat_str n" for n y
  proof -
    have "takeWhile ascii_digit (nat_digits n @ 101 # y) = nat_digits n"
      using nat_digits_range [of _ n] by (simp add: takeWhile_append list_all_iff ascii_digit_def)
    then show ?thesis using nat_digits_first [of n]
      by (cases "nat_digits n") (auto simp: nat_str_def int_part_def)
  qed
  have nn: "nat_str n \<noteq> []" "hd (nat_str n) \<noteq> 45" for n
  proof -
    show "nat_str n \<noteq> []" by (simp add: nat_str_def)
    then show "hd (nat_str n) \<noteq> 45" using nat_str_no_minus [of n] hd_in_set by metis
  qed
  have val: "ratio_read (int_str p @ 101 # nat_str (nat q)) = x"
  proof -
    have "read_int (nat_str (nat q)) = q" using read_int_str [of q] q by (simp add: int_str_def)
    then show ?thesis unfolding ratio_read_def int_str_e by (simp add: read_int_str x)
  qed
  show "json_number ratio_read (ratio_text (PFloat x) @ r) = Some (PFloat x, r)"
  proof (cases "p < 0")
    case True
    then have "ratio_read (45 # nat_str (nat (- p)) @ 101 # nat_str (nat q)) = x"
      using val by (simp add: int_str_def)
    with True show ?thesis
      by (simp add: json_number_def rt int_str_def Let_def ipart nn frac expo)
  next
    case False
    then have v: "ratio_read (nat_str (nat p) @ 101 # nat_str (nat q)) = x"
      using val by (simp add: int_str_def)
    have "(case nat_str (nat p) @ y of [] \<Rightarrow> [] | c # _ \<Rightarrow> if c = 45 then [c] else []) = []" for y
      using nn [of "nat p"] by (cases "nat_str (nat p)") auto
    with False v show ?thesis
      by (simp add: json_number_def rt int_str_def Let_def ipart nn frac expo)
  qed
qed

section \<open>The bound on steps is enough\<close>

lemma skip_ws_le: "length (skip_ws s) \<le> length s"
  unfolding skip_ws_def by (rule length_dropWhile_le)

lemma json_number_shorter:
  assumes "json_number fp s = Some (v, r)"
  shows "length r < length s"
proof -
  define sgn where "sgn = (case s of c # _ \<Rightarrow> if c = 45 then [c] else [] | [] \<Rightarrow> [])"
  define ip where "ip = int_part (drop (length sgn) s)"
  have ip: "ip \<noteq> []" and r: "length r \<le> length (drop (length ip) (drop (length sgn) s))"
    using assms by (auto simp: json_number_def Let_def sgn_def [symmetric] ip_def [symmetric] split: if_splits)
  have "drop (length sgn) s \<noteq> []" using ip by (auto simp: ip_def int_part_def)
  then have "length (drop (length ip) (drop (length sgn) s)) < length s"
    using ip by (cases ip) auto
  with r show ?thesis by linarith
qed

lemma startswith_length: "startswith s p \<Longrightarrow> length p \<le> length s"
  by (auto simp: startswith_def prefix_length_le)

lemma read_shorter:
  "json_value fp n s = Some (v, r) \<Longrightarrow> length r < length s"
  "json_elements fp n acc s = Some (v, r) \<Longrightarrow> length r < length s"
  "json_members fp n macc s = Some (v, r) \<Longrightarrow> length r < length s"
proof (induction n arbitrary: s v r acc macc)
  case (Suc n)
  { case 1
    then obtain c t where s: "s = c # t" by (cases s) auto
    have t: "length (skip_ws t) < length s" using skip_ws_le [of t] s by simp
    have d: "length (drop (Suc k) s) < length s" for k using s by simp
    show ?case
      using 1 s t d [of 3] d [of 4] json_chars_shorter [of t] json_number_shorter [of fp s v r]
        Suc.IH(2) [of "[]" "skip_ws t" v r] Suc.IH(3) [of "[]" "skip_ws t" v r]
      by (fastforce simp: Let_def split: if_splits) }
  { case 2
    then obtain w q where q: "json_value fp n s = Some (w, q)" by (auto split: option.splits)
    obtain c x where c: "skip_ws q = c # x" using 2 q by (auto split: list.splits)
    have "length q < length s" by (rule Suc.IH(1) [OF q])
    then have x: "length x < length s" using skip_ws_le [of q] c by simp
    then show ?case using 2 q c skip_ws_le [of x] Suc.IH(2) [of "acc @ [w]" "skip_ws x" v r]
      by (auto split: if_splits) }
  { case 3
    then obtain c r0 where s: "s = c # r0" "c = 34" by (cases s) (auto split: if_splits)
    with 3 obtain key r1 where r1: "json_chars r0 = Some (key, r1)" by (auto split: option.splits)
    obtain d r2 where r2: "skip_ws r1 = d # r2" "d = 58" using 3 s r1 by (auto split: list.splits if_splits)
    obtain w q where q: "json_value fp n (skip_ws r2) = Some (w, q)" using 3 s r1 r2 by (auto split: option.splits)
    obtain e x where e: "skip_ws q = e # x" using 3 s r1 r2 q by (auto split: list.splits)
    have "length r1 < length s" using json_chars_shorter [OF r1] s by simp
    moreover have "length q < length (skip_ws r2)" by (rule Suc.IH(1) [OF q])
    ultimately have x: "length x < length s"
      using skip_ws_le [of r1] skip_ws_le [of r2] skip_ws_le [of q] r2 e by simp
    then show ?case using 3 s r1 r2 q e skip_ws_le [of x] Suc.IH(3) [of "dset key w macc" "skip_ws x" v r]
      by (auto split: if_splits) }
qed simp_all

lemma read_stable:
  "2 * length s < n \<Longrightarrow> n \<le> m \<Longrightarrow> json_value fp n s = json_value fp m s"
  "2 * length s + 1 < n \<Longrightarrow> n \<le> m \<Longrightarrow> json_elements fp n acc s = json_elements fp m acc s"
  "2 * length s + 1 < n \<Longrightarrow> n \<le> m \<Longrightarrow> json_members fp n macc s = json_members fp m macc s"
proof (induction n arbitrary: s m acc macc)
  case (Suc n)
  { case 1
    then obtain m' where m: "m = Suc m'" "n \<le> m'" by (cases m) auto
    show ?case
    proof (cases s)
      case (Cons c t)
      have "2 * length (skip_ws t) + 1 < n" using 1 Cons skip_ws_le [of t] by simp
      with Suc.IH(2,3) [of "skip_ws t" m' "[]"] m Cons show ?thesis by (simp add: Let_def)
    qed (simp add: m) }
  { case 2
    then obtain m' where m: "m = Suc m'" "n \<le> m'" by (cases m) auto
    have v: "json_value fp n s = json_value fp m' s" by (rule Suc.IH(1)) (use 2 m in auto)
    have "json_elements fp n (acc @ [w]) (skip_ws x) = json_elements fp m' (acc @ [w]) (skip_ws x)"
      if "json_value fp m' s = Some (w, q)" "skip_ws q = c # x" for w q c x
    proof (rule Suc.IH(2) [OF _ m(2)])
      show "2 * length (skip_ws x) + 1 < n"
        using read_shorter(1) [OF that(1)] skip_ws_le [of q] skip_ws_le [of x] that(2) 2 by simp
    qed
    then show ?case by (simp add: m v split: option.split list.split) }
  { case 3
    then obtain m' where m: "m = Suc m'" "n \<le> m'" by (cases m) auto
    show ?case
    proof (cases s)
      case (Cons c0 r0)
      have v: "json_value fp n (skip_ws r2) = json_value fp m' (skip_ws r2)"
        if "json_chars r0 = Some (key, r1)" "skip_ws r1 = d # r2" for key r1 d r2
        by (rule Suc.IH(1) [OF _ m(2)])
          (use json_chars_shorter [OF that(1)] skip_ws_le [of r1] skip_ws_le [of r2] that(2) 3 Cons in simp)
      have "json_members fp n (dset key w macc) (skip_ws x) = json_members fp m' (dset key w macc) (skip_ws x)"
        if "json_chars r0 = Some (key, r1)" "skip_ws r1 = d # r2" "json_value fp m' (skip_ws r2) = Some (w, q)"
          "skip_ws q = c # x" for key r1 d r2 w q c x
        by (rule Suc.IH(3) [OF _ m(2)])
          (use json_chars_shorter [OF that(1)] skip_ws_le [of r1] skip_ws_le [of r2] skip_ws_le [of q]
            skip_ws_le [of x] read_shorter(1) [OF that(3)] that 3 Cons in simp)
      with v Cons show ?thesis by (simp add: m split: option.split list.split)
    qed (simp add: m) }
qed simp_all

end
