(* ===== verification/PyWire.thy ===== *)
theory PyWire
  imports PyJsonRead
begin

text \<open>
  What the signed formats of \<^verbatim>\<open>mythos_runtime\<close> share: reading bytes as UTF-8 and JSON,
  \<^verbatim>\<open>str\<close>, iteration and comparison of loaded values, and what is documented of the parameters that
  stand for HMAC-SHA-256 (\<open>hm\<close>), the rendering of times (\<open>isofmt\<close>, \<open>parse_time\<close>) and the text of floats
  (\<open>fr\<close>, \<open>fp\<close>), with concrete instances.
\<close>

section \<open>Reading bytes as text\<close>

text \<open>The strict UTF-8 decoder, and \<^verbatim>\<open>json.loads\<close> of bytes (UTF-16 and UTF-32 are not modelled).\<close>

definition utf8_tail :: "bytes \<Rightarrow> bool" where
  "utf8_tail bs = list_all (\<lambda>b. 128 \<le> b \<and> b < 192) bs"

fun utf8_decode :: "bytes \<Rightarrow> str option" where
  "utf8_decode [] = Some []"
| "utf8_decode (a # r) =
     (if a < 128 then map_option (Cons a) (utf8_decode r)
      else if 194 \<le> a \<and> a < 224 then
        (case r of
           b # r' \<Rightarrow> if utf8_tail [b] then map_option (Cons ((a - 192) * 64 + (b - 128))) (utf8_decode r') else None
         | _ \<Rightarrow> None)
      else if 224 \<le> a \<and> a < 240 then
        (case r of
           b # c # r' \<Rightarrow>
             (let v = (a - 224) * 4096 + (b - 128) * 64 + (c - 128)
              in if utf8_tail [b, c] \<and> 0x800 \<le> v \<and> \<not> (0xd800 \<le> v \<and> v < 0xe000)
                 then map_option (Cons v) (utf8_decode r') else None)
         | _ \<Rightarrow> None)
      else if 240 \<le> a \<and> a < 245 then
        (case r of
           b # c # d # r' \<Rightarrow>
             (let v = (a - 240) * 262144 + (b - 128) * 4096 + (c - 128) * 64 + (d - 128)
              in if utf8_tail [b, c, d] \<and> 0x10000 \<le> v \<and> v < 0x110000
                 then map_option (Cons v) (utf8_decode r') else None)
         | _ \<Rightarrow> None)
      else None)"

definition loads_bytes :: "(str \<Rightarrow> pyfloat) \<Rightarrow> bytes \<Rightarrow> pyval option" where
  "loads_bytes fp bs =
     (case utf8_decode (if take 3 bs = [239, 187, 191] then drop 3 bs else bs) of
        None \<Rightarrow> None
      | Some t \<Rightarrow> json_loads fp t)"

section \<open>Values as text and numbers\<close>

text \<open>Python's \<^verbatim>\<open>str(v)\<close>, truth value, iteration and comparison with an integer, as far as they are used on a payload.\<close>

definition py_str :: "(pyval \<Rightarrow> str) \<Rightarrow> pyval \<Rightarrow> str" where
  "py_str fr v = (case v of
     PStr s \<Rightarrow> s
   | PInt n \<Rightarrow> int_str n
   | PBool b \<Rightarrow> (if b then U ''True'' else U ''False'')
   | PNone \<Rightarrow> U ''None''
   | _ \<Rightarrow> fr v)"

definition truthy :: "pyval \<Rightarrow> bool" where
  "truthy v = (case v of
     PNone \<Rightarrow> False | PBool b \<Rightarrow> b | PInt n \<Rightarrow> n \<noteq> 0 | PFloat x \<Rightarrow> x \<noteq> 0 | PStr s \<Rightarrow> s \<noteq> [] | PBytes b \<Rightarrow> b \<noteq> []
   | PList vs \<Rightarrow> vs \<noteq> [] | PTuple vs \<Rightarrow> vs \<noteq> [] | PDict d \<Rightarrow> d \<noteq> [] | PKeyed d \<Rightarrow> d \<noteq> [] | POther r \<Rightarrow> True)"

definition py_iter :: "pyval \<Rightarrow> pyval list option" where
  "py_iter v = (case v of
     PList vs \<Rightarrow> Some vs
   | PTuple vs \<Rightarrow> Some vs
   | PStr s \<Rightarrow> Some (map (\<lambda>c. PStr [c]) s)
   | PDict kvs \<Rightarrow> Some (map (PStr \<circ> fst) kvs)
   | _ \<Rightarrow> None)"

definition py_eq_int :: "pyval \<Rightarrow> int \<Rightarrow> bool" where
  "py_eq_int v n = (case v of
     PInt m \<Rightarrow> m = n
   | PFloat x \<Rightarrow> x = of_int n
   | PBool b \<Rightarrow> n = (if b then 1 else 0)
   | _ \<Rightarrow> False)"

definition ascii :: "str \<Rightarrow> bool" where
  "ascii s = list_all (\<lambda>c. c < 128) s"

section \<open>The parameters\<close>

lemma utf8_decode_ascii: "list_all (\<lambda>c. c < 128) s \<Longrightarrow> utf8_decode s = Some s"
  by (induction s) auto

lemma loads_ascii:
  assumes "list_all (\<lambda>c. c < 128) s"
  shows "loads_bytes fp s = json_loads fp s"
proof -
  have "take 3 s \<noteq> [239, 187, 191]"
  proof
    assume "take 3 s = [239, 187, 191]"
    then have "239 \<in> set s" by (metis in_set_takeD list.set_intros(1))
    with assms show False by (auto simp: list_all_iff)
  qed
  then show ?thesis by (simp add: loads_bytes_def utf8_decode_ascii assms)
qed

text \<open>What is documented of the parameters: a hexadecimal digest, and times that read back.\<close>

definition hex_hmac :: "(bytes \<Rightarrow> bytes \<Rightarrow> str) \<Rightarrow> bool" where
  "hex_hmac hm \<longleftrightarrow> (\<forall>k m. list_all hex_char (hm k m))"

definition hex_sha :: "(bytes \<Rightarrow> str) \<Rightarrow> bool" where
  "hex_sha sha \<longleftrightarrow> (\<forall>m. list_all hex_char (sha m) \<and> sha m \<noteq> [])"

definition time_text :: "(int \<Rightarrow> str) \<Rightarrow> (str \<Rightarrow> int option) \<Rightarrow> bool" where
  "time_text isofmt parse_time \<longleftrightarrow> (\<forall>t. parse_time (isofmt t) = Some t \<and> ascii (isofmt t))"

definition float_io :: "(pyval \<Rightarrow> str) \<Rightarrow> (str \<Rightarrow> pyfloat) \<Rightarrow> bool" where
  "float_io fr fp \<longleftrightarrow> float_text fr \<and> float_reads fr fp"

definition doc_params ::
  "(bytes \<Rightarrow> str) \<Rightarrow> (bytes \<Rightarrow> bytes \<Rightarrow> str) \<Rightarrow> (pyval \<Rightarrow> str) \<Rightarrow> (str \<Rightarrow> pyfloat) \<Rightarrow> (int \<Rightarrow> str) \<Rightarrow> (str \<Rightarrow> int option) \<Rightarrow> bool" where
  "doc_params sha hm fr fp isofmt parse_time \<longleftrightarrow>
     hex_sha sha \<and> hex_hmac hm \<and> float_io fr fp \<and> time_text isofmt parse_time"

lemma hex_char_plain: "list_all hex_char s \<Longrightarrow> ascii s \<and> 46 \<notin> set s"
  by (auto simp: ascii_def list_all_iff hex_char_def)

lemma ascii_scalar: "ascii s \<Longrightarrow> list_all scalar s"
  by (auto simp: ascii_def list_all_iff scalar_def)

lemma canonical_bytes:
  assumes "float_io fr fp" "plain v"
  shows "list_all (\<lambda>b. b < 128) (json_canonical fr v)"
  using assms dumps_ascii [of fr "[44]" "[58]" v] by (auto simp: list_all_iff json_canonical_def float_io_def)

text \<open>Concrete parameters that are as documented.\<close>

definition flat_hmac :: "bytes \<Rightarrow> bytes \<Rightarrow> str" where
  "flat_hmac k m = replicate 64 48"

definition flat_sha :: "bytes \<Rightarrow> str" where
  "flat_sha m = replicate 64 48"

lemma flat_sha_hex: "hex_sha flat_sha"
  by (simp add: hex_sha_def flat_sha_def hex_char_def list_all_iff)

definition read_time :: "str \<Rightarrow> int option" where
  "read_time s = Some (read_int s)"

lemma flat_hmac_hex: "hex_hmac flat_hmac"
  by (simp add: hex_hmac_def flat_hmac_def hex_char_def list_all_iff)

lemma int_str_ascii: "ascii (int_str n)"
  using int_str_num [of _ n] by (fastforce simp: ascii_def list_all_iff num_char_def)

lemma read_time_text: "time_text int_str read_time"
  by (simp add: time_text_def read_time_def read_int_str int_str_ascii)

lemma ratio_io: "float_io ratio_text ratio_read"
  by (simp add: float_io_def ratio_text_ok ratio_reads)

lemma flat_params: "doc_params flat_sha flat_hmac ratio_text ratio_read int_str read_time"
  by (simp add: doc_params_def flat_sha_hex flat_hmac_hex ratio_io read_time_text)

end
