(* ===== verification/PyBase64.thy ===== *)
theory PyBase64
  imports PyPrelude
begin

text \<open>
  The URL-safe Base64 form without padding that execution grants travel in: \<^verbatim>\<open>_b64encode\<close> and
  \<^verbatim>\<open>_b64decode\<close> of \<^verbatim>\<open>mythos_runtime/authority.py\<close>. The decoder is the lenient one of
  \<^verbatim>\<open>binascii.a2b_base64\<close>: foreign characters are skipped, and a complete padding ends the input.
\<close>

definition b64_char :: "nat \<Rightarrow> nat" where
  "b64_char v = (if v < 26 then 65 + v else if v < 52 then 71 + v else if v < 62 then v - 4
     else if v = 62 then 45 else 95)"

fun b64encode :: "bytes \<Rightarrow> str" where
  "b64encode [] = []"
| "b64encode [a] = [b64_char (a div 4), b64_char ((a mod 4) * 16)]"
| "b64encode [a, b] = [b64_char (a div 4), b64_char ((a mod 4) * 16 + b div 16), b64_char ((b mod 16) * 4)]"
| "b64encode (a # b # c # r) =
     [b64_char (a div 4), b64_char ((a mod 4) * 16 + b div 16), b64_char ((b mod 16) * 4 + c div 64), b64_char (c mod 64)]
       @ b64encode r"

definition b64_value :: "nat \<Rightarrow> nat option" where
  "b64_value c =
     (if 65 \<le> c \<and> c \<le> 90 then Some (c - 65)
      else if 97 \<le> c \<and> c \<le> 122 then Some (c - 71)
      else if 48 \<le> c \<and> c \<le> 57 then Some (c + 4)
      else if c = 45 \<or> c = 43 then Some 62
      else if c = 95 \<or> c = 47 then Some 63
      else None)"

text \<open>The arguments are the position in the group of four, the bits left over and the padding seen.\<close>

fun a2b_base64 :: "nat \<Rightarrow> nat \<Rightarrow> nat \<Rightarrow> str \<Rightarrow> bytes option" where
  "a2b_base64 quad left pads [] = (if quad = 0 then Some [] else None)"
| "a2b_base64 quad left pads (c # r) =
     (if c = 61 then
        (if 2 \<le> quad then (if 4 \<le> quad + Suc pads then Some [] else a2b_base64 quad left (Suc pads) r)
         else a2b_base64 quad left pads r)
      else
        (case b64_value c of
           None \<Rightarrow> a2b_base64 quad left pads r
         | Some v \<Rightarrow>
             if quad = 0 then a2b_base64 1 v 0 r
             else if quad = 1 then map_option (Cons (left * 4 + v div 16)) (a2b_base64 2 (v mod 16) 0 r)
             else if quad = 2 then map_option (Cons (left * 16 + v div 4)) (a2b_base64 3 (v mod 4) 0 r)
             else map_option (Cons (left * 64 + v)) (a2b_base64 0 0 0 r)))"

definition b64decode :: "str \<Rightarrow> bytes option" where
  "b64decode s = a2b_base64 0 0 0 (s @ replicate ((4 - length s mod 4) mod 4) 61)"

section \<open>Round trip\<close>

lemma b64_char_value: "v < 64 \<Longrightarrow> b64_value (b64_char v) = Some v"
  by (auto simp: b64_char_def b64_value_def)

lemma b64_char_ne: "b64_char v \<noteq> 61" "b64_char v \<noteq> 46"
  by (auto simp: b64_char_def)

lemma b64_char_ascii: "b64_char v < 128"
  by (auto simp: b64_char_def)

lemma b64_quad_split: "(a div 4) * 4 + (a mod 4 * 16 + b) div 16 = a" if "b < 16" for a b :: nat
proof -
  have "(a mod 4 * 16 + b) div 16 = a mod 4" using that by simp
  then show ?thesis by simp
qed

lemma b64_step:
  assumes "a < 256" "b < 256" "c < 256"
  shows "a2b_base64 0 l p (b64_char (a div 4) # b64_char ((a mod 4) * 16 + b div 16)
      # b64_char ((b mod 16) * 4 + c div 64) # b64_char (c mod 64) # r) =
    map_option (\<lambda>bs. a # b # c # bs) (a2b_base64 0 0 0 r)"
proof -
  have v: "a div 4 < 64" "(a mod 4) * 16 + b div 16 < 64" "(b mod 16) * 4 + c div 64 < 64" "c mod 64 < 64"
    using assms by simp_all
  have split: "(a div 4) * 4 + ((a mod 4) * 16 + b div 16) div 16 = a"
    "((a mod 4) * 16 + b div 16) mod 16 * 16 + ((b mod 16) * 4 + c div 64) div 4 = b"
    "((b mod 16) * 4 + c div 64) mod 4 * 64 + c mod 64 = c"
    using assms by simp_all
  show ?thesis using split
    by (simp add: b64_char_ne b64_char_value [OF v(1)] b64_char_value [OF v(2)] b64_char_value [OF v(3)]
        b64_char_value [OF v(4)] option.map_comp comp_def)
qed

lemma b64_length: "length (b64encode bs) mod 4 = (if length bs mod 3 = 0 then 0 else Suc (length bs mod 3))"
  by (induction bs rule: b64encode.induct) (auto simp: mod_Suc)

lemma b64_roundtrip_aux:
  "list_all (\<lambda>b. b < 256) bs \<Longrightarrow>
    a2b_base64 0 0 0 (b64encode bs @ replicate ((4 - length (b64encode bs) mod 4) mod 4) 61) = Some bs"
proof (induction bs rule: b64encode.induct)
  case (2 a)
  then have v: "a div 4 < 64" "(a mod 4) * 16 < 64" by simp_all
  show ?case by (simp add: numeral_2_eq_2 b64_char_ne b64_char_value [OF v(1)] b64_char_value [OF v(2)])
next
  case (3 a b)
  then have ab: "a < 256" "b < 256" by simp_all
  then have v: "a div 4 < 64" "(a mod 4) * 16 + b div 16 < 64" "(b mod 16) * 4 < 64" by simp_all
  have split: "(a div 4) * 4 + ((a mod 4) * 16 + b div 16) div 16 = a"
    "((a mod 4) * 16 + b div 16) mod 16 * 16 + ((b mod 16) * 4) div 4 = b" using ab by simp_all
  then show ?case
    by (simp add: b64_char_ne b64_char_value [OF v(1)] b64_char_value [OF v(2)] b64_char_value [OF v(3)])
next
  case (4 a b c r)
  then show ?case using b64_step [of a b c 0 0] by simp
qed simp

lemma b64_roundtrip: "list_all (\<lambda>b. b < 256) bs \<Longrightarrow> b64decode (b64encode bs) = Some bs"
  unfolding b64decode_def by (rule b64_roundtrip_aux)

lemma b64encode_chars: "c \<in> set (b64encode bs) \<Longrightarrow> c < 128 \<and> c \<noteq> 46"
  by (induction bs rule: b64encode.induct) (auto simp: b64_char_ascii b64_char_ne)

lemma b64encode_Nil [simp]: "b64encode bs = [] \<longleftrightarrow> bs = []"
  by (cases bs rule: b64encode.cases) auto

end
