(* ===== verification/MythosAuthority.thy ===== *)
theory MythosAuthority
  imports PyWire PyBase64
begin

text \<open>
  Execution grants of \<^verbatim>\<open>mythos_runtime/authority.py\<close>: trusted environments, the operator's signer and
  the runtime's verifier. Times are microseconds; \<open>isofmt\<close> and \<open>parse_time\<close> stand for
  \<^verbatim>\<open>_iso\<close> and \<^verbatim>\<open>_parse_time\<close> (\<^verbatim>\<open>datetime.isoformat\<close> and \<^verbatim>\<open>fromisoformat\<close>), \<open>hm\<close> for the
  hexadecimal HMAC-SHA-256, \<open>fr\<close> and \<open>fp\<close> for the text of a float and back. Base URLs with an IPv6
  literal or a host outside ASCII, and environment fields that are not strings, are refused by the model.
\<close>

section \<open>Trusted environments\<close>

datatype grant_error =
    GrantRequired | BadSignature | PayloadInvalid | TtlInvalid | NotActive | PurposeOrAction | OutOfScope | WrongContext
  | SubjectRequired | TtlLimit | EmptyScope | EnvironmentRequired | BadBaseUrl | BadRevision
  | EncodeEscapes | DigestEscapes | AttributeEscapes | TimeEscapes

text \<open>The errors that are an \<^verbatim>\<open>AuthorizationDenied\<close>.\<close>

definition denied :: "grant_error \<Rightarrow> bool" where
  "denied e \<longleftrightarrow> e \<in> {GrantRequired, BadSignature, PayloadInvalid, TtlInvalid, NotActive, PurposeOrAction,
     OutOfScope, WrongContext}"

record trusted_environment =
  te_execution :: str
  te_target :: str
  te_base_url :: str
  te_revision :: str

text \<open>The parts of \<^verbatim>\<open>urlsplit\<close> that the check looks at: scheme, network location, query, fragment.\<close>

definition url_scheme :: "str \<Rightarrow> (str \<times> str)" where
  "url_scheme url =
     (let s = takeWhile (\<lambda>c. c \<noteq> 58) url
      in if s \<noteq> url \<and> s \<noteq> [] \<and> is_alpha (hd s) \<and>
            list_all (\<lambda>c. is_alpha c \<or> (48 \<le> c \<and> c \<le> 57) \<or> c \<in> {43, 45, 46}) s
         then (lower s, drop (Suc (length s)) url) else ([], url))"

definition url_parts :: "str \<Rightarrow> str \<times> str \<times> str \<times> str" where
  "url_parts value =
     (let url = filter (\<lambda>c. c \<notin> {9, 10, 13}) (dropWhile (\<lambda>c. c \<le> 32) value);
          (scheme, rest) = url_scheme url;
          has_netloc = startswith rest [47, 47];
          netloc = (if has_netloc then takeWhile (\<lambda>c. c \<notin> {47, 63, 35}) (drop 2 rest) else []);
          path = (if has_netloc then drop (2 + length netloc) rest else rest);
          fragment = drop 1 (dropWhile (\<lambda>c. c \<noteq> 35) path);
          query = drop 1 (dropWhile (\<lambda>c. c \<noteq> 63) (takeWhile (\<lambda>c. c \<noteq> 35) path))
      in (scheme, netloc, query, fragment))"

definition validate_base_url :: "str \<Rightarrow> grant_error + str" where
  "validate_base_url value =
     (let (scheme, netloc, query, fragment) = url_parts value;
          hostname = takeWhile (\<lambda>c. c \<noteq> 58) netloc
      in if scheme \<noteq> U ''https'' \<or> hostname = [] \<or> 64 \<in> set netloc \<or> query \<noteq> [] \<or> fragment \<noteq> []
            \<or> 91 \<in> set netloc \<or> 93 \<in> set netloc \<or> \<not> list_all (\<lambda>c. c < 128) netloc
         then Inl BadBaseUrl else Inr (rstrip_by (\<lambda>c. c = 47) value))"

definition revision_ok :: "str \<Rightarrow> bool" where
  "revision_ok r \<longleftrightarrow> 40 \<le> length r \<and> length r \<le> 64 \<and> list_all (\<lambda>c. (48 \<le> c \<and> c \<le> 57) \<or> (97 \<le> c \<and> c \<le> 102)) r"

definition environment_init :: "str \<Rightarrow> str \<Rightarrow> str \<Rightarrow> str \<Rightarrow> grant_error + trusted_environment" where
  "environment_init execution tgt url revision =
     (if execution = [] \<or> tgt = [] then Inl EnvironmentRequired
      else (case validate_base_url url of
              Inl e \<Rightarrow> Inl e
            | Inr u \<Rightarrow>
                if \<not> revision_ok revision then Inl BadRevision
                else Inr \<lparr>te_execution = execution, te_target = tgt, te_base_url = u, te_revision = revision\<rparr>))"

definition environment_dict :: "trusted_environment \<Rightarrow> pyval" where
  "environment_dict e = PDict
     [(U ''execution_environment'', PStr (te_execution e)), (U ''target_environment'', PStr (te_target e)),
      (U ''ckan_base_url'', PStr (te_base_url e)), (U ''source_revision'', PStr (te_revision e))]"

section \<open>Grants and the signer\<close>

record execution_grant =
  eg_id :: str
  eg_subject :: str
  eg_purposes :: "str list"
  eg_actions :: "str list"
  eg_resources :: "str list"
  eg_environment :: trusted_environment
  eg_issued_at :: str
  eg_expires_at :: str

definition grant_payload :: "execution_grant \<Rightarrow> pyval" where
  "grant_payload g = PDict
     [(U ''version'', PInt 1), (U ''grant_id'', PStr (eg_id g)), (U ''subject'', PStr (eg_subject g)),
      (U ''purposes'', PList (map PStr (eg_purposes g))), (U ''actions'', PList (map PStr (eg_actions g))),
      (U ''resources'', PList (map PStr (eg_resources g))), (U ''environment'', environment_dict (eg_environment g)),
      (U ''issued_at'', PStr (eg_issued_at g)), (U ''expires_at'', PStr (eg_expires_at g))]"

record grant_signer =
  gs_key :: bytes
  gs_max_ttl :: int

definition signer_init :: "bytes \<Rightarrow> int \<Rightarrow> grant_signer option" where
  "signer_init key max_ttl =
     (if length key < 32 \<or> \<not> (1 \<le> max_ttl \<and> max_ttl \<le> 24 * 3600) then None
      else Some \<lparr>gs_key = key, gs_max_ttl = max_ttl\<rparr>)"

definition sorted_set :: "str list \<Rightarrow> str list" where
  "sorted_set xs = sort (remdups xs)"

definition seconds :: "int \<Rightarrow> int" where
  "seconds n = n * 1000000"

definition new_grant ::
  "(int \<Rightarrow> str) \<Rightarrow> str \<Rightarrow> str \<Rightarrow> str list \<Rightarrow> str list \<Rightarrow> str list \<Rightarrow> trusted_environment \<Rightarrow> int \<Rightarrow> int \<Rightarrow> execution_grant" where
  "new_grant isofmt token subject purposes actions resources environment ttl now =
     \<lparr>eg_id = U ''evg_'' @ token, eg_subject = subject, eg_purposes = sorted_set purposes,
      eg_actions = sorted_set actions, eg_resources = sorted_set resources, eg_environment = environment,
      eg_issued_at = isofmt now, eg_expires_at = isofmt (now + seconds ttl)\<rparr>"

definition issue ::
  "(bytes \<Rightarrow> bytes \<Rightarrow> str) \<Rightarrow> (pyval \<Rightarrow> str) \<Rightarrow> (int \<Rightarrow> str) \<Rightarrow> str \<Rightarrow> grant_signer \<Rightarrow> str \<Rightarrow> str list \<Rightarrow> str list
     \<Rightarrow> str list \<Rightarrow> trusted_environment \<Rightarrow> int \<Rightarrow> int \<Rightarrow> grant_error + str" where
  "issue hm fr isofmt token signer subject purposes actions resources environment ttl now =
     (if subject = [] then Inl SubjectRequired
      else if \<not> (1 \<le> ttl \<and> ttl \<le> gs_max_ttl signer) then Inl TtlLimit
      else if sorted_set purposes = [] \<or> sorted_set actions = [] \<or> sorted_set resources = [] then Inl EmptyScope
      else
        (let grant = new_grant isofmt token subject purposes actions resources environment ttl now;
             encoded = b64encode (json_canonical fr (grant_payload grant))
         in Inr (encoded @ [46] @ hm (gs_key signer) encoded)))"

section \<open>The verifier\<close>

definition str_field :: "(pyval \<Rightarrow> str) \<Rightarrow> (str, pyval) dict \<Rightarrow> string \<Rightarrow> grant_error + str" where
  "str_field fr d k = (case dget d (U k) of None \<Rightarrow> Inl PayloadInvalid | Some v \<Rightarrow> Inr (py_str fr v))"

definition strs_field :: "(pyval \<Rightarrow> str) \<Rightarrow> (str, pyval) dict \<Rightarrow> string \<Rightarrow> grant_error + str list" where
  "strs_field fr d k =
     (case dget d (U k) of
        None \<Rightarrow> Inl PayloadInvalid
      | Some v \<Rightarrow> (case py_iter v of None \<Rightarrow> Inl PayloadInvalid | Some vs \<Rightarrow> Inr (map (py_str fr) vs)))"

text \<open>\<^verbatim>\<open>TrustedEnvironment(**value)\<close>: exactly the four fields, and the constructor's checks.\<close>

definition environment_of :: "pyval \<Rightarrow> grant_error + trusted_environment" where
  "environment_of v =
     (case v of
        PDict d \<Rightarrow>
          (if set (dkeys d) \<noteq> {U ''execution_environment'', U ''target_environment'', U ''ckan_base_url'', U ''source_revision''}
           then Inl PayloadInvalid
           else (case (dget d (U ''execution_environment''), dget d (U ''target_environment''),
                       dget d (U ''ckan_base_url''), dget d (U ''source_revision'')) of
                   (Some (PStr a), Some (PStr b), Some (PStr c), Some (PStr r)) \<Rightarrow>
                     (case environment_init a b c r of Inl _ \<Rightarrow> Inl PayloadInvalid | Inr e \<Rightarrow> Inr e)
                 | _ \<Rightarrow> Inl PayloadInvalid))
      | _ \<Rightarrow> Inl PayloadInvalid)"

definition grant_of :: "(pyval \<Rightarrow> str) \<Rightarrow> pyval \<Rightarrow> grant_error + execution_grant" where
  "grant_of fr payload =
     (case payload of
        PDict d \<Rightarrow>
          (if \<not> (case dget d (U ''version'') of None \<Rightarrow> False | Some v \<Rightarrow> py_eq_int v 1) then Inl PayloadInvalid
           else
             (case (str_field fr d ''grant_id'', str_field fr d ''subject'', strs_field fr d ''purposes'',
                    strs_field fr d ''actions'', strs_field fr d ''resources'',
                    (case dget d (U ''environment'') of None \<Rightarrow> Inl PayloadInvalid | Some v \<Rightarrow> environment_of v),
                    str_field fr d ''issued_at'', str_field fr d ''expires_at'') of
                (Inr i, Inr s, Inr p, Inr a, Inr r, Inr e, Inr f, Inr t) \<Rightarrow>
                  Inr \<lparr>eg_id = i, eg_subject = s, eg_purposes = p, eg_actions = a, eg_resources = r,
                       eg_environment = e, eg_issued_at = f, eg_expires_at = t\<rparr>
              | _ \<Rightarrow> Inl PayloadInvalid))
      | _ \<Rightarrow> Inl AttributeEscapes)"

record grant_verifier =
  gv_key :: bytes
  gv_max_ttl :: int

definition verifier_init :: "bytes \<Rightarrow> int \<Rightarrow> grant_verifier option" where
  "verifier_init key max_ttl =
     (if length key < 32 \<or> \<not> (1 \<le> max_ttl \<and> max_ttl \<le> 24 * 3600) then None
      else Some \<lparr>gv_key = key, gv_max_ttl = max_ttl\<rparr>)"

text \<open>The checks on a grant whose signature and payload are good.\<close>

definition check_grant ::
  "(str \<Rightarrow> int option) \<Rightarrow> int \<Rightarrow> execution_grant \<Rightarrow> str \<Rightarrow> str \<Rightarrow> str \<Rightarrow> trusted_environment \<Rightarrow> int
     \<Rightarrow> grant_error + execution_grant" where
  "check_grant parse_time max_ttl g action resource_id purpose environment now =
     (case (parse_time (eg_issued_at g), parse_time (eg_expires_at g)) of
        (Some issued, Some expires) \<Rightarrow>
          (let ttl = expires - issued
           in if ttl \<le> 0 \<or> seconds max_ttl < ttl then Inl TtlInvalid
              else if now < issued \<or> expires \<le> now then Inl NotActive
              else if purpose \<notin> set (eg_purposes g) \<or> action \<notin> set (eg_actions g) then Inl PurposeOrAction
              else if resource_id \<notin> set (eg_resources g) \<and> U ''*'' \<notin> set (eg_resources g) then Inl OutOfScope
              else if eg_environment g \<noteq> environment then Inl WrongContext
              else Inr g)
      | _ \<Rightarrow> Inl TimeEscapes)"

definition verify_grant ::
  "(bytes \<Rightarrow> bytes \<Rightarrow> str) \<Rightarrow> (pyval \<Rightarrow> str) \<Rightarrow> (str \<Rightarrow> pyfloat) \<Rightarrow> (str \<Rightarrow> int option) \<Rightarrow> grant_verifier \<Rightarrow> str option
     \<Rightarrow> str \<Rightarrow> str \<Rightarrow> str \<Rightarrow> trusted_environment \<Rightarrow> int \<Rightarrow> grant_error + execution_grant" where
  "verify_grant hm fr fp parse_time v token action resource_id purpose environment now =
     (case token of
        None \<Rightarrow> Inl GrantRequired
      | Some t \<Rightarrow>
          (if t = [] \<or> count_list t 46 \<noteq> 1 then Inl GrantRequired
           else
             (let encoded = takeWhile (\<lambda>c. c \<noteq> 46) t; supplied = drop (Suc (length encoded)) t
              in if \<not> ascii encoded then Inl EncodeEscapes
                 else
                   (let expected = hm (gv_key v) encoded
                    in if \<not> ascii supplied then Inl DigestEscapes
                       else if supplied \<noteq> expected then Inl BadSignature
                       else
                         (case Option.bind (b64decode encoded) (loads_bytes fp) of
                            None \<Rightarrow> Inl PayloadInvalid
                          | Some payload \<Rightarrow>
                              (case grant_of fr payload of
                                 Inl e \<Rightarrow> Inl e
                               | Inr g \<Rightarrow>
                                   check_grant parse_time (gv_max_ttl v) g action resource_id purpose environment now))))))"

section \<open>What the signer writes, the verifier reads\<close>

lemma count_list_ends: "46 \<notin> set x \<Longrightarrow> 46 \<notin> set y \<Longrightarrow> count_list (x @ 46 # y) 46 = 1"
  by (simp add: count_list_0_iff)

lemma take_to_dot: "46 \<notin> set x \<Longrightarrow> takeWhile (\<lambda>c. c \<noteq> 46) (x @ 46 # y) = x"
  by (induction x) auto

lemma split_dot:
  "46 \<in> set t \<Longrightarrow> t = takeWhile (\<lambda>c. c \<noteq> 46) t @ 46 # drop (Suc (length (takeWhile (\<lambda>c. c \<noteq> 46) t))) t"
  by (induction t) auto

definition grant_wf :: "execution_grant \<Rightarrow> bool" where
  "grant_wf g \<longleftrightarrow> list_all (list_all scalar)
     ([eg_id g, eg_subject g, eg_issued_at g, eg_expires_at g, te_execution (eg_environment g),
       te_target (eg_environment g), te_base_url (eg_environment g), te_revision (eg_environment g)]
      @ eg_purposes g @ eg_actions g @ eg_resources g)"

text \<open>An environment that its own constructor gives back.\<close>

definition environment_ok :: "trusted_environment \<Rightarrow> bool" where
  "environment_ok e \<longleftrightarrow> environment_init (te_execution e) (te_target e) (te_base_url e) (te_revision e) = Inr e"

lemma environment_plain: "grant_wf g \<Longrightarrow> plain (environment_dict (eg_environment g))"
  by (simp add: grant_wf_def environment_dict_def)

lemma payload_plain_grant: "grant_wf g \<Longrightarrow> plain (grant_payload g)"
  using environment_plain [of g] by (simp add: grant_payload_def grant_wf_def list.pred_map comp_def)

lemma norm_str_list: "json_norm (PList (map PStr xs)) = PList (map PStr xs)"
  by simp

lemma environment_of_norm:
  assumes "environment_ok e"
  shows "environment_of (json_norm (environment_dict e)) = Inr e"
proof -
  let ?kvs = "[(U ''execution_environment'', PStr (te_execution e)), (U ''target_environment'', PStr (te_target e)),
      (U ''ckan_base_url'', PStr (te_base_url e)), (U ''source_revision'', PStr (te_revision e))]"
  let ?d = "sort_key fst (map (\<lambda>(k, v). (k, json_norm v)) ?kvs)"
  have dist: "distinct (map fst ?kvs)" by simp
  have norm: "json_norm (environment_dict e) = PDict ?d" by (simp only: environment_dict_def json_norm.simps)
  have keys: "set (dkeys ?d) = {U ''execution_environment'', U ''target_environment'', U ''ckan_base_url'', U ''source_revision''}"
    unfolding dkeys_norm by (auto simp: dkeys_def)
  note look = dget_norm [OF dist]
  have fields: "dget ?d (U ''execution_environment'') = Some (PStr (te_execution e))"
    "dget ?d (U ''target_environment'') = Some (PStr (te_target e))"
    "dget ?d (U ''ckan_base_url'') = Some (PStr (te_base_url e))"
    "dget ?d (U ''source_revision'') = Some (PStr (te_revision e))"
    unfolding look by (simp_all add: dget_def)
  show ?thesis
    using assms unfolding norm environment_of_def pyval.case keys fields environment_ok_def by simp
qed

lemma grant_of_norm:
  assumes "environment_ok (eg_environment g)"
  shows "grant_of fr (json_norm (grant_payload g)) = Inr g"
proof -
  let ?kvs = "[(U ''version'', PInt 1), (U ''grant_id'', PStr (eg_id g)), (U ''subject'', PStr (eg_subject g)),
      (U ''purposes'', PList (map PStr (eg_purposes g))), (U ''actions'', PList (map PStr (eg_actions g))),
      (U ''resources'', PList (map PStr (eg_resources g))), (U ''environment'', environment_dict (eg_environment g)),
      (U ''issued_at'', PStr (eg_issued_at g)), (U ''expires_at'', PStr (eg_expires_at g))]"
  let ?d = "sort_key fst (map (\<lambda>(k, v). (k, json_norm v)) ?kvs)"
  have dist: "distinct (map fst ?kvs)" by simp
  have norm: "json_norm (grant_payload g) = PDict ?d" by (simp only: grant_payload_def json_norm.simps)
  note look = dget_norm [OF dist]
  have fields: "dget ?d (U ''version'') = Some (PInt 1)"
    "dget ?d (U ''grant_id'') = Some (PStr (eg_id g))" "dget ?d (U ''subject'') = Some (PStr (eg_subject g))"
    "dget ?d (U ''purposes'') = Some (PList (map PStr (eg_purposes g)))"
    "dget ?d (U ''actions'') = Some (PList (map PStr (eg_actions g)))"
    "dget ?d (U ''resources'') = Some (PList (map PStr (eg_resources g)))"
    "dget ?d (U ''environment'') = Some (json_norm (environment_dict (eg_environment g)))"
    "dget ?d (U ''issued_at'') = Some (PStr (eg_issued_at g))" "dget ?d (U ''expires_at'') = Some (PStr (eg_expires_at g))"
    unfolding look by (simp_all add: dget_def)
  have strs: "map (py_str fr) (map PStr xs) = xs" for xs by (induction xs) (simp_all add: py_str_def)
  show ?thesis
    unfolding norm grant_of_def pyval.case fields str_field_def strs_field_def option.case py_iter_def strs
      environment_of_norm [OF assms]
    by (simp add: py_eq_int_def py_str_def)
qed

text \<open>A signed token: the verifier comes down to the checks on the grant.\<close>

lemma verify_signed:
  assumes io: "float_io fr fp" and hm: "hex_hmac hm" and wf: "grant_wf g" "environment_ok (eg_environment g)"
    and tok: "tok = (let e = b64encode (json_canonical fr (grant_payload g)) in e @ [46] @ hm (gv_key v) e)"
  shows "verify_grant hm fr fp parse_time v (Some tok) action resource_id purpose environment now =
    check_grant parse_time (gv_max_ttl v) g action resource_id purpose environment now"
proof -
  let ?c = "json_canonical fr (grant_payload g)" and ?e = "b64encode (json_canonical fr (grant_payload g))"
  have c: "list_all (\<lambda>b. b < 128) ?c" by (rule canonical_bytes [OF io payload_plain_grant [OF wf(1)]])
  have e: "ascii ?e" "46 \<notin> set ?e" using b64encode_chars by (auto simp: ascii_def list_all_iff)
  have s: "ascii (hm k m)" "46 \<notin> set (hm k m)" for k m
    using hm hex_char_plain unfolding hex_hmac_def by blast+
  have c256: "list_all (\<lambda>b. b < 256) ?c" using c by (auto simp: list_all_iff)
  have payload: "Option.bind (b64decode ?e) (loads_bytes fp) = Some (json_norm (grant_payload g))"
    using io loads_canonical [OF _ payload_plain_grant [OF wf(1)]]
    by (simp add: b64_roundtrip [OF c256] loads_ascii [OF c] float_io_def)
  have t: "tok = ?e @ 46 # hm (gv_key v) ?e" using tok by (simp add: Let_def)
  have "count_list tok 46 = 1" unfolding t by (rule count_list_ends [OF e(2) s(2)])
  moreover have "takeWhile (\<lambda>c. c \<noteq> 46) tok = ?e" unfolding t by (rule take_to_dot [OF e(2)])
  moreover have "drop (Suc (length ?e)) tok = hm (gv_key v) ?e" "tok \<noteq> []" unfolding t by simp_all
  ultimately show ?thesis
    by (simp add: verify_grant_def Let_def e(1) s(1) payload grant_of_norm [OF wf(2)])
qed

lemma check_grant_Inr:
  assumes "check_grant parse_time max_ttl g action resource_id purpose environment now = Inr g'"
  shows "g' = g \<and> (\<exists>issued expires. parse_time (eg_issued_at g) = Some issued \<and>
      parse_time (eg_expires_at g) = Some expires \<and>
      issued \<le> now \<and> now < expires \<and> expires \<le> issued + seconds max_ttl) \<and>
    purpose \<in> set (eg_purposes g) \<and> action \<in> set (eg_actions g) \<and>
    (resource_id \<in> set (eg_resources g) \<or> U ''*'' \<in> set (eg_resources g)) \<and> eg_environment g = environment"
proof (cases "parse_time (eg_issued_at g)")
  case (Some issued)
  show ?thesis
  proof (cases "parse_time (eg_expires_at g)")
    case (Some expires)
    with \<open>parse_time (eg_issued_at g) = Some issued\<close> assms show ?thesis
      by (simp add: check_grant_def Let_def split: if_splits)
  qed (use assms Some in \<open>simp add: check_grant_def\<close>)
qed (use assms in \<open>simp add: check_grant_def\<close>)

lemma sorted_set_set [simp]: "set (sorted_set xs) = set xs"
  by (simp add: sorted_set_def)

section \<open>Properties\<close>

text \<open>C20: a token that the signer issued is worth exactly what was delegated, no more and no less: a verifier with
  the same key and at least the same limit accepts it from the moment of issue until its time to live is over,
  for the purposes, actions and resources given (all resources for a star), in the environment given, and
  returns the grant; everything else it denies with the reason stated.\<close>
theorem issued_grant_verifies:
  assumes io: "float_io fr fp" and hm: "hex_hmac hm" and time: "time_text isofmt parse_time"
    and env: "environment_ok env"
    and strs: "list_all (list_all scalar) ([token, subject, te_execution env, te_target env, te_base_url env,
        te_revision env] @ purposes @ actions @ resources)"
    and key: "gv_key v = gs_key signer" "gs_max_ttl signer \<le> gv_max_ttl v"
    and issued: "issue hm fr isofmt token signer subject purposes actions resources env ttl t0 = Inr tok"
  shows "verify_grant hm fr fp parse_time v (Some tok) action resource_id purpose environment now =
    (if now < t0 \<or> t0 + seconds ttl \<le> now then Inl NotActive
     else if purpose \<notin> set purposes \<or> action \<notin> set actions then Inl PurposeOrAction
     else if resource_id \<notin> set resources \<and> U ''*'' \<notin> set resources then Inl OutOfScope
     else if env \<noteq> environment then Inl WrongContext
     else Inr (new_grant isofmt token subject purposes actions resources env ttl t0))"
proof -
  let ?g = "new_grant isofmt token subject purposes actions resources env ttl t0"
  have ttl: "1 \<le> ttl" "ttl \<le> gs_max_ttl signer"
    and tok: "tok = (let e = b64encode (json_canonical fr (grant_payload ?g)) in e @ [46] @ hm (gv_key v) e)"
    using issued key by (auto simp: issue_def Let_def split: if_splits)
  have iso: "parse_time (isofmt t) = Some t" "list_all scalar (isofmt t)" for t
    using time ascii_scalar by (auto simp: time_text_def)
  have wf: "grant_wf ?g"
    using strs iso by (simp add: grant_wf_def new_grant_def list_all_iff [of _ "sorted_set _"])
      (auto simp: list_all_iff)
  have e: "environment_ok (eg_environment ?g)" using env by (simp add: new_grant_def)
  show ?thesis
    unfolding verify_signed [OF io hm wf e tok]
    using ttl key(2) by (simp add: check_grant_def new_grant_def iso seconds_def Let_def)
qed

text \<open>C21: no grant is accepted on less: an accepted token is an encoding and its HMAC under the verifier's key,
  and the grant returned is the one encoded there, is active now, lives no longer than the limit, covers the
  purpose, the action and the resource, and is bound to this very environment.\<close>
theorem accepted_grant_covers:
  assumes "verify_grant hm fr fp parse_time v token action resource_id purpose environment now = Inr g"
  shows "(\<exists>encoded payload. token = Some (encoded @ [46] @ hm (gv_key v) encoded) \<and>
      Option.bind (b64decode encoded) (loads_bytes fp) = Some payload \<and> grant_of fr payload = Inr g) \<and>
    (\<exists>issued expires. parse_time (eg_issued_at g) = Some issued \<and> parse_time (eg_expires_at g) = Some expires \<and>
      issued \<le> now \<and> now < expires \<and> expires \<le> issued + seconds (gv_max_ttl v)) \<and>
    purpose \<in> set (eg_purposes g) \<and> action \<in> set (eg_actions g) \<and>
    (resource_id \<in> set (eg_resources g) \<or> U ''*'' \<in> set (eg_resources g)) \<and> eg_environment g = environment"
proof -
  obtain t where t: "token = Some t" and one: "count_list t 46 = 1"
    using assms by (auto simp: verify_grant_def split: option.splits if_splits)
  define e where "e = takeWhile (\<lambda>c. c \<noteq> 46) t"
  have dot: "46 \<in> set t" using one by (metis count_list_0_iff zero_neq_one)
  then have split: "t = e @ 46 # drop (Suc (length e)) t" unfolding e_def by (rule split_dot)
  obtain payload where sup: "drop (Suc (length e)) t = hm (gv_key v) e"
    and p: "Option.bind (b64decode e) (loads_bytes fp) = Some payload"
    and gg: "\<exists>g'. grant_of fr payload = Inr g' \<and>
      check_grant parse_time (gv_max_ttl v) g' action resource_id purpose environment now = Inr g"
    using assms unfolding e_def by (auto simp: verify_grant_def t Let_def split: if_splits option.splits sum.splits)
  then obtain g' where g': "grant_of fr payload = Inr g'"
    "check_grant parse_time (gv_max_ttl v) g' action resource_id purpose environment now = Inr g" by blast
  have g: "g = g'" using check_grant_Inr [OF g'(2)] by simp
  have "token = Some (e @ [46] @ hm (gv_key v) e)" using t split sup by simp
  moreover have "Option.bind (b64decode e) (loads_bytes fp) = Some payload \<and> grant_of fr payload = Inr g"
    using p g'(1) g by simp
  ultimately show ?thesis using check_grant_Inr [OF g'(2)] unfolding g by blast
qed

section \<open>Witnesses\<close>

definition site_env :: trusted_environment where
  "site_env = \<lparr>te_execution = U ''prod'', te_target = U ''ckan'', te_base_url = U ''https://c'', te_revision = replicate 40 48\<rparr>"

lemma site_env_ok: "environment_ok site_env"
  by code_simp

lemma site_scalars:
  "list_all (list_all scalar) ([U ''00'', U ''bot'', te_execution site_env, te_target site_env, te_base_url site_env,
     te_revision site_env] @ [U ''audit''] @ [U ''read''] @ [U ''*''])"
  by (simp add: site_env_def) (simp add: scalar_def list_all_iff)

theorem issued_grant_verifies_witness:
  "\<exists>tok. issue flat_hmac ratio_text int_str (U ''00'') \<lparr>gs_key = replicate 32 1, gs_max_ttl = 3600\<rparr> (U ''bot'')
      [U ''audit''] [U ''read''] [U ''*''] site_env 300 0 = Inr tok \<and>
    verify_grant flat_hmac ratio_text ratio_read read_time \<lparr>gv_key = replicate 32 1, gv_max_ttl = 3600\<rparr> (Some tok)
      (U ''read'') (U ''table'') (U ''audit'') site_env 5 =
      Inr (new_grant int_str (U ''00'') (U ''bot'') [U ''audit''] [U ''read''] [U ''*''] site_env 300 0)"
proof -
  let ?s = "\<lparr>gs_key = replicate 32 1, gs_max_ttl = 3600\<rparr>" and ?v = "\<lparr>gv_key = replicate 32 (1::nat), gv_max_ttl = 3600\<rparr>"
  have "\<exists>tok. issue flat_hmac ratio_text int_str (U ''00'') ?s (U ''bot'') [U ''audit''] [U ''read''] [U ''*''] site_env 300 0 = Inr tok"
    by (simp add: issue_def sorted_set_def Let_def)
  then obtain tok where tok: "issue flat_hmac ratio_text int_str (U ''00'') ?s (U ''bot'') [U ''audit''] [U ''read''] [U ''*'']
      site_env 300 0 = Inr tok" by blast
  have "gv_key ?v = gs_key ?s" "gs_max_ttl ?s \<le> gv_max_ttl ?v" by simp_all
  from issued_grant_verifies [OF ratio_io flat_hmac_hex read_time_text site_env_ok site_scalars this tok,
      of "U ''read''" "U ''table''" "U ''audit''" site_env 5] tok
  show ?thesis by (auto simp: seconds_def)
qed

definition site_verifier :: grant_verifier where
  "site_verifier = \<lparr>gv_key = replicate 32 1, gv_max_ttl = 3600\<rparr>"

theorem accepted_grant_covers_witness:
  "\<exists>token g. verify_grant flat_hmac ratio_text ratio_read read_time site_verifier token (U ''read'') (U ''table'')
      (U ''audit'') site_env 5 = Inr g \<and> eg_environment g = site_env \<and> U ''audit'' \<in> set (eg_purposes g)"
proof -
  let ?g = "new_grant int_str (U ''00'') (U ''bot'') [U ''audit''] [U ''read''] [U ''*''] site_env 300 0"
  let ?tok = "let e = b64encode (json_canonical ratio_text (grant_payload ?g)) in e @ [46] @ flat_hmac (gv_key site_verifier) e"
  have wf: "grant_wf ?g"
    using site_scalars ascii_scalar [OF int_str_ascii] by (simp add: grant_wf_def new_grant_def sorted_set_def)
  have e: "environment_ok (eg_environment ?g)" using site_env_ok by (simp add: new_grant_def)
  have "verify_grant flat_hmac ratio_text ratio_read read_time site_verifier (Some ?tok) (U ''read'') (U ''table'')
      (U ''audit'') site_env 5 = Inr ?g"
    unfolding verify_signed [OF ratio_io flat_hmac_hex wf e refl]
    by (simp add: check_grant_def new_grant_def sorted_set_def read_time_def read_int_str seconds_def site_verifier_def Let_def)
  from accepted_grant_covers [OF this] this show ?thesis by blast
qed

end
