(* ===== verification/MythosEvidence.thy ===== *)
theory MythosEvidence
  imports PyWire HashChain
begin

text \<open>
  \<^verbatim>\<open>mythos_runtime/assurance.py\<close>: the retention policy and \<^verbatim>\<open>SecureEvidenceLedger\<close>, whose file is
  modelled by its bytes. The loaded payload is a Python dictionary of JSON values, as in the code, so
  that every check of \<^verbatim>\<open>_verify_payload\<close> works on untrusted data. SHA-256 (\<open>sha\<close>), HMAC (\<open>hm\<close>), the
  texts of floats and times and the random part of an event id are parameters; a lock held by somebody
  else and symbolic links are flags of the state.
\<close>

section \<open>Retention\<close>

record retention_policy =
  rp_max_events :: nat
  rp_max_age_seconds :: int
  rp_resource_state_ttl_seconds :: int
  rp_max_resources :: nat
  rp_max_state_bytes :: nat
  rp_persist_rows :: bool

definition retention_ok :: "retention_policy \<Rightarrow> bool" where
  "retention_ok r \<longleftrightarrow> 1 \<le> rp_max_events r \<and> rp_max_events r \<le> 100000 \<and>
     60 \<le> rp_max_age_seconds r \<and> rp_max_age_seconds r \<le> 366 * 24 * 3600 \<and>
     60 \<le> rp_resource_state_ttl_seconds r \<and> rp_resource_state_ttl_seconds r \<le> 30 * 24 * 3600 \<and>
     1 \<le> rp_max_resources r \<and> rp_max_resources r \<le> 10000 \<and>
     1024 \<le> rp_max_state_bytes r \<and> rp_max_state_bytes r \<le> 64 * 1024 * 1024"

section \<open>Sealing and verifying a payload\<close>

datatype evidence_error = EvLocked | EvSymlink | EvDisappeared | EvTooLarge | EvUnreadable | EvDecodeEscapes
  | EvBadSchema | EvBadEnvelope | EvCountInvalid | EvCountModified | EvSealMissing | EvDigestEscapes | EvSealWrong
  | EvChainInvalid | EvHashInvalid | EvSignatureInvalid | EvHeadInconsistent | EvTimeEscapes | EvMetadataType
  | EvMetadataTooLarge | EvMissingFile | EvShortKey

type_synonym payload = "(str, pyval) dict"

definition GENESIS :: str where
  "GENESIS = replicate 64 48"

definition seal_prefix :: bytes where
  "seal_prefix = U ''ethos-evidence-ledger-v2:''"

definition vget :: "pyval \<Rightarrow> string \<Rightarrow> pyval option" where
  "vget v k = (case v of PDict d \<Rightarrow> dget d (U k) | _ \<Rightarrow> None)"

definition payload_events :: "payload \<Rightarrow> pyval list" where
  "payload_events p = (case dget p (U ''events'') of Some (PList es) \<Rightarrow> es | _ \<Rightarrow> [])"

text \<open>\<^verbatim>\<open>events[-1]["event_hash"] if events else anchor\<close>.\<close>

definition head_value :: "pyval \<Rightarrow> pyval list \<Rightarrow> pyval" where
  "head_value anchor events =
     (if events = [] then anchor
      else (case vget (last events) ''event_hash'' of Some h \<Rightarrow> h | None \<Rightarrow> PNone))"

definition unsealed :: "payload \<Rightarrow> payload" where
  "unsealed p = filter (\<lambda>(k, v). k \<noteq> U ''seal'') p"

definition seal_of :: "(bytes \<Rightarrow> bytes \<Rightarrow> str) \<Rightarrow> (pyval \<Rightarrow> str) \<Rightarrow> bytes \<Rightarrow> payload \<Rightarrow> str" where
  "seal_of hm fr key p = hm key (seal_prefix @ json_canonical fr (PDict (unsealed p)))"

definition seal_payload :: "(bytes \<Rightarrow> bytes \<Rightarrow> str) \<Rightarrow> (pyval \<Rightarrow> str) \<Rightarrow> bytes \<Rightarrow> payload \<Rightarrow> payload" where
  "seal_payload hm fr key p =
     (let events = payload_events p;
          p = dset (U ''event_count'') (PInt (int (length events))) p;
          anchor = (case dget p (U ''anchor_hash'') of Some a \<Rightarrow> a | None \<Rightarrow> PNone);
          p = dset (U ''head_hash'') (head_value anchor events) p
      in dset (U ''seal'') (PStr (seal_of hm fr key p)) p)"

definition new_payload :: "(bytes \<Rightarrow> bytes \<Rightarrow> str) \<Rightarrow> (pyval \<Rightarrow> str) \<Rightarrow> bytes \<Rightarrow> payload" where
  "new_payload hm fr key =
     seal_payload hm fr key [(U ''version'', PInt 2), (U ''anchor_hash'', PStr GENESIS), (U ''events'', PList [])]"

text \<open>The part of an event that its hash covers.\<close>

definition canonical_event :: "payload \<Rightarrow> pyval" where
  "canonical_event d = PDict (dpop (U ''signature'') (dpop (U ''event_hash'') d))"

text \<open>The loop over the events; the last argument but one is \<^verbatim>\<open>previous\<close>.\<close>

definition verify_event ::
  "(bytes \<Rightarrow> str) \<Rightarrow> (bytes \<Rightarrow> bytes \<Rightarrow> str) \<Rightarrow> (pyval \<Rightarrow> str) \<Rightarrow> bytes \<Rightarrow> str \<Rightarrow> pyval \<Rightarrow> evidence_error + str" where
  "verify_event sha hm fr key previous e =
     (case e of
        PDict d \<Rightarrow>
          (if dget d (U ''previous_hash'') \<noteq> Some (PStr previous) then Inl EvChainInvalid
           else
             (case dget d (U ''event_hash'') of
                Some (PStr h) \<Rightarrow>
                  (if \<not> ascii h then Inl EvDigestEscapes
                   else if h \<noteq> sha (json_canonical fr (canonical_event d)) then Inl EvHashInvalid
                   else
                     (case dget d (U ''signature'') of
                        Some (PStr s) \<Rightarrow>
                          (if \<not> ascii s then Inl EvDigestEscapes
                           else if s \<noteq> hm key h then Inl EvSignatureInvalid
                           else Inr h)
                      | _ \<Rightarrow> Inl EvSignatureInvalid))
              | _ \<Rightarrow> Inl EvHashInvalid))
      | _ \<Rightarrow> Inl EvChainInvalid)"

fun verify_events ::
  "(bytes \<Rightarrow> str) \<Rightarrow> (bytes \<Rightarrow> bytes \<Rightarrow> str) \<Rightarrow> (pyval \<Rightarrow> str) \<Rightarrow> bytes \<Rightarrow> str \<Rightarrow> pyval list \<Rightarrow> evidence_error + str" where
  "verify_events sha hm fr key previous [] = Inr previous"
| "verify_events sha hm fr key previous (e # es) =
     (case verify_event sha hm fr key previous e of
        Inl err \<Rightarrow> Inl err
      | Inr h \<Rightarrow> verify_events sha hm fr key h es)"

text \<open>\<^verbatim>\<open>str(payload.get("anchor_hash") or GENESIS)\<close>.\<close>

definition anchor_of :: "(pyval \<Rightarrow> str) \<Rightarrow> payload \<Rightarrow> str" where
  "anchor_of fr p = (case dget p (U ''anchor_hash'') of
     Some a \<Rightarrow> if truthy a then py_str fr a else GENESIS
   | None \<Rightarrow> GENESIS)"

definition envelope_keys :: "str set" where
  "envelope_keys = {U ''version'', U ''anchor_hash'', U ''events'', U ''event_count'', U ''head_hash'', U ''seal''}"

definition version_is :: "payload \<Rightarrow> int \<Rightarrow> bool" where
  "version_is p n = (case dget p (U ''version'') of None \<Rightarrow> False | Some v \<Rightarrow> py_eq_int v n)"

definition verify_payload ::
  "(bytes \<Rightarrow> str) \<Rightarrow> (bytes \<Rightarrow> bytes \<Rightarrow> str) \<Rightarrow> (pyval \<Rightarrow> str) \<Rightarrow> bytes \<Rightarrow> payload \<Rightarrow> evidence_error option" where
  "verify_payload sha hm fr key p =
     (if set (dkeys p) \<noteq> envelope_keys \<or> \<not> version_is p 2 then Some EvBadEnvelope
      else
        (case (dget p (U ''events''), dget p (U ''event_count'')) of
           (Some (PList events), Some (PInt count)) \<Rightarrow>
             (if count \<noteq> int (length events) then Some EvCountModified
              else
                (case dget p (U ''seal'') of
                   Some (PStr s) \<Rightarrow>
                     (if \<not> ascii s then Some EvDigestEscapes
                      else if s \<noteq> seal_of hm fr key p then Some EvSealWrong
                      else
                        (case verify_events sha hm fr key (anchor_of fr p) events of
                           Inl e \<Rightarrow> Some e
                         | Inr previous \<Rightarrow>
                             (case dget p (U ''head_hash'') of
                                Some (PStr h) \<Rightarrow>
                                  (if \<not> ascii (h @ previous) then Some EvDigestEscapes
                                   else if h \<noteq> previous then Some EvHeadInconsistent else None)
                              | _ \<Rightarrow> Some EvHeadInconsistent)))
                 | _ \<Rightarrow> Some EvSealMissing))
         | _ \<Rightarrow> Some EvCountInvalid))"

section \<open>The ledger file\<close>

record evidence_ledger =
  el_key :: bytes
  el_retention :: retention_policy
  el_observed :: bool
  el_file :: "bytes option"
  el_parent_link :: bool
  el_path_link :: bool
  el_locked :: bool

definition open_ledger :: "bytes \<Rightarrow> retention_policy \<Rightarrow> bytes option \<Rightarrow> evidence_error + evidence_ledger" where
  "open_ledger key retention content =
     (if length key < 32 then Inl EvShortKey
      else Inr \<lparr>el_key = key, el_retention = retention, el_observed = (content \<noteq> None), el_file = content,
               el_parent_link = False, el_path_link = False, el_locked = False\<rparr>)"

definition parse_ledger ::
  "(bytes \<Rightarrow> str) \<Rightarrow> (bytes \<Rightarrow> bytes \<Rightarrow> str) \<Rightarrow> (pyval \<Rightarrow> str) \<Rightarrow> (str \<Rightarrow> pyfloat) \<Rightarrow> bytes \<Rightarrow> nat \<Rightarrow> bytes \<Rightarrow> evidence_error + payload" where
  "parse_ledger sha hm fr fp key max_bytes content =
     (if max_bytes < length content then Inl EvTooLarge
      else
        (case utf8_decode content of
           None \<Rightarrow> Inl EvDecodeEscapes
         | Some t \<Rightarrow>
             (case json_loads fp t of
                None \<Rightarrow> Inl EvUnreadable
              | Some (PDict p) \<Rightarrow>
                  (if \<not> version_is p 2 \<or> \<not> (case dget p (U ''events'') of Some (PList _) \<Rightarrow> True | _ \<Rightarrow> False)
                   then Inl EvBadSchema
                   else (case verify_payload sha hm fr key p of Some e \<Rightarrow> Inl e | None \<Rightarrow> Inr p))
              | Some _ \<Rightarrow> Inl EvBadSchema)))"

definition load ::
  "(bytes \<Rightarrow> str) \<Rightarrow> (bytes \<Rightarrow> bytes \<Rightarrow> str) \<Rightarrow> (pyval \<Rightarrow> str) \<Rightarrow> (str \<Rightarrow> pyfloat) \<Rightarrow> evidence_ledger
     \<Rightarrow> (evidence_error + payload) \<times> evidence_ledger" where
  "load sha hm fr fp l =
     (if el_path_link l \<or> el_parent_link l then (Inl EvSymlink, l)
      else
        (case el_file l of
           None \<Rightarrow> (if el_observed l then (Inl EvDisappeared, l) else (Inr (new_payload hm fr (el_key l)), l))
         | Some content \<Rightarrow>
             (parse_ledger sha hm fr fp (el_key l) (rp_max_state_bytes (el_retention l)) content,
              l\<lparr>el_observed := True\<rparr>)))"

definition store :: "(pyval \<Rightarrow> str) \<Rightarrow> payload \<Rightarrow> evidence_ledger \<Rightarrow> evidence_error option \<times> evidence_ledger" where
  "store fr p l =
     (let encoded = json_indented fr (PDict p) @ [10]
      in if el_path_link l \<or> el_parent_link l then (Some EvSymlink, l)
         else if rp_max_state_bytes (el_retention l) < length encoded then (Some EvTooLarge, l)
         else (None, l\<lparr>el_file := Some encoded\<rparr>))"

section \<open>Appending an event\<close>

definition event_time :: "(pyval \<Rightarrow> str) \<Rightarrow> (str \<Rightarrow> int option) \<Rightarrow> pyval \<Rightarrow> int option" where
  "event_time fr parse_time e =
     (case vget e ''timestamp'' of None \<Rightarrow> None | Some t \<Rightarrow> parse_time (py_str fr t))"

text \<open>How many events at the front are older than the cutoff; \<^verbatim>\<open>None\<close> when a time stamp cannot be read.\<close>

fun expired_count :: "(pyval \<Rightarrow> str) \<Rightarrow> (str \<Rightarrow> int option) \<Rightarrow> int \<Rightarrow> pyval list \<Rightarrow> nat option" where
  "expired_count fr parse_time cutoff [] = Some 0"
| "expired_count fr parse_time cutoff (e # es) =
     (case event_time fr parse_time e of
        None \<Rightarrow> None
      | Some t \<Rightarrow> if t < cutoff then map_option Suc (expired_count fr parse_time cutoff es) else Some 0)"

text \<open>Dropping \<open>n\<close> events from the front moves the anchor to the hash of the last of them.\<close>

definition drop_events :: "nat \<Rightarrow> pyval \<times> pyval list \<Rightarrow> pyval \<times> pyval list" where
  "drop_events n ae =
     (if n = 0 then ae
      else ((case vget (snd ae ! (n - 1)) ''event_hash'' of Some h \<Rightarrow> h | None \<Rightarrow> PNone), drop n (snd ae)))"

definition retain ::
  "(pyval \<Rightarrow> str) \<Rightarrow> (str \<Rightarrow> int option) \<Rightarrow> retention_policy \<Rightarrow> int \<Rightarrow> pyval \<times> pyval list \<Rightarrow> (pyval \<times> pyval list) option" where
  "retain fr parse_time r now ae =
     (case expired_count fr parse_time (now - rp_max_age_seconds r * 1000000) (snd ae) of
        None \<Rightarrow> None
      | Some first_keep \<Rightarrow>
          (let ae = drop_events first_keep ae
           in Some (if rp_max_events r \<le> length (snd ae)
                    then drop_events (length (snd ae) - rp_max_events r + 1) ae else ae)))"

text \<open>The values \<^verbatim>\<open>json.dumps\<close> takes without a default.\<close>

fun jsonable :: "pyval \<Rightarrow> bool" where
  "jsonable (PBytes b) = False"
| "jsonable (PKeyed kvs) = False"
| "jsonable (POther r) = False"
| "jsonable (PList vs) = list_all jsonable vs"
| "jsonable (PTuple vs) = list_all jsonable vs"
| "jsonable (PDict kvs) = list_all (\<lambda>(k, v). jsonable v) kvs"
| "jsonable PNone = True"
| "jsonable (PBool b) = True"
| "jsonable (PInt n) = True"
| "jsonable (PFloat x) = True"
| "jsonable (PStr s) = True"

record evidence_entry =
  ee_type :: str
  ee_action :: str
  ee_resource :: str
  ee_subject :: str
  ee_decision :: str
  ee_metadata :: payload

definition new_event ::
  "(bytes \<Rightarrow> str) \<Rightarrow> (bytes \<Rightarrow> bytes \<Rightarrow> str) \<Rightarrow> (pyval \<Rightarrow> str) \<Rightarrow> (int \<Rightarrow> str) \<Rightarrow> str \<Rightarrow> bytes \<Rightarrow> pyval \<Rightarrow> evidence_entry \<Rightarrow> int
     \<Rightarrow> payload" where
  "new_event sha hm fr isofmt token key previous x now =
     (let event =
            [(U ''version'', PInt 1), (U ''event_id'', PStr (U ''mvr_'' @ token)), (U ''timestamp'', PStr (isofmt now)),
             (U ''event_type'', PStr (ee_type x)), (U ''action'', PStr (ee_action x)),
             (U ''resource_id'', PStr (ee_resource x)), (U ''subject'', PStr (ee_subject x)),
             (U ''decision'', PStr (ee_decision x)), (U ''metadata'', PDict (ee_metadata x)),
             (U ''previous_hash'', previous)];
          h = sha (json_canonical fr (PDict event))
      in dset (U ''signature'') (PStr (hm key h)) (dset (U ''event_hash'') (PStr h) event))"

definition ledger_append ::
  "(bytes \<Rightarrow> str) \<Rightarrow> (bytes \<Rightarrow> bytes \<Rightarrow> str) \<Rightarrow> (pyval \<Rightarrow> str) \<Rightarrow> (str \<Rightarrow> pyfloat) \<Rightarrow> (int \<Rightarrow> str) \<Rightarrow> (str \<Rightarrow> int option)
     \<Rightarrow> str \<Rightarrow> evidence_ledger \<Rightarrow> evidence_entry \<Rightarrow> int \<Rightarrow> (evidence_error + payload) \<times> evidence_ledger" where
  "ledger_append sha hm fr fp isofmt parse_time token l x now =
     (if el_parent_link l then (Inl EvSymlink, l)
      else if el_locked l then (Inl EvLocked, l)
      else
        (case load sha hm fr fp l of
           (Inl e, l) \<Rightarrow> (Inl e, l)
         | (Inr p, l) \<Rightarrow>
             (let anchor = (case dget p (U ''anchor_hash'') of Some a \<Rightarrow> a | None \<Rightarrow> PNone)
              in (case retain fr parse_time (el_retention l) now (anchor, payload_events p) of
                    None \<Rightarrow> (Inl EvTimeEscapes, l)
                  | Some (anchor, events) \<Rightarrow>
                      (if \<not> jsonable (PDict (ee_metadata x)) then (Inl EvMetadataType, l)
                       else if 8192 < length (json_canonical fr (PDict (ee_metadata x))) then (Inl EvMetadataTooLarge, l)
                       else
                         (let event = new_event sha hm fr isofmt token (el_key l) (head_value anchor events) x now;
                              p = dset (U ''events'') (PList (events @ [PDict event])) (dset (U ''anchor_hash'') anchor p);
                              p = seal_payload hm fr (el_key l) p
                          in (case verify_payload sha hm fr (el_key l) p of
                                Some e \<Rightarrow> (Inl e, l)
                              | None \<Rightarrow>
                                  (case store fr p l of
                                     (Some e, l) \<Rightarrow> (Inl e, l)
                                   | (None, l) \<Rightarrow> (Inr event, l\<lparr>el_observed := True\<rparr>)))))))))"

definition ledger_events ::
  "(bytes \<Rightarrow> str) \<Rightarrow> (bytes \<Rightarrow> bytes \<Rightarrow> str) \<Rightarrow> (pyval \<Rightarrow> str) \<Rightarrow> (str \<Rightarrow> pyfloat) \<Rightarrow> evidence_ledger
     \<Rightarrow> (evidence_error + pyval list) \<times> evidence_ledger" where
  "ledger_events sha hm fr fp l =
     (case load sha hm fr fp l of (Inl e, l) \<Rightarrow> (Inl e, l) | (Inr p, l) \<Rightarrow> (Inr (payload_events p), l))"

definition ledger_verify ::
  "(bytes \<Rightarrow> str) \<Rightarrow> (bytes \<Rightarrow> bytes \<Rightarrow> str) \<Rightarrow> (pyval \<Rightarrow> str) \<Rightarrow> (str \<Rightarrow> pyfloat) \<Rightarrow> evidence_ledger
     \<Rightarrow> evidence_error option \<times> evidence_ledger" where
  "ledger_verify sha hm fr fp l =
     (if el_file l = None then (Some EvMissingFile, l)
      else (case load sha hm fr fp l of (Inl e, l) \<Rightarrow> (Some e, l) | (Inr p, l) \<Rightarrow> (None, l)))"

end
