(* ===== verification/MythosLedger.thy ===== *)
theory MythosLedger
  imports MythosEvidence
begin

text \<open>
  What the evidence ledger guarantees: the event loop implements the hash chain contract, so that
  dropping events from the front keeps the chain; every append leaves a file that loads and verifies;
  the file always holds a suffix of the events that were returned; and two accepted files with the same
  seal hold the same evidence unless HMAC collides.
\<close>

section \<open>The event chain\<close>

definition text_of :: "pyval option \<Rightarrow> str" where
  "text_of v = (case v of Some (PStr s) \<Rightarrow> s | _ \<Rightarrow> [])"

definition event_prev :: "pyval \<Rightarrow> str" where
  "event_prev e = text_of (vget e ''previous_hash'')"

definition event_own :: "pyval \<Rightarrow> str" where
  "event_own e = text_of (vget e ''event_hash'')"

definition event_sealed ::
  "(bytes \<Rightarrow> str) \<Rightarrow> (bytes \<Rightarrow> bytes \<Rightarrow> str) \<Rightarrow> (pyval \<Rightarrow> str) \<Rightarrow> bytes \<Rightarrow> pyval \<Rightarrow> bool" where
  "event_sealed sha hm fr key e \<longleftrightarrow> is_ok (verify_event sha hm fr key (event_prev e) e)"

definition events_ok ::
  "(bytes \<Rightarrow> str) \<Rightarrow> (bytes \<Rightarrow> bytes \<Rightarrow> str) \<Rightarrow> (pyval \<Rightarrow> str) \<Rightarrow> bytes \<Rightarrow> str \<Rightarrow> pyval list \<Rightarrow> bool" where
  "events_ok sha hm fr key p es \<longleftrightarrow> is_ok (verify_events sha hm fr key p es)"

lemma verify_event_Inr:
  assumes "verify_event sha hm fr key p e = Inr h"
  shows "event_prev e = p \<and> event_own e = h \<and> vget e ''event_hash'' = Some (PStr h) \<and>
    (\<exists>d. e = PDict d \<and> h = sha (json_canonical fr (canonical_event d)))"
  using assms
  by (auto simp: verify_event_def event_prev_def event_own_def vget_def text_of_def split: pyval.splits if_splits option.splits)

lemma verify_events_head:
  "verify_events sha hm fr key p es = Inr q \<Longrightarrow> q = chain_head event_own p es"
  by (induction es arbitrary: p) (auto split: sum.splits dest!: verify_event_Inr)

interpretation evidence: hash_chain event_prev event_own "event_sealed sha hm fr key" "events_ok sha hm fr key"
  for sha hm fr key
proof
  show "events_ok sha hm fr key p []" for p by (simp add: events_ok_def)
  show "events_ok sha hm fr key p (e # es) =
      (event_prev e = p \<and> event_sealed sha hm fr key e \<and> events_ok sha hm fr key (event_own e) es)" for p e es
    unfolding events_ok_def event_sealed_def
    by (cases "verify_event sha hm fr key p e"; cases "event_prev e = p") (auto dest: verify_event_Inr)
qed

lemma events_ok_Inr:
  "events_ok sha hm fr key p es \<longleftrightarrow> verify_events sha hm fr key p es = Inr (chain_head event_own p es)"
  using verify_events_head by (auto simp: events_ok_def is_ok_def split: sum.splits)

lemma sealed_hash:
  assumes "event_sealed sha hm fr key e"
  shows "vget e ''event_hash'' = Some (PStr (event_own e)) \<and> (\<exists>d. e = PDict d \<and> event_own e = sha (json_canonical fr (canonical_event d)))"
  using assms by (auto simp: event_sealed_def is_ok_def split: sum.splits dest: verify_event_Inr)

lemma head_value_chain:
  assumes "events_ok sha hm fr key a es"
  shows "head_value (PStr a) es = PStr (chain_head event_own a es)"
proof (cases "es = []")
  case False
  then have "event_sealed sha hm fr key (last es)" using evidence.chain_sealed [OF assms] by simp
  then show ?thesis using sealed_hash False by (fastforce simp: chain_head_def head_value_def)
qed (simp add: head_value_def)

section \<open>Retention keeps the chain\<close>

lemma drop_events_chain:
  assumes ok: "events_ok sha hm fr key a es" and n: "n \<le> length es"
  shows "drop_events n (PStr a, es) = (PStr (chain_head event_own a (take n es)), drop n es) \<and>
    events_ok sha hm fr key (chain_head event_own a (take n es)) (drop n es)"
proof (cases n)
  case (Suc m)
  have last: "last (take n es) = es ! m" using Suc n by (simp add: take_Suc_conv_app_nth)
  have "es ! m \<in> set es" using Suc n by simp
  then have "event_sealed sha hm fr key (es ! m)" by (rule evidence.chain_sealed [OF ok])
  then have "vget (es ! m) ''event_hash'' = Some (PStr (event_own (es ! m)))" using sealed_hash by blast
  then show ?thesis using Suc n last evidence.chain_drop [OF ok, of n]
    by (auto simp: drop_events_def chain_head_def)
qed (use ok in \<open>simp add: drop_events_def\<close>)

lemma expired_count_le: "expired_count fr parse_time cutoff es = Some n \<Longrightarrow> n \<le> length es"
  by (induction es arbitrary: n) (auto split: option.splits if_splits)

lemma head_not_Nil:
  assumes "hex_sha sha" "events_ok sha hm fr key a es" "a \<noteq> []" "ascii a"
  shows "chain_head event_own a es \<noteq> []" "ascii (chain_head event_own a es)"
proof -
  have "event_own e \<noteq> [] \<and> ascii (event_own e)" if "e \<in> set es" for e
    using sealed_hash [OF evidence.chain_sealed [OF assms(2) that]] assms(1) hex_char_plain
    unfolding hex_sha_def by metis
  then show "chain_head event_own a es \<noteq> []" "ascii (chain_head event_own a es)"
    using assms(3,4) by (auto simp: chain_head_def)
qed

lemma retain_chain:
  assumes ok: "events_ok sha hm fr key a es" and sha: "hex_sha sha" and a: "a \<noteq> []" "ascii a"
    and r: "1 \<le> rp_max_events r" and ret: "retain fr parse_time r now (PStr a, es) = Some (x, es')"
  shows "\<exists>k a'. k \<le> length es \<and> es' = drop k es \<and> x = PStr a' \<and> a' \<noteq> [] \<and> ascii a' \<and>
    events_ok sha hm fr key a' es' \<and> length es' < rp_max_events r"
proof -
  obtain n where n: "expired_count fr parse_time (now - rp_max_age_seconds r * 1000000) es = Some n"
    using ret by (auto simp: retain_def split: option.splits)
  let ?b = "chain_head event_own a (take n es)" and ?fs = "drop n es"
  have nl: "n \<le> length es" by (rule expired_count_le [OF n])
  note d1 = drop_events_chain [OF ok nl]
  have b: "?b \<noteq> []" "ascii ?b" using head_not_Nil [OF sha evidence.chain_take [OF ok] a] by auto
  show ?thesis
  proof (cases "rp_max_events r \<le> length ?fs")
    case False
    then show ?thesis using ret n d1 b nl by (auto simp: retain_def Let_def)
  next
    case True
    let ?m = "length ?fs - rp_max_events r + 1"
    have m: "?m \<le> length ?fs" using True r by simp
    note d2 = drop_events_chain [OF conjunct2 [OF d1] m]
    have c: "chain_head event_own ?b (take ?m ?fs) \<noteq> []" "ascii (chain_head event_own ?b (take ?m ?fs))"
      using head_not_Nil [OF sha evidence.chain_take [OF conjunct2 [OF d1]] b] by auto
    have "(x, es') = (PStr (chain_head event_own ?b (take ?m ?fs)), drop ?m ?fs)"
      using ret n d1 d2 True by (simp add: retain_def Let_def)
    moreover have "length (drop ?m ?fs) < rp_max_events r" using True r by simp
    moreover have "drop ?m ?fs = drop (?m + n) es" by simp
    moreover have "?m + n \<le> length es" using m by simp
    ultimately show ?thesis using c d2 by (metis prod.inject)
  qed
qed

section \<open>Loading what was stored\<close>

abbreviation norm_dict :: "payload \<Rightarrow> payload" where
  "norm_dict d \<equiv> sort_key fst (map (\<lambda>(k, v). (k, json_norm v)) d)"

lemma norm_PStr: "json_norm v = PStr s \<longleftrightarrow> v = PStr s"
  by (cases v) auto

lemma norm_PInt: "json_norm v = PInt n \<longleftrightarrow> v = PInt n"
  by (cases v) auto

lemma dpop_filter: "dpop k d = filter (\<lambda>(k', v). k' \<noteq> k) d"
  unfolding dpop_def AList.delete_eq by (rule filter_cong) auto

lemma canonical_filter: "canonical_event d = PDict (filter (\<lambda>(k, v). k \<noteq> U ''event_hash'' \<and> k \<noteq> U ''signature'') d)"
  unfolding canonical_event_def dpop_filter filter_filter
  by (intro arg_cong [of _ _ PDict] filter_cong) auto

lemma canonical_norm: "json_canonical fr (canonical_event (norm_dict d)) = json_canonical fr (canonical_event d)"
  using dumps_norm [of fr "[44]" "[58]" "canonical_event d"] norm_filter_keys [of "\<lambda>k. k \<noteq> U ''event_hash'' \<and> k \<noteq> U ''signature''" d]
  unfolding json_canonical_def canonical_filter by simp

lemma unsealed_norm: "json_canonical fr (PDict (unsealed (norm_dict d))) = json_canonical fr (PDict (unsealed d))"
  using dumps_norm [of fr "[44]" "[58]" "PDict (unsealed d)"] norm_filter_keys [of "\<lambda>k. k \<noteq> U ''seal''" d]
  unfolding json_canonical_def unsealed_def by simp

lemma verify_event_norm:
  assumes "plain e" "verify_event sha hm fr key p e = Inr h"
  shows "verify_event sha hm fr key p (json_norm e) = Inr h"
proof -
  obtain d where e: "e = PDict d" using assms(2) by (auto simp: verify_event_def split: pyval.splits)
  have "distinct (map fst d)" using assms(1) e by simp
  note look = dget_norm [OF this]
  show ?thesis using assms(2) unfolding e json_norm.simps verify_event_def pyval.case look canonical_norm
    by (auto split: if_splits option.splits pyval.splits)
qed

lemma verify_events_norm:
  "list_all plain es \<Longrightarrow> verify_events sha hm fr key p es = Inr h \<Longrightarrow> verify_events sha hm fr key p (map json_norm es) = Inr h"
  by (induction es arbitrary: p) (auto split: sum.splits dest: verify_event_norm)

text \<open>A payload that the ledger may hold.\<close>

definition sound_payload ::
  "(bytes \<Rightarrow> str) \<Rightarrow> (bytes \<Rightarrow> bytes \<Rightarrow> str) \<Rightarrow> (pyval \<Rightarrow> str) \<Rightarrow> bytes \<Rightarrow> payload \<Rightarrow> bool" where
  "sound_payload sha hm fr key p \<longleftrightarrow> plain (PDict p) \<and> verify_payload sha hm fr key p = None \<and>
     dget p (U ''version'') = Some (PInt 2) \<and>
     (\<exists>a. dget p (U ''anchor_hash'') = Some (PStr a) \<and> a \<noteq> [] \<and> ascii a)"

lemma verify_payload_intro:
  assumes "set (dkeys p) = envelope_keys" "dget p (U ''version'') = Some (PInt 2)"
    and "dget p (U ''anchor_hash'') = Some (PStr a)" "a \<noteq> []"
    and "dget p (U ''events'') = Some (PList es)" "dget p (U ''event_count'') = Some (PInt (int (length es)))"
    and "dget p (U ''seal'') = Some (PStr (seal_of hm fr key p))" "ascii (seal_of hm fr key p)"
    and "verify_events sha hm fr key a es = Inr q" "dget p (U ''head_hash'') = Some (PStr q)" "ascii q"
  shows "verify_payload sha hm fr key p = None"
proof -
  have "version_is p 2" "anchor_of fr p = a"
    using assms(2,3,4) by (auto simp: version_is_def py_eq_int_def anchor_of_def truthy_def py_str_def)
  with assms show ?thesis by (simp add: verify_payload_def ascii_def)
qed

lemma verify_payload_dest:
  assumes "verify_payload sha hm fr key p = None"
  shows "set (dkeys p) = envelope_keys \<and> version_is p 2 \<and>
    (\<exists>es q. dget p (U ''events'') = Some (PList es) \<and> dget p (U ''event_count'') = Some (PInt (int (length es))) \<and>
      dget p (U ''seal'') = Some (PStr (seal_of hm fr key p)) \<and> ascii (seal_of hm fr key p) \<and>
      verify_events sha hm fr key (anchor_of fr p) es = Inr q \<and> dget p (U ''head_hash'') = Some (PStr q) \<and> ascii q)"
proof -
  have keys: "set (dkeys p) = envelope_keys" "version_is p 2"
    using assms by (auto simp: verify_payload_def split: if_splits)
  note rest = assms [unfolded verify_payload_def, simplified keys, simplified]
  obtain es n where es: "dget p (U ''events'') = Some (PList es)" "dget p (U ''event_count'') = Some (PInt n)"
    using rest by (auto split: option.splits pyval.splits)
  obtain s where s: "dget p (U ''seal'') = Some (PStr s)"
    using rest es by (auto split: option.splits pyval.splits if_splits)
  obtain q where q: "verify_events sha hm fr key (anchor_of fr p) es = Inr q"
    using rest es s by (auto split: sum.splits if_splits)
  obtain h where h: "dget p (U ''head_hash'') = Some (PStr h)"
    using rest es s q by (auto split: option.splits pyval.splits if_splits)
  show ?thesis using rest es s q h keys by (auto simp: ascii_def split: if_splits)
qed

lemma sound_parts:
  assumes "sound_payload sha hm fr key p"
  shows "\<exists>a es. dget p (U ''anchor_hash'') = Some (PStr a) \<and> a \<noteq> [] \<and> ascii a \<and> anchor_of fr p = a \<and>
    dget p (U ''events'') = Some (PList es) \<and> payload_events p = es \<and> events_ok sha hm fr key a es \<and>
    list_all plain es \<and> set (dkeys p) = envelope_keys"
proof -
  obtain a where a: "dget p (U ''anchor_hash'') = Some (PStr a)" "a \<noteq> []" "ascii a"
    and v: "verify_payload sha hm fr key p = None" and pl: "plain (PDict p)"
    using assms by (auto simp: sound_payload_def)
  from a have anc: "anchor_of fr p = a" by (auto simp: anchor_of_def truthy_def py_str_def)
  from verify_payload_dest [OF v] obtain es q where es: "dget p (U ''events'') = Some (PList es)"
    "verify_events sha hm fr key (anchor_of fr p) es = Inr q" and keys: "set (dkeys p) = envelope_keys" by auto
  have "(U ''events'', PList es) \<in> set p" using es(1) by (simp add: dget_def map_of_SomeD)
  then have "list_all plain es" using pl by (auto simp: list_all_iff)
  with a anc es keys show ?thesis by (auto simp: payload_events_def events_ok_def)
qed

lemma sound_norm:
  assumes "sound_payload sha hm fr key p"
  shows "sound_payload sha hm fr key (norm_dict p)" "payload_events (norm_dict p) = map json_norm (payload_events p)"
proof -
  have pl: "plain (PDict p)" and v: "verify_payload sha hm fr key p = None"
    and ver: "dget p (U ''version'') = Some (PInt 2)"
    using assms by (auto simp: sound_payload_def)
  have d: "distinct (map fst p)" using pl by simp
  note look = dget_norm [OF d]
  obtain a es where a: "dget p (U ''anchor_hash'') = Some (PStr a)" "a \<noteq> []" "ascii a" "anchor_of fr p = a"
    and es: "dget p (U ''events'') = Some (PList es)" "list_all plain es" "payload_events p = es"
    using sound_parts [OF assms] by blast
  from verify_payload_dest [OF v] es(1) a(4) obtain q where
    q: "dget p (U ''event_count'') = Some (PInt (int (length es)))" "dget p (U ''seal'') = Some (PStr (seal_of hm fr key p))"
    "ascii (seal_of hm fr key p)" "verify_events sha hm fr key a es = Inr q" "dget p (U ''head_hash'') = Some (PStr q)"
    "ascii q" and keys: "set (dkeys p) = envelope_keys" by auto
  have seal: "seal_of hm fr key (norm_dict p) = seal_of hm fr key p" by (simp add: seal_of_def unsealed_norm)
  have "verify_payload sha hm fr key (norm_dict p) = None"
    by (rule verify_payload_intro [of _ a "map json_norm es" hm fr key sha q])
      (use keys ver a es q verify_events_norm [OF es(2) q(4)] in \<open>simp_all add: dkeys_norm look seal\<close>)
  moreover have "plain (PDict (norm_dict p))" using plain_norm [OF pl] by simp
  ultimately show "sound_payload sha hm fr key (norm_dict p)"
    using ver a by (simp add: sound_payload_def look)
  show "payload_events (norm_dict p) = map json_norm (payload_events p)"
    using es by (simp add: payload_events_def look)
qed

lemma parse_stored:
  assumes io: "float_io fr fp" and p: "sound_payload sha hm fr key p"
    and size: "length (json_indented fr (PDict p) @ [10]) \<le> m"
  shows "parse_ledger sha hm fr fp key m (json_indented fr (PDict p) @ [10]) = Inr (norm_dict p)"
proof -
  have pl: "plain (PDict p)" using p by (simp add: sound_payload_def)
  have "list_all (\<lambda>c. c < 128) (json_indented fr (PDict p) @ [10])"
    using indented_ascii [OF _ pl] io by (auto simp: list_all_iff float_io_def)
  then have "utf8_decode (json_indented fr (PDict p) @ [10]) = Some (json_indented fr (PDict p) @ [10])"
    by (rule utf8_decode_ascii)
  moreover have "json_loads fp (json_indented fr (PDict p) @ [10]) = Some (PDict (norm_dict p))"
    using loads_indented [OF _ pl, of fr fp] io by (simp add: float_io_def)
  moreover note sound_norm(1) [OF p]
  moreover obtain es where "dget (norm_dict p) (U ''events'') = Some (PList es)"
    using sound_parts [OF sound_norm(1) [OF p]] by blast
  ultimately show ?thesis using size
    by (auto simp: parse_ledger_def sound_payload_def version_is_def py_eq_int_def simp del: append.simps)
qed

section \<open>Sealing\<close>

lemma unsealed_dset: "unsealed (dset (U ''seal'') v p) = unsealed p"
proof (induction p)
  case (Cons e p)
  then show ?case by (cases e) (simp add: unsealed_def dset_def)
qed (simp add: unsealed_def dset_def)

lemma seal_of_dset: "seal_of hm fr key (dset (U ''seal'') v p) = seal_of hm fr key p"
  by (simp add: seal_of_def unsealed_dset)

lemma plain_text: "ascii s \<Longrightarrow> plain (PStr s)"
  by (simp add: ascii_scalar)

lemma seal_sound:
  assumes hm: "hex_hmac hm" and sha: "hex_sha sha" and pl: "plain (PDict p)"
    and keys: "set (dkeys p) \<union> {U ''event_count'', U ''head_hash'', U ''seal''} = envelope_keys"
    and ver: "dget p (U ''version'') = Some (PInt 2)"
    and a: "dget p (U ''anchor_hash'') = Some (PStr a)" "a \<noteq> []" "ascii a"
    and es: "dget p (U ''events'') = Some (PList es)" and ok: "events_ok sha hm fr key a es"
  shows "sound_payload sha hm fr key (seal_payload hm fr key p) \<and> payload_events (seal_payload hm fr key p) = es"
proof -
  let ?q = "chain_head event_own a es"
  have ev: "payload_events p = es" using es by (simp add: payload_events_def)
  have q: "ascii ?q" by (rule head_not_Nil(2) [OF sha ok a(2,3)])
  have head: "head_value (PStr a) es = PStr ?q" by (rule head_value_chain [OF ok])
  let ?b = "dset (U ''head_hash'') (PStr ?q) (dset (U ''event_count'') (PInt (int (length es))) p)"
  have form: "seal_payload hm fr key p = dset (U ''seal'') (PStr (seal_of hm fr key ?b)) ?b"
    using head a(1) unfolding seal_payload_def ev Let_def by simp
  have seal: "ascii (seal_of hm fr key ?b)"
    using hm hex_char_plain unfolding seal_of_def hex_hmac_def by blast
  have v: "verify_payload sha hm fr key (seal_payload hm fr key p) = None"
    unfolding form
    by (rule verify_payload_intro [of _ a es hm fr key sha ?q])
      (use keys ver a es q seal ok in \<open>simp_all add: dkeys_dset_set seal_of_dset events_ok_Inr insert_commute\<close>)
  have "plain (PDict (seal_payload hm fr key p))"
    unfolding form by (intro plain_dset pl plain_text q seal) simp_all
  with v show ?thesis using ver a es by (simp add: sound_payload_def form payload_events_def)
qed

lemma new_payload_sound:
  assumes "hex_hmac hm" "hex_sha sha"
  shows "sound_payload sha hm fr key (new_payload hm fr key) \<and> payload_events (new_payload hm fr key) = []"
  unfolding new_payload_def
proof (rule seal_sound [OF assms])
  show "ascii GENESIS" "GENESIS \<noteq> []" by (simp_all add: GENESIS_def ascii_def list_all_iff)
  show "plain (PDict [(U ''version'', PInt 2), (U ''anchor_hash'', PStr GENESIS), (U ''events'', PList [])])"
    by (simp add: GENESIS_def list_all_iff scalar_def) (simp add: U_def)
qed (auto simp: dget_def dkeys_def envelope_keys_def events_ok_def)

section \<open>Appending\<close>

definition entry_wf :: "evidence_entry \<Rightarrow> bool" where
  "entry_wf x \<longleftrightarrow> list_all (list_all scalar) [ee_type x, ee_action x, ee_resource x, ee_subject x, ee_decision x] \<and>
     plain (PDict (ee_metadata x))"

lemma dpop_absent: "\<not> din k d \<Longrightarrow> dpop k d = d"
  unfolding dpop_filter by (induction d) (auto simp: din_def)

lemma dpop_append: "dpop k (d @ f) = dpop k d @ dpop k f"
  by (simp add: dpop_filter)

lemma dpop_snoc: "\<not> din k d \<Longrightarrow> dpop k (d @ [(k, v)]) = d"
  by (simp add: dpop_append dpop_absent) (simp add: dpop_filter)

lemma new_event_ok:
  assumes hm: "hex_hmac hm" and sha: "hex_sha sha" and x: "entry_wf x" "list_all scalar token" "ascii (isofmt now)"
    and p: "ascii prev"
    and e_def: "e = new_event sha hm fr isofmt token key (PStr prev) x now"
  shows "\<exists>h. verify_event sha hm fr key prev (PDict e) = Inr h" "plain (PDict e)"
    "dget e (U ''timestamp'') = Some (PStr (isofmt now))" "dget e (U ''decision'') = Some (PStr (ee_decision x))"
    "dget e (U ''subject'') = Some (PStr (ee_subject x))" "dget e (U ''action'') = Some (PStr (ee_action x))"
    "dget e (U ''resource_id'') = Some (PStr (ee_resource x))" "dget e (U ''event_type'') = Some (PStr (ee_type x))"
    "dget e (U ''metadata'') = Some (PDict (ee_metadata x))"
proof -
  define b where "b = [(U ''version'', PInt 1), (U ''event_id'', PStr (U ''mvr_'' @ token)), (U ''timestamp'', PStr (isofmt now)),
             (U ''event_type'', PStr (ee_type x)), (U ''action'', PStr (ee_action x)),
             (U ''resource_id'', PStr (ee_resource x)), (U ''subject'', PStr (ee_subject x)),
             (U ''decision'', PStr (ee_decision x)), (U ''metadata'', PDict (ee_metadata x)),
             (U ''previous_hash'', PStr prev)]"
  define h where "h = sha (json_canonical fr (PDict b))"
  have e: "e = dset (U ''signature'') (PStr (hm key h)) (dset (U ''event_hash'') (PStr h) b)"
    by (simp add: e_def new_event_def b_def h_def Let_def)
  have nin: "\<not> din (U ''event_hash'') b" "\<not> din (U ''signature'') (b @ [(U ''event_hash'', PStr h)])"
    by (simp_all add: b_def din_def dkeys_def)
  have e2: "e = (b @ [(U ''event_hash'', PStr h)]) @ [(U ''signature'', PStr (hm key h))]"
    unfolding e dset_new [OF nin(1)] by (rule dset_new [OF nin(2)])
  have s_nin: "\<not> din (U ''event_hash'') (b @ [(U ''signature'', PStr (hm key h))])" by (simp add: b_def din_def dkeys_def)
  have "dpop (U ''event_hash'') e = b @ [(U ''signature'', PStr (hm key h))]"
    unfolding e2 dpop_append dpop_absent [OF nin(1)] by (simp add: dpop_filter)
  moreover have "dpop (U ''signature'') (b @ [(U ''signature'', PStr (hm key h))]) = b"
    by (rule dpop_snoc) (simp add: b_def din_def dkeys_def)
  ultimately have can: "canonical_event e = PDict b" by (simp add: canonical_event_def)
  have hh: "ascii h" "ascii (hm key h)"
    using sha hm hex_char_plain unfolding h_def hex_sha_def hex_hmac_def by blast+
  have prev: "dget e (U ''previous_hash'') = Some (PStr prev)" by (simp add: e b_def) (simp add: dget_def)
  have "verify_event sha hm fr key prev (PDict e) = Inr h"
    unfolding verify_event_def pyval.case prev can by (simp add: e hh h_def [symmetric])
  then show "\<exists>h. verify_event sha hm fr key prev (PDict e) = Inr h" by blast
  have "plain (PDict b)"
    using x p ascii_scalar by (simp add: b_def entry_wf_def)
  then show "plain (PDict e)" unfolding e by (intro plain_dset plain_text hh) simp_all
  show "dget e (U ''timestamp'') = Some (PStr (isofmt now))" "dget e (U ''decision'') = Some (PStr (ee_decision x))"
    "dget e (U ''subject'') = Some (PStr (ee_subject x))" "dget e (U ''action'') = Some (PStr (ee_action x))"
    "dget e (U ''resource_id'') = Some (PStr (ee_resource x))" "dget e (U ''event_type'') = Some (PStr (ee_type x))"
    "dget e (U ''metadata'') = Some (PDict (ee_metadata x))"
    by (simp_all add: e b_def) (simp_all add: dget_def)
qed

text \<open>A ledger that this code alone has written: no file yet, or the stored form of a sound payload.\<close>

definition ledger_sound ::
  "(bytes \<Rightarrow> str) \<Rightarrow> (bytes \<Rightarrow> bytes \<Rightarrow> str) \<Rightarrow> (pyval \<Rightarrow> str) \<Rightarrow> evidence_ledger \<Rightarrow> bool" where
  "ledger_sound sha hm fr l \<longleftrightarrow> retention_ok (el_retention l) \<and> \<not> el_parent_link l \<and> \<not> el_path_link l \<and>
     (case el_file l of
        None \<Rightarrow> \<not> el_observed l
      | Some c \<Rightarrow> length c \<le> rp_max_state_bytes (el_retention l) \<and>
          (\<exists>p. sound_payload sha hm fr (el_key l) p \<and> c = json_indented fr (PDict p) @ [10] \<and>
             length (payload_events p) \<le> rp_max_events (el_retention l)))"

definition held ::
  "(bytes \<Rightarrow> str) \<Rightarrow> (bytes \<Rightarrow> bytes \<Rightarrow> str) \<Rightarrow> (pyval \<Rightarrow> str) \<Rightarrow> (str \<Rightarrow> pyfloat) \<Rightarrow> evidence_ledger \<Rightarrow> pyval list" where
  "held sha hm fr fp l = (case fst (ledger_events sha hm fr fp l) of Inr es \<Rightarrow> es | Inl _ \<Rightarrow> [])"

lemma load_sound:
  assumes d: "doc_params sha hm fr fp isofmt parse_time" and l: "ledger_sound sha hm fr l"
  shows "\<exists>p. load sha hm fr fp l = (Inr p, l\<lparr>el_observed := (el_file l \<noteq> None)\<rparr>) \<and>
    sound_payload sha hm fr (el_key l) p \<and> held sha hm fr fp l = payload_events p \<and>
    map json_norm (payload_events p) = payload_events p \<and> length (payload_events p) \<le> rp_max_events (el_retention l)"
proof (cases "el_file l")
  case None
  have "load sha hm fr fp l = (Inr (new_payload hm fr (el_key l)), l\<lparr>el_observed := False\<rparr>)"
    using l None by (simp add: load_def ledger_sound_def)
  moreover have "held sha hm fr fp l = payload_events (new_payload hm fr (el_key l))"
    using calculation by (simp add: held_def ledger_events_def)
  ultimately show ?thesis using None new_payload_sound [of hm sha fr "el_key l"] d
    by (auto simp: doc_params_def)
next
  case (Some c)
  then obtain p where p: "sound_payload sha hm fr (el_key l) p" "c = json_indented fr (PDict p) @ [10]"
    and sz: "length c \<le> rp_max_state_bytes (el_retention l)" "length (payload_events p) \<le> rp_max_events (el_retention l)"
    using l by (auto simp: ledger_sound_def)
  have io: "float_io fr fp" using d by (simp add: doc_params_def)
  have ld: "load sha hm fr fp l = (Inr (norm_dict p), l\<lparr>el_observed := True\<rparr>)"
    using l Some parse_stored [OF io p(1)] sz(1) p(2) by (simp add: load_def ledger_sound_def)
  have ev: "payload_events (norm_dict p) = map json_norm (payload_events p)" by (rule sound_norm(2) [OF p(1)])
  have "held sha hm fr fp l = payload_events (norm_dict p)" by (simp add: held_def ledger_events_def ld)
  with ld ev sound_norm(1) [OF p(1)] sz(2) Some show ?thesis by (auto simp: norm_idem)
qed

text \<open>An append either fails and leaves the file alone, or stores a sound payload that ends with the event.\<close>

lemma append_sound:
  assumes d: "doc_params sha hm fr fp isofmt parse_time" and l: "ledger_sound sha hm fr l"
    and x: "entry_wf x" "list_all scalar token"
  shows "case ledger_append sha hm fr fp isofmt parse_time token l x now of
      (Inl e, l') \<Rightarrow> l' = l\<lparr>el_observed := el_observed l'\<rparr> \<and> ledger_sound sha hm fr l'
    | (Inr ev, l') \<Rightarrow> ledger_sound sha hm fr l' \<and> el_file l' \<noteq> None \<and> \<not> el_locked l' \<and>
        el_retention l' = el_retention l \<and> el_key l' = el_key l \<and>
        (\<exists>k prev. held sha hm fr fp l' = drop k (held sha hm fr fp l) @ [json_norm (PDict ev)] \<and> ascii prev \<and>
           ev = new_event sha hm fr isofmt token (el_key l) (PStr prev) x now)"
proof -
  have hs: "hex_sha sha" "hex_hmac hm" "float_io fr fp" "ascii (isofmt now)"
    using d by (auto simp: doc_params_def time_text_def)
  obtain p where ld: "load sha hm fr fp l = (Inr p, l\<lparr>el_observed := (el_file l \<noteq> None)\<rparr>)"
    and p: "sound_payload sha hm fr (el_key l) p" and h: "held sha hm fr fp l = payload_events p"
    and idem: "map json_norm (payload_events p) = payload_events p"
    using load_sound [OF d l] by blast
  let ?l = "l\<lparr>el_observed := (el_file l \<noteq> None)\<rparr>"
  have fails: "?l = l\<lparr>el_observed := el_observed ?l\<rparr> \<and> ledger_sound sha hm fr ?l"
    using l by (auto simp: ledger_sound_def split: option.splits)
  have links: "\<not> el_parent_link l" "\<not> el_path_link l" using l by (auto simp: ledger_sound_def)
  obtain a es where a: "dget p (U ''anchor_hash'') = Some (PStr a)" "a \<noteq> []" "ascii a" and es: "payload_events p = es"
    and ok: "events_ok sha hm fr (el_key l) a es" "list_all plain es" and keys: "set (dkeys p) = envelope_keys"
    using sound_parts [OF p] by blast
  let ?out = "ledger_append sha hm fr fp isofmt parse_time token l x now"
  show ?thesis
  proof (cases "el_locked l \<or> retain fr parse_time (el_retention l) now (PStr a, es) = None \<or>
      \<not> jsonable (PDict (ee_metadata x)) \<or> 8192 < length (json_canonical fr (PDict (ee_metadata x)))")
    case True
    show ?thesis
    proof (cases "el_locked l")
      case True
      then show ?thesis using links l by (simp add: ledger_append_def)
    next
      case False
      with True have "\<exists>e. ?out = (Inl e, ?l)"
        using links ld a(1) es by (auto simp: ledger_append_def Let_def split: option.split)
      with fails show ?thesis by auto
    qed
  next
    case False
    then obtain b fs where ret: "retain fr parse_time (el_retention l) now (PStr a, es) = Some (b, fs)" by auto
    have "1 \<le> rp_max_events (el_retention l)" using l by (auto simp: ledger_sound_def retention_ok_def)
    from retain_chain [OF ok(1) hs(1) a(2,3) this ret]
    obtain k a' where k: "k \<le> length es" "fs = drop k es" "b = PStr a'" "a' \<noteq> []" "ascii a'"
      and okf: "events_ok sha hm fr (el_key l) a' fs" and lenf: "length fs < rp_max_events (el_retention l)" by blast
    let ?prev = "chain_head event_own a' fs"
    have prev: "ascii ?prev" by (rule head_not_Nil(2) [OF hs(1) okf k(4,5)])
    have prev_eq: "head_value (PStr a') fs = PStr ?prev" by (rule head_value_chain [OF okf])
    let ?ev = "new_event sha hm fr isofmt token (el_key l) (PStr ?prev) x now"
    obtain hh where ev: "verify_event sha hm fr (el_key l) ?prev (PDict ?ev) = Inr hh" and ev_plain: "plain (PDict ?ev)"
      using new_event_ok(1,2) [where isofmt = isofmt and now = now, OF hs(2,1) x hs(4) prev refl] by blast
    let ?es = "fs @ [PDict ?ev]"
    have oke: "events_ok sha hm fr (el_key l) a' ?es"
      using okf ev verify_event_Inr [OF ev] by (auto simp: evidence.chain_snoc event_sealed_def)
    let ?q = "dset (U ''events'') (PList ?es) (dset (U ''anchor_hash'') (PStr a') p)"
    let ?s = "seal_payload hm fr (el_key l) ?q"
    have "plain (PDict p)" using p by (simp add: sound_payload_def)
    moreover have "list_all plain fs" using ok(2) k(2) by (auto simp: list_all_iff dest: in_set_dropD)
    ultimately have qp: "plain (PDict ?q)"
      using ev_plain by (intro plain_dset plain_text k(5)) (simp_all del: plain.simps(7))
    have s: "sound_payload sha hm fr (el_key l) ?s \<and> payload_events ?s = ?es"
      by (rule seal_sound [OF hs(2,1) qp _ _ _ k(4,5) _ oke])
        (use keys p in \<open>auto simp: dkeys_dset_set envelope_keys_def sound_payload_def\<close>)
    then have v: "verify_payload sha hm fr (el_key l) ?s = None" by (simp add: sound_payload_def)
    have out: "?out = (case store fr ?s ?l of (Some e, l) \<Rightarrow> (Inl e, l) | (None, l) \<Rightarrow> (Inr ?ev, l\<lparr>el_observed := True\<rparr>))"
      using links False ld a(1) es ret prev_eq v k(3)
      by (simp add: ledger_append_def Let_def split: option.split prod.split)
    show ?thesis
    proof (cases "rp_max_state_bytes (el_retention l) < length (json_indented fr (PDict ?s) @ [10])")
      case True
      then show ?thesis using out links fails by (simp add: store_def Let_def)
    next
      case fits: False
      define l' where "l' = ?l\<lparr>el_file := Some (json_indented fr (PDict ?s) @ [10]), el_observed := True\<rparr>"
      have res: "?out = (Inr ?ev, l')" using out links fits by (simp add: store_def Let_def l'_def)
      have sound: "ledger_sound sha hm fr l'"
        using l links fits s lenf by (auto simp: ledger_sound_def l'_def intro!: exI [of _ ?s])
      have "held sha hm fr fp l' = payload_events (norm_dict ?s)"
        using parse_stored [OF hs(3) conjunct1 [OF s]] links fits
        by (simp add: held_def ledger_events_def load_def l'_def)
      then have "held sha hm fr fp l' = map json_norm ?es" using sound_norm(2) [OF conjunct1 [OF s]] s by simp
      moreover have "map json_norm fs = drop k (held sha hm fr fp l)"
        using idem es h k(2) by (simp add: drop_map [symmetric])
      ultimately have "held sha hm fr fp l' = drop k (held sha hm fr fp l) @ [json_norm (PDict ?ev)]" by simp
      then show ?thesis using res sound prev False unfolding res prod.case sum.case
        by (intro conjI exI [of _ k] exI [of _ ?prev]) (simp_all add: l'_def)
    qed
  qed
qed

section \<open>Sequences of appends\<close>

text \<open>Running a list of appends (random part, entry, time) collects the events they returned.\<close>

fun append_all ::
  "(bytes \<Rightarrow> str) \<Rightarrow> (bytes \<Rightarrow> bytes \<Rightarrow> str) \<Rightarrow> (pyval \<Rightarrow> str) \<Rightarrow> (str \<Rightarrow> pyfloat) \<Rightarrow> (int \<Rightarrow> str) \<Rightarrow> (str \<Rightarrow> int option)
     \<Rightarrow> (str \<times> evidence_entry \<times> int) list \<Rightarrow> evidence_ledger \<Rightarrow> pyval list \<times> evidence_ledger" where
  "append_all sha hm fr fp isofmt parse_time [] l = ([], l)"
| "append_all sha hm fr fp isofmt parse_time ((token, x, now) # ops) l =
     (case ledger_append sha hm fr fp isofmt parse_time token l x now of
        (Inl e, l') \<Rightarrow> append_all sha hm fr fp isofmt parse_time ops l'
      | (Inr ev, l') \<Rightarrow>
          (let (evs, l'') = append_all sha hm fr fp isofmt parse_time ops l' in (json_norm (PDict ev) # evs, l'')))"

definition op_wf :: "str \<times> evidence_entry \<times> int \<Rightarrow> bool" where
  "op_wf op \<longleftrightarrow> entry_wf (fst (snd op)) \<and> list_all scalar (fst op)"

lemma held_observed: "held sha hm fr fp (l\<lparr>el_observed := b\<rparr>) = held sha hm fr fp l"
  if "el_file l \<noteq> None \<or> (b = el_observed l)" for l
proof (cases "el_file l")
  case None
  with that have "l\<lparr>el_observed := b\<rparr> = l" by simp
  then show ?thesis by simp
next
  case (Some c)
  then show ?thesis by (simp add: held_def ledger_events_def load_def split: sum.split)
qed

lemma append_all_sound:
  assumes d: "doc_params sha hm fr fp isofmt parse_time"
  shows "list_all op_wf ops \<Longrightarrow> ledger_sound sha hm fr l \<Longrightarrow> suffix (held sha hm fr fp l) past \<Longrightarrow>
    past \<noteq> [] \<longrightarrow> el_file l \<noteq> None \<and> held sha hm fr fp l \<noteq> [] \<Longrightarrow>
    append_all sha hm fr fp isofmt parse_time ops l = (evs, l'') \<Longrightarrow>
    ledger_sound sha hm fr l'' \<and> suffix (held sha hm fr fp l'') (past @ evs) \<and> el_retention l'' = el_retention l \<and>
    (past @ evs \<noteq> [] \<longrightarrow> el_file l'' \<noteq> None \<and> held sha hm fr fp l'' \<noteq> [])"
proof (induction ops arbitrary: l past evs)
  case (Cons op ops)
  obtain token x now where op: "op = (token, x, now)" by (cases op)
  have "op_wf op" and ops: "list_all op_wf ops" using Cons.prems(1) by simp_all
  then have x: "entry_wf x" "list_all scalar token" using op by (simp_all add: op_wf_def)
  note step = append_sound [OF d Cons.prems(2) x, of now]
  show ?case
  proof (cases "ledger_append sha hm fr fp isofmt parse_time token l x now")
    case (Pair res l1)
    show ?thesis
    proof (cases res)
      case (Inl e)
      from step Pair Inl have l1: "l1 = l\<lparr>el_observed := el_observed l1\<rparr>" "ledger_sound sha hm fr l1" by auto
      have f: "el_file l1 = el_file l" "el_retention l1 = el_retention l" by (subst l1(1), simp)+
      have "el_file l \<noteq> None \<or> el_observed l1 = el_observed l"
        using l1(2) Cons.prems(2) f by (auto simp: ledger_sound_def split: option.splits)
      then have h: "held sha hm fr fp l1 = held sha hm fr fp l" using held_observed l1(1) by metis
      have "append_all sha hm fr fp isofmt parse_time ops l1 = (evs, l'')"
        using Cons.prems(5) Pair Inl op by simp
      from Cons.IH [OF ops l1(2) _ _ this, of past] h f Cons.prems(3,4) show ?thesis by simp
    next
      case (Inr ev)
      from step Pair Inr obtain k where l1: "ledger_sound sha hm fr l1" "el_file l1 \<noteq> None" "el_retention l1 = el_retention l"
        and h: "held sha hm fr fp l1 = drop k (held sha hm fr fp l) @ [json_norm (PDict ev)]" by auto
      obtain evs' where run: "append_all sha hm fr fp isofmt parse_time ops l1 = (evs', l'')" "evs = json_norm (PDict ev) # evs'"
        using Cons.prems(5) Pair Inr op by (auto split: prod.splits)
      have "suffix (held sha hm fr fp l1) (past @ [json_norm (PDict ev)])"
        using Cons.prems(3) unfolding h by (meson same_suffix_suffix suffix_drop suffix_order.trans)
      from Cons.IH [OF ops l1(1) this _ run(1)] l1 h run(2) show ?thesis by simp
    qed
  qed
qed simp

lemma open_sound:
  assumes "open_ledger key r None = Inr l" "retention_ok r"
  shows "ledger_sound sha hm fr l" "el_file l = None" "el_retention l = r"
  using assms by (auto simp: open_ledger_def ledger_sound_def split: if_splits)

lemma held_open:
  assumes "doc_params sha hm fr fp isofmt parse_time" "open_ledger key r None = Inr l" "retention_ok r"
  shows "held sha hm fr fp l = []"
proof -
  have "load sha hm fr fp l = (Inr (new_payload hm fr (el_key l)), l)"
    using assms(2) by (auto simp: open_ledger_def load_def split: if_splits)
  then show ?thesis
    using new_payload_sound [of hm sha fr "el_key l"] assms(1) by (simp add: held_def ledger_events_def doc_params_def)
qed

section \<open>Properties\<close>

text \<open>C22: whatever sequence of appends runs on a ledger that starts without a file (some may fail), the file keeps
  verifying, and it holds the last events that were returned, in order, ending with the newest: never more than
  the policy allows, never one that was not returned.\<close>
theorem evidence_is_suffix:
  assumes d: "doc_params sha hm fr fp isofmt parse_time" and r: "retention_ok r"
    and fresh: "open_ledger key r None = Inr l0" and ops: "list_all op_wf ops"
    and run: "append_all sha hm fr fp isofmt parse_time ops l0 = (evs, l)"
  shows "suffix (held sha hm fr fp l) evs \<and> length (held sha hm fr fp l) \<le> rp_max_events r \<and>
    (evs = [] \<or> fst (ledger_verify sha hm fr fp l) = None \<and> held sha hm fr fp l \<noteq> [])"
proof -
  have "suffix (held sha hm fr fp l0) []" using held_open [OF d fresh r] by simp
  from append_all_sound [OF d ops open_sound(1) [OF fresh r] this _ run]
  have l: "ledger_sound sha hm fr l" "suffix (held sha hm fr fp l) evs" "el_retention l = r"
    "evs \<noteq> [] \<longrightarrow> el_file l \<noteq> None \<and> held sha hm fr fp l \<noteq> []" using open_sound(3) [OF fresh r] by auto
  obtain p where p: "load sha hm fr fp l = (Inr p, l\<lparr>el_observed := (el_file l \<noteq> None)\<rparr>)"
    "held sha hm fr fp l = payload_events p" "length (payload_events p) \<le> rp_max_events (el_retention l)"
    using load_sound [OF d l(1)] by blast
  show ?thesis using l p by (auto simp: ledger_verify_def)
qed

text \<open>Retention drops exactly the run of expired events at the front and then as many more as leave room
  for the new event; what stays is the rest, in order.\<close>
theorem retention_exact:
  assumes "\<forall>e \<in> set es. event_time fr parse_time e = Some (t e)"
  shows "\<exists>b. retain fr parse_time r now (a, es) =
    Some (b, let young = dropWhile (\<lambda>e. t e < now - rp_max_age_seconds r * 1000000) es
             in drop (length young + 1 - rp_max_events r) young)"
proof -
  let ?old = "\<lambda>e. t e < now - rp_max_age_seconds r * 1000000"
  have n: "expired_count fr parse_time (now - rp_max_age_seconds r * 1000000) es = Some (length (takeWhile ?old es))"
    using assms by (induction es) auto
  have snd_drop: "snd (drop_events m ae) = drop m (snd ae)" for m ae by (simp add: drop_events_def)
  define ae where "ae = drop_events (length (takeWhile ?old es)) (a, es)"
  have young: "snd ae = dropWhile ?old es" by (simp add: ae_def snd_drop dropWhile_eq_drop)
  show ?thesis
  proof (cases "rp_max_events r \<le> length (dropWhile ?old es)")
    case True
    let ?de = "drop_events (length (dropWhile ?old es) - rp_max_events r + 1) ae"
    have "retain fr parse_time r now (a, es) = Some ?de"
      using True by (simp add: retain_def n Let_def ae_def [symmetric] young)
    moreover have "snd ?de = drop (length (dropWhile ?old es) + 1 - rp_max_events r) (dropWhile ?old es)"
      using True by (simp only: snd_drop young) (simp add: Suc_diff_le)
    ultimately show ?thesis unfolding Let_def by (intro exI [of _ "fst ?de"]) (simp add: prod_eq_iff)
  next
    case False
    then have "retain fr parse_time r now (a, es) = Some ae"
      by (simp add: retain_def n Let_def ae_def [symmetric] young)
    with False young show ?thesis unfolding Let_def by (intro exI [of _ "fst ae"]) (simp add: prod_eq_iff)
  qed
qed

text \<open>tampering shows: two ledger files that the same key accepts and that bear the same seal hold the same
  value under every field, events, anchor, count and head included, unless two different messages have the
  same HMAC under that key.\<close>
theorem same_seal_same_evidence:
  assumes io: "float_text fr" and c: "parse_ledger sha hm fr fp key m c1 = Inr p1" "parse_ledger sha hm fr fp key m c2 = Inr p2"
    and pl: "plain (PDict p1)" "plain (PDict p2)" and seal: "dget p1 (U ''seal'') = dget p2 (U ''seal'')"
  shows "(\<forall>k. map_option json_norm (dget p1 k) = map_option json_norm (dget p2 k)) \<or>
    (\<exists>m1 m2. m1 \<noteq> m2 \<and> hm key m1 = hm key m2)"
proof -
  have ver: "verify_payload sha hm fr key p1 = None" "verify_payload sha hm fr key p2 = None"
    using c by (auto simp: parse_ledger_def split: if_splits option.splits pyval.splits)
  have eq: "seal_of hm fr key p1 = seal_of hm fr key p2"
    using verify_payload_dest [OF ver(1)] verify_payload_dest [OF ver(2)] seal by auto
  let ?m = "\<lambda>p. seal_prefix @ json_canonical fr (PDict (unsealed p))"
  have up: "plain (PDict (unsealed p))" if "plain (PDict p)" for p
    using that by (auto simp: unsealed_def list_all_iff distinct_map_filter)
  have look: "dget (unsealed p) k = (if k = U ''seal'' then None else dget p k)" for p k
    unfolding unsealed_def dget_def by (induction p) auto
  show ?thesis
  proof (cases "?m p1 = ?m p2")
    case True
    then have "json_canonical fr (PDict (unsealed p1)) = json_canonical fr (PDict (unsealed p2))" by simp
    from dict_text_inj [OF io up [OF pl(1)] up [OF pl(2)] this]
    have "map_option json_norm (dget (unsealed p1) k) = map_option json_norm (dget (unsealed p2) k)" for k
      by (simp add: dget_def)
    then have rest: "map_option json_norm (if k = U ''seal'' then None else dget p1 k) =
        map_option json_norm (if k = U ''seal'' then None else dget p2 k)" for k
      by (simp only: look)
    have "map_option json_norm (dget p1 k) = map_option json_norm (dget p2 k)" for k
      using rest [of k] by (cases "k = U ''seal''") (simp_all add: seal)
    then show ?thesis by blast
  next
    case False
    with eq show ?thesis unfolding seal_of_def by blast
  qed
qed

section \<open>Witnesses\<close>

definition read_entry :: evidence_entry where
  "read_entry = \<lparr>ee_type = U ''authorization'', ee_action = U ''read'', ee_resource = U ''table'', ee_subject = U ''bot'',
     ee_decision = U ''ALLOW'', ee_metadata = [(U ''purpose'', PStr (U ''audit''))]\<rparr>"

definition default_retention :: retention_policy where
  "default_retention = \<lparr>rp_max_events = 5000, rp_max_age_seconds = 604800, rp_resource_state_ttl_seconds = 86400,
     rp_max_resources = 500, rp_max_state_bytes = 8388608, rp_persist_rows = False\<rparr>"

theorem evidence_is_suffix_witness:
  "\<exists>l0 evs l. open_ledger (replicate 32 1) default_retention None = Inr l0 \<and>
    append_all flat_sha flat_hmac ratio_text ratio_read int_str read_time [(U ''00'', read_entry, 5)] l0 = (evs, l) \<and>
    suffix (held flat_sha flat_hmac ratio_text ratio_read l) evs"
proof -
  have r: "retention_ok default_retention" by (simp add: retention_ok_def default_retention_def)
  obtain l0 where l0: "open_ledger (replicate 32 1) default_retention None = Inr l0" by (simp add: open_ledger_def)
  have ops: "list_all op_wf [(U ''00'', read_entry, 5)]" by (simp add: op_wf_def entry_wf_def read_entry_def)
  obtain evs l where run: "append_all flat_sha flat_hmac ratio_text ratio_read int_str read_time
      [(U ''00'', read_entry, 5)] l0 = (evs, l)" by (cases "append_all flat_sha flat_hmac ratio_text ratio_read int_str read_time
      [(U ''00'', read_entry, 5)] l0")
  from evidence_is_suffix [OF flat_params r l0 ops run] l0 run show ?thesis by blast
qed

theorem retention_exact_witness:
  "\<exists>b. retain ratio_text read_time (default_retention\<lparr>rp_max_events := 1\<rparr>) 6 (PStr GENESIS, [PDict [(U ''timestamp'', PStr (int_str 5))]]) =
    Some (b, [])"
proof -
  let ?e = "PDict [(U ''timestamp'', PStr (int_str 5))]"
  have "\<forall>e \<in> set [?e]. event_time ratio_text read_time e = Some ((\<lambda>_. 5) e)"
    by (simp add: event_time_def vget_def dget_def py_str_def read_time_def read_int_str)
  from retention_exact [OF this, of "default_retention\<lparr>rp_max_events := 1\<rparr>" 6 "PStr GENESIS"] show ?thesis
    by (simp add: default_retention_def Let_def)
qed

theorem same_seal_same_evidence_witness:
  "\<exists>c p. parse_ledger flat_sha flat_hmac ratio_text ratio_read (replicate 32 1) (length c) c = Inr p \<and> plain (PDict p) \<and>
    ((\<forall>k. map_option json_norm (dget p k) = map_option json_norm (dget p k)) \<or>
     (\<exists>m1 m2. m1 \<noteq> m2 \<and> flat_hmac (replicate 32 1) m1 = flat_hmac (replicate 32 1) m2))"
proof -
  let ?p = "new_payload flat_hmac ratio_text (replicate 32 1)"
  let ?c = "json_indented ratio_text (PDict ?p) @ [10]"
  have s: "sound_payload flat_sha flat_hmac ratio_text (replicate 32 1) ?p"
    using new_payload_sound [OF flat_hmac_hex flat_sha_hex] by blast
  have c: "parse_ledger flat_sha flat_hmac ratio_text ratio_read (replicate 32 1) (length ?c) ?c = Inr (norm_dict ?p)"
    by (rule parse_stored [OF ratio_io s order_refl])
  have pl: "plain (PDict (norm_dict ?p))" using sound_norm(1) [OF s] unfolding sound_payload_def by blast
  from same_seal_same_evidence [OF ratio_text_ok c c pl pl refl] c pl show ?thesis by blast
qed

end
