(* ===== verification/MythosRuntime.thy ===== *)
theory MythosRuntime
  imports MythosAuthority MythosLedger
begin

text \<open>
  \<^verbatim>\<open>mythos_runtime/veriflow_runtime.py\<close>: the bridge that verifies execution grants, records evidence of
  every decision and seals persisted state, and \<^verbatim>\<open>mythos_runtime/budget.py\<close>. The parameters are those of
  the grants and of the evidence ledger. The text that \<^verbatim>\<open>default=str\<close> gives a value that JSON does not
  know is taken to be its \<^verbatim>\<open>repr\<close>.
\<close>

section \<open>Budgets\<close>

record budget_meter =
  bm_max_tokens :: int
  bm_max_turns :: int
  bm_warning_threshold :: pyfloat
  bm_tokens_used :: int
  bm_turns_used :: int

datatype budget_error = BadBudget | BadUsage | NegativeConsumption | BudgetExceeded

definition budget_init :: "budget_meter \<Rightarrow> budget_error + budget_meter" where
  "budget_init m =
     (if bm_max_tokens m < 1 \<or> bm_max_turns m < 1 \<or> \<not> (0 < bm_warning_threshold m \<and> bm_warning_threshold m \<le> 1)
      then Inl BadBudget
      else if bm_tokens_used m < 0 \<or> bm_turns_used m < 0 then Inl BadUsage
      else Inr m)"

definition budget_consume :: "int \<Rightarrow> int \<Rightarrow> budget_meter \<Rightarrow> budget_error option \<times> budget_meter" where
  "budget_consume tokens turns m =
     (if tokens < 0 \<or> turns < 0 then (Some NegativeConsumption, m)
      else if bm_max_tokens m < bm_tokens_used m + tokens \<or> bm_max_turns m < bm_turns_used m + turns
        then (Some BudgetExceeded, m)
      else (None, m\<lparr>bm_tokens_used := bm_tokens_used m + tokens, bm_turns_used := bm_turns_used m + turns\<rparr>))"

definition budget_warning :: "budget_meter \<Rightarrow> bool" where
  "budget_warning m \<longleftrightarrow> bm_warning_threshold m \<le>
     max (fdiv (of_int (bm_tokens_used m)) (of_int (bm_max_tokens m))) (fdiv (of_int (bm_turns_used m)) (of_int (bm_max_turns m)))"

definition budget_exhausted :: "budget_meter \<Rightarrow> bool" where
  "budget_exhausted m \<longleftrightarrow> bm_max_tokens m \<le> bm_tokens_used m \<or> bm_max_turns m \<le> bm_turns_used m"

section \<open>The runtime\<close>

record mythos_runtime =
  mr_environment :: trusted_environment
  mr_verifier :: grant_verifier
  mr_key :: bytes
  mr_ledger :: evidence_ledger

datatype runtime_error = NotAuthorized grant_error | EvidenceFailure evidence_error

definition runtime_init ::
  "trusted_environment \<Rightarrow> grant_verifier \<Rightarrow> bytes \<Rightarrow> retention_policy \<Rightarrow> bytes option \<Rightarrow> evidence_error + mythos_runtime" where
  "runtime_init environment v key retention content =
     (case open_ledger key retention content of
        Inl e \<Rightarrow> Inl e
      | Inr l \<Rightarrow> Inr \<lparr>mr_environment = environment, mr_verifier = v, mr_key = key, mr_ledger = l\<rparr>)"

definition environment_fields :: "trusted_environment \<Rightarrow> payload" where
  "environment_fields e = (case environment_dict e of PDict d \<Rightarrow> d | _ \<Rightarrow> [])"

fun denial_message :: "grant_error \<Rightarrow> str" where
  "denial_message GrantRequired = U ''a valid execution grant is required''"
| "denial_message BadSignature = U ''execution grant signature is invalid''"
| "denial_message PayloadInvalid = U ''execution grant payload is invalid''"
| "denial_message TtlInvalid = U ''execution grant TTL is invalid''"
| "denial_message NotActive = U ''execution grant is not currently active''"
| "denial_message PurposeOrAction = U ''execution grant purpose or action mismatch''"
| "denial_message OutOfScope = U ''resource is outside execution grant scope''"
| "denial_message WrongContext = U ''trusted execution context does not match the grant''"
| "denial_message _ = []"

definition decision_entry :: "str \<Rightarrow> str \<Rightarrow> str \<Rightarrow> str \<Rightarrow> payload \<Rightarrow> evidence_entry" where
  "decision_entry action resource_id subject verdict meta =
     \<lparr>ee_type = U ''authorization'', ee_action = action, ee_resource = resource_id, ee_subject = subject,
      ee_decision = verdict, ee_metadata = meta\<rparr>"

definition deny_entry :: "(bytes \<Rightarrow> str) \<Rightarrow> trusted_environment \<Rightarrow> str \<Rightarrow> str \<Rightarrow> grant_error \<Rightarrow> evidence_entry" where
  "deny_entry sha env action resource_id e = decision_entry action resource_id (U ''unknown'') (U ''DENY'')
     ((U ''reason_sha256'', PStr (sha (utf8 (denial_message e)))) # environment_fields env)"

definition allow_entry :: "trusted_environment \<Rightarrow> str \<Rightarrow> str \<Rightarrow> str \<Rightarrow> execution_grant \<Rightarrow> evidence_entry" where
  "allow_entry env action resource_id purpose g = decision_entry action resource_id (eg_subject g) (U ''ALLOW'')
     ([(U ''grant_id'', PStr (eg_id g)), (U ''purpose'', PStr purpose)] @ environment_fields env)"

definition runtime_authorize ::
  "(bytes \<Rightarrow> str) \<Rightarrow> (bytes \<Rightarrow> bytes \<Rightarrow> str) \<Rightarrow> (pyval \<Rightarrow> str) \<Rightarrow> (str \<Rightarrow> pyfloat) \<Rightarrow> (int \<Rightarrow> str) \<Rightarrow> (str \<Rightarrow> int option)
     \<Rightarrow> str \<Rightarrow> mythos_runtime \<Rightarrow> str option \<Rightarrow> str \<Rightarrow> str \<Rightarrow> str \<Rightarrow> int \<Rightarrow> (runtime_error + execution_grant) \<times> mythos_runtime" where
  "runtime_authorize sha hm fr fp isofmt parse_time rnd rt token action resource_id purpose now =
     (case verify_grant hm fr fp parse_time (mr_verifier rt) token action resource_id purpose (mr_environment rt) now of
        Inl e \<Rightarrow>
          (if \<not> denied e then (Inl (NotAuthorized e), rt)
           else
             (case ledger_append sha hm fr fp isofmt parse_time rnd (mr_ledger rt)
                     (deny_entry sha (mr_environment rt) action resource_id e) now of
                (Inl failure, l) \<Rightarrow> (Inl (EvidenceFailure failure), rt\<lparr>mr_ledger := l\<rparr>)
              | (Inr ev, l) \<Rightarrow> (Inl (NotAuthorized e), rt\<lparr>mr_ledger := l\<rparr>)))
      | Inr g \<Rightarrow>
          (case ledger_append sha hm fr fp isofmt parse_time rnd (mr_ledger rt)
                  (allow_entry (mr_environment rt) action resource_id purpose g) now of
             (Inl failure, l) \<Rightarrow> (Inl (EvidenceFailure failure), rt\<lparr>mr_ledger := l\<rparr>)
           | (Inr ev, l) \<Rightarrow> (Inr g, rt\<lparr>mr_ledger := l\<rparr>)))"

definition runtime_record ::
  "(bytes \<Rightarrow> str) \<Rightarrow> (bytes \<Rightarrow> bytes \<Rightarrow> str) \<Rightarrow> (pyval \<Rightarrow> str) \<Rightarrow> (str \<Rightarrow> pyfloat) \<Rightarrow> (int \<Rightarrow> str) \<Rightarrow> (str \<Rightarrow> int option)
     \<Rightarrow> str \<Rightarrow> mythos_runtime \<Rightarrow> str \<Rightarrow> str \<Rightarrow> str \<Rightarrow> str \<Rightarrow> payload \<Rightarrow> int \<Rightarrow> evidence_error option \<times> mythos_runtime" where
  "runtime_record sha hm fr fp isofmt parse_time rnd rt event_type action resource_id subject meta now =
     (case ledger_append sha hm fr fp isofmt parse_time rnd (mr_ledger rt)
             \<lparr>ee_type = event_type, ee_action = action, ee_resource = resource_id, ee_subject = subject,
              ee_decision = U ''ALLOW'',
              ee_metadata = foldl (\<lambda>d (k, v). dset k v d) (environment_fields (mr_environment rt)) meta\<rparr> now of
        (Inl e, l) \<Rightarrow> (Some e, rt\<lparr>mr_ledger := l\<rparr>)
      | (Inr ev, l) \<Rightarrow> (None, rt\<lparr>mr_ledger := l\<rparr>))"

section \<open>Persisted state\<close>

datatype state_error = StInvalid | StUnsigned | StOtherEnvironment | StHashInvalid | StSignatureInvalid | StDigestEscapes

definition state_header :: "(bytes \<Rightarrow> str) \<Rightarrow> (pyval \<Rightarrow> str) \<Rightarrow> trusted_environment \<Rightarrow> pyval \<Rightarrow> payload" where
  "state_header sha fr env state =
     [(U ''version'', PInt 1), (U ''environment'', environment_dict env),
      (U ''payload_hash'', PStr (sha (json_canonical fr state)))]"

definition protect_state ::
  "(bytes \<Rightarrow> str) \<Rightarrow> (bytes \<Rightarrow> bytes \<Rightarrow> str) \<Rightarrow> (pyval \<Rightarrow> str) \<Rightarrow> (str \<Rightarrow> pyfloat) \<Rightarrow> mythos_runtime \<Rightarrow> pyval \<Rightarrow> pyval option" where
  "protect_state sha hm fr fp rt state =
     (case json_loads fp (json_default fr state) of
        None \<Rightarrow> None
      | Some copy \<Rightarrow>
          (let header = state_header sha fr (mr_environment rt) copy;
               sig = hm (mr_key rt) (json_canonical fr (PDict header))
           in Some (PDict [(U ''mythos_state_envelope'', PDict header), (U ''payload'', copy), (U ''signature'', PStr sig)])))"

text \<open>\<^verbatim>\<open>value == environment.to_dict()\<close>: the same keys with the same strings, in any order.\<close>

definition env_matches :: "pyval option \<Rightarrow> trusted_environment \<Rightarrow> bool" where
  "env_matches v e =
     (case v of
        Some (PDict d) \<Rightarrow>
          set (dkeys d) = set (dkeys (environment_fields e)) \<and>
          list_all (\<lambda>(k, x). dget d k = Some x) (environment_fields e)
      | _ \<Rightarrow> False)"

definition unprotect_state ::
  "(bytes \<Rightarrow> str) \<Rightarrow> (bytes \<Rightarrow> bytes \<Rightarrow> str) \<Rightarrow> (pyval \<Rightarrow> str) \<Rightarrow> mythos_runtime \<Rightarrow> pyval \<Rightarrow> state_error + payload" where
  "unprotect_state sha hm fr rt envelope =
     (case envelope of
        PDict _ \<Rightarrow>
          (case (vget envelope ''mythos_state_envelope'', vget envelope ''payload'', vget envelope ''signature'') of
             (Some (PDict header), Some (PDict state), Some (PStr sig)) \<Rightarrow>
               (if \<not> version_is header 1 \<or> \<not> env_matches (dget header (U ''environment'')) (mr_environment rt)
                then Inl StOtherEnvironment
                else
                  (let actual = sha (json_canonical fr (PDict state));
                       claimed = (case dget header (U ''payload_hash'') of Some v \<Rightarrow> py_str fr v | None \<Rightarrow> U ''None'')
                   in if \<not> ascii claimed then Inl StDigestEscapes
                      else if claimed \<noteq> actual then Inl StHashInvalid
                      else if \<not> ascii sig then Inl StDigestEscapes
                      else if sig \<noteq> hm (mr_key rt) (json_canonical fr (PDict header)) then Inl StSignatureInvalid
                      else Inr state))
           | _ \<Rightarrow> Inl StUnsigned)
      | _ \<Rightarrow> Inl StInvalid)"

section \<open>Well-formed entries\<close>

definition env_scalar :: "trusted_environment \<Rightarrow> bool" where
  "env_scalar e \<longleftrightarrow> list_all (list_all scalar) [te_execution e, te_target e, te_base_url e, te_revision e]"

lemma environment_fields_eq: "environment_fields e =
    [(U ''execution_environment'', PStr (te_execution e)), (U ''target_environment'', PStr (te_target e)),
      (U ''ckan_base_url'', PStr (te_base_url e)), (U ''source_revision'', PStr (te_revision e))]"
  by (simp add: environment_fields_def environment_dict_def)

lemma deny_entry_wf:
  assumes "hex_sha sha" "env_scalar env" "list_all scalar action" "list_all scalar resource_id"
  shows "entry_wf (deny_entry sha env action resource_id e)"
proof -
  have "list_all scalar (sha m)" for m
    using assms(1) hex_char_plain ascii_scalar unfolding hex_sha_def by blast
  with assms show ?thesis
    by (simp add: entry_wf_def deny_entry_def decision_entry_def environment_fields_eq env_scalar_def)
qed

lemma allow_entry_wf:
  assumes "env_scalar env" "list_all (list_all scalar) [action, resource_id, purpose, eg_id g, eg_subject g]"
  shows "entry_wf (allow_entry env action resource_id purpose g)"
  using assms by (simp add: entry_wf_def allow_entry_def decision_entry_def environment_fields_eq env_scalar_def)

text \<open>An event on an authorization attempt.\<close>

definition decision_event :: "str \<Rightarrow> str \<Rightarrow> str \<Rightarrow> str \<Rightarrow> pyval \<Rightarrow> bool" where
  "decision_event action resource_id subject verdict e \<longleftrightarrow>
     vget e ''event_type'' = Some (PStr (U ''authorization'')) \<and> vget e ''action'' = Some (PStr action) \<and>
     vget e ''resource_id'' = Some (PStr resource_id) \<and> vget e ''subject'' = Some (PStr subject) \<and>
     vget e ''decision'' = Some (PStr verdict)"

lemma decision_event_new:
  assumes d: "doc_params sha hm fr fp isofmt parse_time" and ok: "ascii prev" "list_all scalar rnd"
    and x: "x = decision_entry action resource_id subject verdict meta" "entry_wf x"
    and ev: "ev = new_event sha hm fr isofmt rnd key (PStr prev) x now"
  shows "decision_event action resource_id subject verdict (json_norm (PDict ev))"
proof -
  have h: "hex_hmac hm" "hex_sha sha" "ascii (isofmt now)" using d by (auto simp: doc_params_def time_text_def)
  note new = new_event_ok [where isofmt = isofmt and now = now, OF h(1,2) x(2) ok(2) h(3) ok(1) ev]
  have "distinct (map fst ev)" using new(2) by simp
  from dget_norm [OF this] new show ?thesis
    by (simp add: decision_event_def vget_def x(1) decision_entry_def)
qed

lemma authorize_append:
  assumes d: "doc_params sha hm fr fp isofmt parse_time" and l: "ledger_sound sha hm fr l"
    and x: "x = decision_entry action resource_id subject verdict meta" "entry_wf x" "list_all scalar rnd"
  shows "case ledger_append sha hm fr fp isofmt parse_time rnd l x now of
      (Inl e, l') \<Rightarrow> el_file l' = el_file l
    | (Inr ev, l') \<Rightarrow> ledger_sound sha hm fr l' \<and>
        (\<exists>k e. held sha hm fr fp l' = drop k (held sha hm fr fp l) @ [e] \<and>
           decision_event action resource_id subject verdict e)"
proof (cases "ledger_append sha hm fr fp isofmt parse_time rnd l x now")
  case (Pair res l')
  show ?thesis
  proof (cases res)
    case (Inl e)
    then have l': "l' = l\<lparr>el_observed := el_observed l'\<rparr>" using append_sound [OF d l x(2,3), of now] Pair by auto
    have "el_file l' = el_file l" by (subst l') simp
    with Pair Inl show ?thesis by simp
  next
    case (Inr ev)
    with append_sound [OF d l x(2,3), of now] Pair obtain k prev where "ledger_sound sha hm fr l'"
      "held sha hm fr fp l' = drop k (held sha hm fr fp l) @ [json_norm (PDict ev)]" "ascii prev"
      "ev = new_event sha hm fr isofmt rnd (el_key l) (PStr prev) x now" by auto
    moreover from this have "decision_event action resource_id subject verdict (json_norm (PDict ev))"
      using decision_event_new [OF d _ x(3,1,2)] by blast
    ultimately show ?thesis using Pair Inr by auto
  qed
qed

section \<open>Properties\<close>

text \<open>C23: no decision without evidence: a grant is returned only when it verifies and the file now ends with an
  ALLOW event for its subject; a denial is reported only with a DENY event at the end of the file; when the
  evidence cannot be written, nobody is authorized and the file is as before. The one gap: an attempt that
  the verifier does not answer with a denial leaves no trace.\<close>
theorem decisions_leave_evidence:
  assumes d: "doc_params sha hm fr fp isofmt parse_time" and l: "ledger_sound sha hm fr (mr_ledger rt)"
    and env: "env_scalar (mr_environment rt)"
    and strs: "list_all (list_all scalar) [rnd, action, resource_id, purpose]"
    and v: "v = verify_grant hm fr fp parse_time (mr_verifier rt) token action resource_id purpose (mr_environment rt) now"
    and g: "\<And>g. v = Inr g \<Longrightarrow> list_all (list_all scalar) [eg_id g, eg_subject g]"
  shows "case runtime_authorize sha hm fr fp isofmt parse_time rnd rt token action resource_id purpose now of
      (Inr g, rt') \<Rightarrow> v = Inr g \<and> (\<exists>k e. held sha hm fr fp (mr_ledger rt') = drop k (held sha hm fr fp (mr_ledger rt)) @ [e] \<and>
        decision_event action resource_id (eg_subject g) (U ''ALLOW'') e)
    | (Inl (NotAuthorized err), rt') \<Rightarrow> v = Inl err \<and>
        (if denied err then \<exists>k e. held sha hm fr fp (mr_ledger rt') = drop k (held sha hm fr fp (mr_ledger rt)) @ [e] \<and>
           decision_event action resource_id (U ''unknown'') (U ''DENY'') e
         else rt' = rt)
    | (Inl (EvidenceFailure failure), rt') \<Rightarrow> el_file (mr_ledger rt') = el_file (mr_ledger rt)"
proof (cases v)
  case (Inl err)
  show ?thesis
  proof (cases "denied err")
    case True
    have wf: "entry_wf (deny_entry sha (mr_environment rt) action resource_id err)"
      using deny_entry_wf d env strs by (simp add: doc_params_def)
    from authorize_append [OF d l deny_entry_def wf, of rnd now] strs show ?thesis
      using Inl True v by (cases "ledger_append sha hm fr fp isofmt parse_time rnd (mr_ledger rt)
          (deny_entry sha (mr_environment rt) action resource_id err) now")
        (auto simp: runtime_authorize_def split: sum.splits)
  qed (use Inl v in \<open>simp add: runtime_authorize_def\<close>)
next
  case (Inr grant)
  have wf: "entry_wf (allow_entry (mr_environment rt) action resource_id purpose grant)"
    using allow_entry_wf env strs g [OF Inr] by simp
  from authorize_append [OF d l allow_entry_def wf, of rnd now] strs show ?thesis
    using Inr v by (cases "ledger_append sha hm fr fp isofmt parse_time rnd (mr_ledger rt)
        (allow_entry (mr_environment rt) action resource_id purpose grant) now")
      (auto simp: runtime_authorize_def split: sum.splits)
qed

text \<open>a token with a character outside ASCII is an authorization attempt that leaves no evidence: the
  verifier raises an encoding or comparison error that is no denial, and the ledger is not touched.\<close>
theorem foreign_token_unrecorded:
  assumes "\<not> ascii t" "count_list t 46 = 1"
  shows "\<exists>e. runtime_authorize sha hm fr fp isofmt parse_time rnd rt (Some t) action resource_id purpose now =
    (Inl (NotAuthorized e), rt) \<and> \<not> denied e"
proof -
  let ?e = "takeWhile (\<lambda>c. c \<noteq> 46) t"
  have "46 \<in> set t" using assms(2) by (metis count_list_0_iff zero_neq_one)
  from split_dot [OF this] have t: "t = ?e @ 46 # drop (Suc (length ?e)) t" .
  have "ascii (x @ 46 # y) \<longleftrightarrow> ascii x \<and> ascii y" for x y by (simp add: ascii_def)
  then have "\<not> ascii ?e \<or> \<not> ascii (drop (Suc (length ?e)) t)" using assms(1) t by metis
  then show ?thesis using assms(2)
    by (auto simp: runtime_authorize_def verify_grant_def denied_def Let_def)
qed

lemma header_norm: "json_canonical fr (PDict (norm_dict d)) = json_canonical fr (PDict d)"
  using dumps_norm [of fr "[44]" "[58]" "PDict d"] by (simp add: json_canonical_def)

lemma env_matches_norm:
  "env_matches (dget (norm_dict (state_header sha fr env (PDict s))) (U ''environment'')) env"
proof -
  let ?h = "state_header sha fr env (PDict s)" and ?f = "environment_fields env"
  have f: "distinct (map fst ?f)" "environment_dict env = PDict ?f"
    by (simp_all add: environment_fields_eq environment_dict_def)
  have "distinct (map fst ?h)" by (simp add: state_header_def)
  note hd = dget_norm [OF this]
  have "dget (norm_dict ?h) (U ''environment'') = Some (PDict (norm_dict ?f))"
    unfolding hd by (simp add: state_header_def dget_def f(2))
  moreover have "list_all (\<lambda>(k, x). dget (norm_dict ?f) k = Some x) ?f"
    unfolding dget_norm [OF f(1)] by (simp add: environment_fields_eq dget_def)
  ultimately show ?thesis by (simp add: env_matches_def dkeys_norm)
qed

text \<open>C24: state that was protected comes back: the runtime unwraps its own envelope, and also the envelope as it
  is read back from a JSON file, to the payload with sorted keys.\<close>
theorem protected_state_returns:
  assumes d: "doc_params sha hm fr fp isofmt parse_time" and p: "plain (PDict state)"
    and env: "env_scalar (mr_environment rt)" and e: "protect_state sha hm fr fp rt (PDict state) = Some envelope"
  shows "unprotect_state sha hm fr rt envelope = Inr (norm_dict state) \<and>
    unprotect_state sha hm fr rt (json_norm envelope) = Inr (norm_dict state)"
proof -
  have io: "float_io fr fp" and sha: "ascii (sha m)" and hm: "ascii (hm k m)" for m k
    using d hex_char_plain unfolding doc_params_def hex_sha_def hex_hmac_def by blast+
  let ?s = "norm_dict state"
  let ?h = "state_header sha fr (mr_environment rt) (PDict ?s)"
  let ?sig = "hm (mr_key rt) (json_canonical fr (PDict ?h))"
  have ld: "json_loads fp (json_default fr (PDict state)) = Some (PDict ?s)"
    using loads_default [OF _ p, of fr fp] io by (simp add: float_io_def)
  have envelope: "envelope = PDict [(U ''mythos_state_envelope'', PDict ?h), (U ''payload'', PDict ?s), (U ''signature'', PStr ?sig)]"
    using e by (simp add: protect_state_def ld Let_def)
  have fields: "vget envelope ''mythos_state_envelope'' = Some (PDict ?h)" "vget envelope ''payload'' = Some (PDict ?s)"
    "vget envelope ''signature'' = Some (PStr ?sig)"
    by (simp_all add: envelope vget_def dget_def)
  have hash: "ascii (sha m)" for m by (rule sha)
  have h: "version_is ?h 1" "dget ?h (U ''payload_hash'') = Some (PStr (sha (json_canonical fr (PDict ?s))))"
    "env_matches (dget ?h (U ''environment'')) (mr_environment rt)"
    by (simp_all add: state_header_def version_is_def py_eq_int_def env_matches_def environment_fields_def
        environment_dict_def dget_def)
  have one: "unprotect_state sha hm fr rt envelope = Inr ?s"
    unfolding unprotect_state_def fields option.case pyval.case h(2) Let_def prod.case
    using h(1,3) hm hash by (simp add: envelope py_str_def)
  have dist: "distinct (map fst [(U ''mythos_state_envelope'', PDict ?h), (U ''payload'', PDict ?s), (U ''signature'', PStr ?sig)])"
    "distinct (map fst ?h)" by (simp_all add: state_header_def)
  have ss: "norm_dict ?s = ?s" using norm_idem [of "PDict state"] by simp
  have nenv: "json_norm envelope = PDict (norm_dict [(U ''mythos_state_envelope'', PDict ?h), (U ''payload'', PDict ?s),
      (U ''signature'', PStr ?sig)])" unfolding envelope by (rule json_norm.simps(3))
  have nfields: "vget (json_norm envelope) ''mythos_state_envelope'' = Some (PDict (norm_dict ?h))"
    "vget (json_norm envelope) ''payload'' = Some (PDict ?s)" "vget (json_norm envelope) ''signature'' = Some (PStr ?sig)"
    unfolding nenv vget_def pyval.case dget_norm [OF dist(1)] by (simp_all add: dget_def ss del: json_norm.simps(3) add: json_norm.simps(3))
  note hd = dget_norm [OF dist(2)]
  have nh: "version_is (norm_dict ?h) 1" "dget (norm_dict ?h) (U ''payload_hash'') = Some (PStr (sha (json_canonical fr (PDict ?s))))"
    unfolding version_is_def hd by (simp_all add: state_header_def dget_def py_eq_int_def)
  note nm = env_matches_norm [of sha fr "mr_environment rt" ?s]
  have "unprotect_state sha hm fr rt (json_norm envelope) = Inr ?s"
    unfolding unprotect_state_def nfields option.case pyval.case nh(2) Let_def prod.case header_norm
    using nh(1) nm hm hash by (simp add: nenv py_str_def)
  with one show ?thesis by simp
qed

text \<open>State is believed only with both proofs: accepted state has the hash that its header names, the header is
  signed with the runtime's key and names the runtime's environment, so an accepted envelope with the
  signature of another one (whose header has its hash as text) carries the same state unless SHA-256 or HMAC collides.\<close>
theorem same_signature_same_state:
  assumes fr: "float_text fr" and a: "unprotect_state sha hm fr rt e1 = Inr s1" "unprotect_state sha hm fr rt e2 = Inr s2"
    and pl: "plain e1" "plain e2" and sig: "vget e1 ''signature'' = vget e2 ''signature''"
    and text_hash: "vget e1 ''mythos_state_envelope'' = Some (PDict h1)" "dget h1 (U ''payload_hash'') = Some (PStr c1)"
  shows "json_norm (PDict s1) = json_norm (PDict s2) \<or>
    (\<exists>m1 m2. m1 \<noteq> m2 \<and> (sha m1 = sha m2 \<or> hm (mr_key rt) m1 = hm (mr_key rt) m2))"
proof -
  have parts: "\<exists>h g. vget e ''mythos_state_envelope'' = Some (PDict h) \<and> vget e ''payload'' = Some (PDict s) \<and>
      vget e ''signature'' = Some (PStr g) \<and> g = hm (mr_key rt) (json_canonical fr (PDict h)) \<and>
      (case dget h (U ''payload_hash'') of Some v \<Rightarrow> py_str fr v | None \<Rightarrow> U ''None'') = sha (json_canonical fr (PDict s))"
    if "unprotect_state sha hm fr rt e = Inr s" for e s
    using that by (auto simp: unprotect_state_def Let_def split: pyval.splits option.splits if_splits)
  obtain h2 g where h: "vget e1 ''mythos_state_envelope'' = Some (PDict h1)" "vget e2 ''mythos_state_envelope'' = Some (PDict h2)"
    and s: "vget e1 ''payload'' = Some (PDict s1)" "vget e2 ''payload'' = Some (PDict s2)"
    and g: "g = hm (mr_key rt) (json_canonical fr (PDict h1))" "g = hm (mr_key rt) (json_canonical fr (PDict h2))"
    and c: "(case dget h1 (U ''payload_hash'') of Some v \<Rightarrow> py_str fr v | None \<Rightarrow> U ''None'') = sha (json_canonical fr (PDict s1))"
      "(case dget h2 (U ''payload_hash'') of Some v \<Rightarrow> py_str fr v | None \<Rightarrow> U ''None'') = sha (json_canonical fr (PDict s2))"
    using parts [OF a(1)] parts [OF a(2)] sig text_hash(1) by auto
  have sub: "plain v" if "plain e" "vget e k = Some v" for e k v
    using that by (auto simp: vget_def dget_def list_all_iff split: pyval.splits dest!: map_of_SomeD)
  have ps: "plain (PDict s1)" "plain (PDict s2)" and ph: "plain (PDict h1)" "plain (PDict h2)"
    using sub [OF pl(1)] sub [OF pl(2)] s h by blast+
  show ?thesis
  proof (cases "json_canonical fr (PDict h1) = json_canonical fr (PDict h2)")
    case True
    from dict_text_inj [OF fr ph True]
    have same: "map_option json_norm (dget h1 (U ''payload_hash'')) = map_option json_norm (dget h2 (U ''payload_hash''))"
      by (simp add: dget_def)
    show ?thesis
    proof (cases "json_canonical fr (PDict s1) = json_canonical fr (PDict s2)")
      case True
      then show ?thesis using json_canonical_inj [OF fr ps] by blast
    next
      case False
      obtain v where v: "dget h2 (U ''payload_hash'') = Some v" "json_norm v = PStr c1"
        using same text_hash(2) by (cases "dget h2 (U ''payload_hash'')") auto
      then have "dget h2 (U ''payload_hash'') = Some (PStr c1)" by (simp add: norm_PStr)
      then have "sha (json_canonical fr (PDict s1)) = sha (json_canonical fr (PDict s2))"
        using c text_hash(2) by (simp add: py_str_def)
      with False show ?thesis by blast
    qed
  next
    case False
    with g show ?thesis by blast
  qed
qed


section \<open>Witnesses\<close>

definition site_runtime :: mythos_runtime where
  "site_runtime = \<lparr>mr_environment = site_env, mr_verifier = site_verifier, mr_key = replicate 32 1,
     mr_ledger = \<lparr>el_key = replicate 32 1, el_retention = default_retention, el_observed = False, el_file = None,
       el_parent_link = False, el_path_link = False, el_locked = False\<rparr>\<rparr>"

lemma site_runtime_sound: "ledger_sound flat_sha flat_hmac ratio_text (mr_ledger site_runtime)"
  by (simp add: ledger_sound_def site_runtime_def default_retention_def retention_ok_def)

lemma site_env_scalar: "env_scalar site_env"
  by (simp add: env_scalar_def site_env_def) (simp add: list_all_iff scalar_def)

theorem decisions_leave_evidence_witness:
  "case runtime_authorize flat_sha flat_hmac ratio_text ratio_read int_str read_time (U ''00'') site_runtime None
      (U ''read'') (U ''table'') (U ''audit'') 5 of
      (Inr g, rt') \<Rightarrow> False
    | (Inl (NotAuthorized err), rt') \<Rightarrow> err = GrantRequired \<and>
        (\<exists>k e. held flat_sha flat_hmac ratio_text ratio_read (mr_ledger rt') =
           drop k (held flat_sha flat_hmac ratio_text ratio_read (mr_ledger site_runtime)) @ [e] \<and>
           decision_event (U ''read'') (U ''table'') (U ''unknown'') (U ''DENY'') e)
    | (Inl (EvidenceFailure failure), rt') \<Rightarrow> el_file (mr_ledger rt') = None"
proof -
  have v: "Inl GrantRequired = verify_grant flat_hmac ratio_text ratio_read read_time (mr_verifier site_runtime) None
      (U ''read'') (U ''table'') (U ''audit'') (mr_environment site_runtime) 5" by (simp add: verify_grant_def)
  have env: "env_scalar (mr_environment site_runtime)" using site_env_scalar by (simp add: site_runtime_def)
  have strs: "list_all (list_all scalar) [U ''00'', U ''read'', U ''table'', U ''audit'']" by simp
  have "el_file (mr_ledger site_runtime) = None" "denied GrantRequired" by (simp_all add: site_runtime_def denied_def)
  with decisions_leave_evidence [OF flat_params site_runtime_sound env strs v] show ?thesis
    by (auto split: sum.splits prod.splits runtime_error.splits)
qed

theorem foreign_token_unrecorded_witness:
  "\<exists>e. runtime_authorize flat_sha flat_hmac ratio_text ratio_read int_str read_time (U ''00'') site_runtime
      (Some [233, 46, 97]) (U ''read'') (U ''table'') (U ''audit'') 5 = (Inl (NotAuthorized e), site_runtime) \<and> \<not> denied e"
  by (rule foreign_token_unrecorded) (simp_all add: ascii_def)

lemma site_state: "plain (PDict [(U ''rows'', PInt 3)])"
  by simp

theorem protected_state_returns_witness:
  "\<exists>envelope. protect_state flat_sha flat_hmac ratio_text ratio_read site_runtime (PDict [(U ''rows'', PInt 3)]) = Some envelope \<and>
    unprotect_state flat_sha flat_hmac ratio_text site_runtime (json_norm envelope) = Inr [(U ''rows'', PInt 3)]"
proof -
  have "json_loads ratio_read (json_default ratio_text (PDict [(U ''rows'', PInt 3)])) = Some (PDict (norm_dict [(U ''rows'', PInt 3)]))"
    using loads_default [OF ratio_reads site_state] by simp
  then obtain envelope where e: "protect_state flat_sha flat_hmac ratio_text ratio_read site_runtime
      (PDict [(U ''rows'', PInt 3)]) = Some envelope" by (simp add: protect_state_def Let_def)
  have "env_scalar (mr_environment site_runtime)" using site_env_scalar by (simp add: site_runtime_def)
  from protected_state_returns [OF flat_params site_state this e] e show ?thesis by simp
qed

theorem same_signature_same_state_witness:
  "\<exists>e s. unprotect_state flat_sha flat_hmac ratio_text site_runtime e = Inr s \<and> plain e \<and>
    (json_norm (PDict s) = json_norm (PDict s) \<or>
     (\<exists>m1 m2. m1 \<noteq> m2 \<and> (flat_sha m1 = flat_sha m2 \<or> flat_hmac (mr_key site_runtime) m1 = flat_hmac (mr_key site_runtime) m2)))"
proof -
  let ?s = "[(U ''rows'', PInt 3)]"
  let ?h = "state_header flat_sha ratio_text site_env (PDict ?s)"
  let ?e = "PDict [(U ''mythos_state_envelope'', PDict ?h), (U ''payload'', PDict ?s),
      (U ''signature'', PStr (flat_hmac (mr_key site_runtime) (json_canonical ratio_text (PDict ?h))))]"
  have fs: "ascii (flat_sha m)" "ascii (flat_hmac k m)" for k m by (simp_all add: flat_sha_def flat_hmac_def ascii_def list_all_iff)
  have f: "vget ?e ''mythos_state_envelope'' = Some (PDict ?h)" "vget ?e ''payload'' = Some (PDict ?s)"
    "vget ?e ''signature'' = Some (PStr (flat_hmac (mr_key site_runtime) (json_canonical ratio_text (PDict ?h))))"
    by (simp_all add: vget_def dget_def)
  have c: "dget ?h (U ''payload_hash'') = Some (PStr (flat_sha (json_canonical ratio_text (PDict ?s))))"
    by (simp add: state_header_def dget_def)
  have m: "version_is ?h 1" "env_matches (dget ?h (U ''environment'')) (mr_environment site_runtime)"
    by (simp_all add: state_header_def version_is_def py_eq_int_def env_matches_def environment_fields_def
        environment_dict_def dget_def site_runtime_def)
  have a: "unprotect_state flat_sha flat_hmac ratio_text site_runtime ?e = Inr ?s"
    unfolding unprotect_state_def f option.case pyval.case c Let_def prod.case using m fs by (simp add: py_str_def)
  have pe: "plain ?e"
    using site_env_scalar ascii_scalar [OF fs(1)] ascii_scalar [OF fs(2)]
    by (simp add: state_header_def environment_dict_def env_scalar_def)
  from same_signature_same_state [OF ratio_text_ok a a pe pe refl f(1) c] a pe show ?thesis by blast
qed


end
