(* ===== verification/HarnessTypes.thy ===== *)
theory HarnessTypes
  imports PyWire
begin

text \<open>
  The vocabulary of the agent harness, \<^verbatim>\<open>python/ethos_aegis/harness/types.py\<close>, and its error
  handling, \<^verbatim>\<open>harness/errors.py\<close>: messages, tool schemas, calls and results, the harness state and
  configuration, exception classes with \<^verbatim>\<open>isinstance\<close>, \<^verbatim>\<open>classify\<close> and the retry wrapper.

  A tool call comes from the text of a model, so its identifier, name and arguments are arbitrary
  Python values (\<open>pyval\<close>). Numbers of the configuration are integers of any sign, as in the source.
\<close>

section \<open>Exceptions\<close>

text \<open>The built-in exception classes that the harness distinguishes, each with its base class.\<close>

datatype exc_class = CException | COSError | CConnectionError | CTimeoutError | CPermissionError
  | CValueError | CJSONDecodeError | CLookupError | CKeyError | CTypeError | CAttributeError
  | CRuntimeError | CSyntaxError | CTimeoutExpired

fun base_class :: "exc_class \<Rightarrow> exc_class" where
  "base_class CConnectionError = COSError"
| "base_class CTimeoutError = COSError"
| "base_class CPermissionError = COSError"
| "base_class CJSONDecodeError = CValueError"
| "base_class CKeyError = CLookupError"
| "base_class _ = CException"

definition isinstance :: "exc_class \<Rightarrow> exc_class list \<Rightarrow> bool" where
  "isinstance c cs \<longleftrightarrow> c \<in> set cs \<or> base_class c \<in> set cs \<or> CException \<in> set cs"

record exc =
  exc_class :: exc_class
  exc_text :: str  \<comment> \<open>\<^verbatim>\<open>str(exc)\<close>\<close>

datatype error_category = TRANSIENT | LLM_RECOVERABLE | USER_FIXABLE | UNEXPECTED

definition classify :: "exc \<Rightarrow> error_category" where
  "classify e =
     (if isinstance (exc_class e) [CConnectionError, CTimeoutError] then TRANSIENT
      else if isinstance (exc_class e) [CValueError, CKeyError, CJSONDecodeError] then LLM_RECOVERABLE
      else if isinstance (exc_class e) [CPermissionError] then USER_FIXABLE
      else UNEXPECTED)"

text \<open>The table \<^verbatim>\<open>_CATEGORY_MAP\<close>, which no code reads.\<close>

definition category_map :: "(exc_class list \<times> error_category) list" where
  "category_map =
     [([CConnectionError, CTimeoutError, COSError], TRANSIENT),
      ([CValueError, CKeyError, CJSONDecodeError], LLM_RECOVERABLE)]"

text \<open>
  \<^verbatim>\<open>with_retry\<close>: attempt \<open>n\<close> of the wrapped function has the outcome \<open>f n\<close>; the second result
  lists the waits in units of half a second, one for each failed attempt that is tried again. With a
  negative \<^verbatim>\<open>max_retries\<close> the loop body never runs and \<^verbatim>\<open>raise None\<close> is a type error.
\<close>

function retry_from :: "(nat \<Rightarrow> exc + 'a) \<Rightarrow> nat \<Rightarrow> nat \<Rightarrow> (exc + 'a) \<times> nat list" where
  "retry_from f max_retries attempt =
     (case f attempt of
        Inr v \<Rightarrow> (Inr v, [])
      | Inl e \<Rightarrow>
          (if classify e \<noteq> TRANSIENT \<or> max_retries \<le> attempt then (Inl e, [])
           else (let (r, waits) = retry_from f max_retries (Suc attempt) in (r, 2 ^ attempt # waits))))"
  by pat_completeness auto
termination by (relation "measure (\<lambda>(f, m, n). m - n)") auto

declare retry_from.simps [simp del]

definition with_retry :: "(nat \<Rightarrow> exc + 'a) \<Rightarrow> int \<Rightarrow> (exc + 'a) \<times> nat list" where
  "with_retry f max_retries =
     (if max_retries < 0 then (Inl \<lparr>exc_class = CTypeError, exc_text = U ''exceptions must derive from BaseException''\<rparr>, [])
      else retry_from f (nat max_retries) 0)"

record tool_execution_error =
  tee_tool_name :: str
  tee_detail :: str

definition tee_text :: "tool_execution_error \<Rightarrow> str" where
  "tee_text e = U ''Tool '' @ [39] @ tee_tool_name e @ [39] @ U '' error: '' @ tee_detail e"

definition tee_category :: "tool_execution_error \<Rightarrow> error_category" where
  "tee_category e = LLM_RECOVERABLE"

definition as_tool_message :: "tool_execution_error \<Rightarrow> str" where
  "as_tool_message e = U ''ERROR from tool '' @ [39] @ tee_tool_name e @ [39] @ U '': '' @ tee_detail e
     @ [10] @ U ''Please adjust your approach.''"

section \<open>Messages and tools\<close>

datatype role = SYSTEM | USER | ASSISTANT | TOOL

fun role_value :: "role \<Rightarrow> str" where
  "role_value SYSTEM = U ''system''"
| "role_value USER = U ''user''"
| "role_value ASSISTANT = U ''assistant''"
| "role_value TOOL = U ''tool''"

record message =
  role :: role
  content :: str
  msg_tool_name :: pyval  \<comment> \<open>\<open>PNone\<close> but for tool messages\<close>
  tool_call_id :: pyval

definition plain_message :: "role \<Rightarrow> str \<Rightarrow> message" where
  "plain_message r t = \<lparr>role = r, content = t, msg_tool_name = PNone, tool_call_id = PNone\<rparr>"

record tool_schema =
  ts_name :: str
  ts_description :: str
  ts_parameters :: pyval
  readonly :: bool
  risk_level :: str

record tool_call =
  tc_id :: pyval
  tc_name :: pyval
  tc_arguments :: pyval

record tool_result =
  tr_call_id :: pyval
  tr_name :: pyval
  tr_output :: str
  is_error :: bool

section \<open>State and configuration\<close>

datatype termination_reason = FINAL_ANSWER | MAX_TURNS | TOKEN_BUDGET | GUARDRAIL | USER_INTERRUPT
  | SAFETY_REFUSAL | ERROR

fun reason_value :: "termination_reason \<Rightarrow> str" where
  "reason_value FINAL_ANSWER = U ''final_answer''"
| "reason_value MAX_TURNS = U ''max_turns''"
| "reason_value TOKEN_BUDGET = U ''token_budget''"
| "reason_value GUARDRAIL = U ''guardrail''"
| "reason_value USER_INTERRUPT = U ''user_interrupt''"
| "reason_value SAFETY_REFUSAL = U ''safety_refusal''"
| "reason_value ERROR = U ''error''"

record harness_state =
  session_id :: str
  goal :: str
  turns :: int
  tokens_used :: int
  messages :: "message list"
  tool_results :: "tool_result list"
  scratchpad :: "(str, pyval) dict"
  terminated :: bool
  term_reason :: "termination_reason option"

definition new_state :: "str \<Rightarrow> str \<Rightarrow> harness_state" where
  "new_state sid g = \<lparr>session_id = sid, goal = g, turns = 0, tokens_used = 0, messages = [],
     tool_results = [], scratchpad = [], terminated = False, term_reason = None\<rparr>"

record harness_config =
  max_turns :: int
  token_budget :: int
  context_limit :: int
  max_tool_retries :: int
  verify_outputs :: bool
  parallel_readonly :: bool
  require_approval_for :: "str list"

definition default_config :: harness_config where
  "default_config = \<lparr>max_turns = 30, token_budget = 100000, context_limit = 80000, max_tool_retries = 2,
     verify_outputs = True, parallel_readonly = True, require_approval_for = [U ''high'']\<rparr>"

record verification_result =
  passed :: bool
  score :: pyfloat
  feedback :: str
  vsource :: str

section \<open>Retries\<close>

text \<open>The outcome of the first attempt that does not fail with a transient error, if one of the first
  \<open>m + 1\<close> attempts is of that kind, and otherwise the error of attempt \<open>m\<close>.\<close>

definition gives_up :: "(nat \<Rightarrow> exc + 'a) \<Rightarrow> nat \<Rightarrow> bool" where
  "gives_up f n \<longleftrightarrow> (case f n of Inr _ \<Rightarrow> True | Inl e \<Rightarrow> classify e \<noteq> TRANSIENT)"

lemma retry_from_spec:
  "attempt \<le> m \<Longrightarrow> \<exists>n. attempt \<le> n \<and> n \<le> m \<and> retry_from f m attempt = (f n, map (\<lambda>i. 2 ^ i) [attempt..<n]) \<and>
     (gives_up f n \<or> n = m) \<and> (\<forall>i. attempt \<le> i \<and> i < n \<longrightarrow> \<not> gives_up f i)"
proof (induction f m attempt rule: retry_from.induct)
  case (1 f m k)
  show ?case
  proof (cases "gives_up f k \<or> k = m")
    case True
    then have "retry_from f m k = (f k, [])"
      by (auto simp: retry_from.simps [of f m k] gives_up_def split: sum.splits)
    with True 1(2) show ?thesis by (intro exI [of _ k]) auto
  next
    case False
    then obtain e where e: "f k = Inl e" "classify e = TRANSIENT" "\<not> m \<le> k"
      using 1(2) by (auto simp: gives_up_def split: sum.splits)
    then obtain n where n: "Suc k \<le> n" "n \<le> m" "retry_from f m (Suc k) = (f n, map (\<lambda>i. 2 ^ i) [Suc k..<n])"
        "gives_up f n \<or> n = m" "\<forall>i. Suc k \<le> i \<and> i < n \<longrightarrow> \<not> gives_up f i"
      using 1(1) [of e] by auto
    have "retry_from f m k = (f n, map (\<lambda>i. 2 ^ i) [k..<n])"
      using e n(1,3) by (simp add: retry_from.simps [of f m k] upt_conv_Cons)
    moreover have "\<forall>i. k \<le> i \<and> i < n \<longrightarrow> \<not> gives_up f i" using n(5) False by (metis le_antisym not_less_eq_eq)
    ultimately show ?thesis using n by (intro exI [of _ n]) auto
  qed
qed

text \<open>A call wrapped by \<^verbatim>\<open>with_retry\<close> is made at most \<open>m + 1\<close> times; its result is that of the
  first attempt that returns or fails for good, or of the last attempt if all fail with transient errors, and the
  waits before it double from half a second on.\<close>
theorem with_retry_outcome:
  "\<exists>n \<le> m. with_retry f (int m) = (f n, map (\<lambda>i. 2 ^ i) [0..<n]) \<and> (gives_up f n \<or> n = m) \<and>
     list_all (\<lambda>i. \<not> gives_up f i) [0..<n]"
  using retry_from_spec [of 0 m f] by (auto simp: with_retry_def list_all_iff)

end
