(* ===== verification/HarnessParser.thy ===== *)
theory HarnessParser
  imports HarnessTypes PyRegex
begin

text \<open>
  \<^verbatim>\<open>OutputParser\<close> of \<^verbatim>\<open>python/ethos_aegis/harness/output_parser.py\<close>: what a model returns becomes
  tool calls, a hand-off or a final answer. Native responses are dictionaries; a text is searched for
  a final answer, then for a fenced JSON block, then for ReAct actions. The three regular expressions
  are written out with the backtracking that can happen in them. A response whose content is neither
  text nor empty has the outcome \<open>Untyped\<close>: the harness then passes an object around where it
  declares a string, which the model does not follow.
\<close>

section \<open>Plain values\<close>

text \<open>The entries of a dictionary with string keys, or \<open>None\<close> for a value without \<^verbatim>\<open>get\<close>.\<close>

definition str_entries :: "pyval \<Rightarrow> (str, pyval) dict option" where
  "str_entries v = (case v of
     PDict kvs \<Rightarrow> Some kvs
   | PKeyed kvs \<Rightarrow> Some [(k, x). (PStr k, x) \<leftarrow> kvs]
   | _ \<Rightarrow> None)"

datatype fault = Raises exc | Untyped

definition raise_exc :: "exc_class \<Rightarrow> string \<Rightarrow> fault + 'a" where
  "raise_exc c t = Inl (Raises \<lparr>exc_class = c, exc_text = U t\<rparr>)"

section \<open>Parsed output\<close>

record parsed_output =
  po_calls :: "tool_call list"
  final_answer :: "str option"
  raw_text :: str
  handoff_to :: pyval

subsection \<open>Native tool calls\<close>

text \<open>One entry of \<^verbatim>\<open>tool_calls\<close>: \<open>Inr None\<close> for a malformed entry that is skipped.\<close>

definition parse_tool_call :: "(str \<Rightarrow> pyfloat) \<Rightarrow> nat \<Rightarrow> pyval \<Rightarrow> fault + tool_call option" where
  "parse_tool_call fp n tc =
     (case str_entries tc of
        None \<Rightarrow> raise_exc CAttributeError ''object has no attribute get''
      | Some d \<Rightarrow>
          (let args0 = (case dget d (U ''arguments'') of None \<Rightarrow> PDict [] | Some a \<Rightarrow> a);
               args = (case args0 of PStr t \<Rightarrow> json_loads fp t | _ \<Rightarrow> Some args0);
               ident = (case dget d (U ''id'') of None \<Rightarrow> PStr (U ''tc_'' @ nat_str n) | Some i \<Rightarrow> i)
           in case (args, dget d (U ''name'')) of
                (Some a, Some name) \<Rightarrow> Inr (Some \<lparr>tc_id = ident, tc_name = name, tc_arguments = a\<rparr>)
              | _ \<Rightarrow> Inr None))"

fun parse_tool_calls :: "(str \<Rightarrow> pyfloat) \<Rightarrow> tool_call list \<Rightarrow> pyval list \<Rightarrow> fault + tool_call list" where
  "parse_tool_calls fp acc [] = Inr acc"
| "parse_tool_calls fp acc (tc # tcs) =
     (case parse_tool_call fp (length acc) tc of
        Inl f \<Rightarrow> Inl f
      | Inr None \<Rightarrow> parse_tool_calls fp acc tcs
      | Inr (Some c) \<Rightarrow> parse_tool_calls fp (acc @ [c]) tcs)"

definition parse_native :: "(str \<Rightarrow> pyfloat) \<Rightarrow> (str, pyval) dict \<Rightarrow> fault + parsed_output" where
  "parse_native fp response =
     (case (case dget response (U ''content'') of
              None \<Rightarrow> Some []
            | Some (PStr t) \<Rightarrow> Some t
            | Some v \<Rightarrow> if truthy v then None else Some []) of
        None \<Rightarrow> Inl Untyped
      | Some raw \<Rightarrow>
          (let handoff = (case dget response (U ''handoff_to'') of None \<Rightarrow> PNone | Some v \<Rightarrow> v);
               entries = (case dget response (U ''tool_calls'') of None \<Rightarrow> PList [] | Some v \<Rightarrow> v)
           in case py_iter entries of
                None \<Rightarrow> raise_exc CTypeError ''object is not iterable''
              | Some tcs \<Rightarrow>
                  (case parse_tool_calls fp [] tcs of
                     Inl f \<Rightarrow> Inl f
                   | Inr calls \<Rightarrow>
                       Inr \<lparr>po_calls = calls,
                            final_answer = (if calls = [] \<and> \<not> truthy handoff then Some raw else None),
                            raw_text = raw, handoff_to = handoff\<rparr>)))"

subsection \<open>Text\<close>

fun search_first :: "(str \<Rightarrow> 'a option) \<Rightarrow> str \<Rightarrow> 'a option" where
  "search_first f [] = f []"
| "search_first f (c # cs) = (case f (c # cs) of Some x \<Rightarrow> Some x | None \<Rightarrow> search_first f cs)"

definition after_ci :: "str \<Rightarrow> str \<Rightarrow> str option" where
  "after_ci lit s = map_option snd (eat_ci lit (None, s))"

text \<open>
  \<^verbatim>\<open>\s*(.+)\<close> with \<^verbatim>\<open>DOTALL\<close> at the end of a pattern: the white space is skipped, and if nothing
  else is left its last character is given back. There is no match on the empty text.
\<close>

definition skip_then_some :: "str \<Rightarrow> str option" where
  "skip_then_some s = (if s = [] then None else if lstrip s = [] then Some [last s] else Some (lstrip s))"

definition final_at :: "str \<Rightarrow> str option" where
  "final_at s = Option.bind (after_ci (U ''Final Answer:'') s) skip_then_some"

fun block_end :: "str \<Rightarrow> str \<Rightarrow> str option" where
  "block_end acc [] = None"
| "block_end acc (c # cs) =
     (if c = 125 \<and> startswith (lstrip cs) [96, 96, 96] then Some (rev (c # acc)) else block_end (c # acc) cs)"

definition json_block_at :: "str \<Rightarrow> str option" where
  "json_block_at s =
     (if startswith s ([96, 96, 96] @ U ''json'') then
        (case lstrip (drop 7 s) of
           [] \<Rightarrow> None
         | c # r \<Rightarrow> if c = 123 then block_end [c] r else None)
      else None)"

text \<open>The lazy \<^verbatim>\<open>(.+?)(?=\nObservation:|\Z)\<close>: the shortest text that is not empty.\<close>

fun until_observation :: "str \<Rightarrow> str \<Rightarrow> str \<times> str" where
  "until_observation acc [] = (rev acc, [])"
| "until_observation acc (c # cs) =
     (if acc \<noteq> [] \<and> after_ci (10 # U ''Observation:'') (c # cs) \<noteq> None then (rev acc, c # cs)
      else until_observation (c # acc) cs)"

text \<open>One ReAct action: the tool name, the input as matched, and the text after the match.\<close>

definition action_at :: "str \<Rightarrow> (str \<times> str \<times> str) option" where
  "action_at s =
     (case after_ci (U ''Action:'') s of
        None \<Rightarrow> None
      | Some r0 \<Rightarrow>
          (let r1 = lstrip r0; name = takeWhile is_word r1; r2 = dropWhile is_word r1;
               ws = takeWhile is_space r2
           in if name = [] \<or> ws = [] \<or> last ws \<noteq> 10 then None
              else (case after_ci (U ''Action Input:'') (lstrip r2) of
                      None \<Rightarrow> None
                    | Some r4 \<Rightarrow>
                        (case skip_then_some r4 of
                           None \<Rightarrow> None
                         | Some r5 \<Rightarrow> (let (input, rest) = until_observation [] r5 in Some (name, input, rest))))))"

text \<open>\<^verbatim>\<open>finditer\<close>: every match ends behind its start, so the guard never stops the search.\<close>

function actions :: "str \<Rightarrow> (str \<times> str) list" where
  "actions s =
     (case search_first action_at s of
        None \<Rightarrow> []
      | Some (name, input, rest) \<Rightarrow> if length rest < length s then (name, input) # actions rest else [])"
  by pat_completeness auto
termination by (relation "measure length") auto

declare actions.simps [simp del]

definition react_call :: "(str \<Rightarrow> pyfloat) \<Rightarrow> nat \<times> str \<times> str \<Rightarrow> tool_call" where
  "react_call fp = (\<lambda>(n, name, raw).
     (let raw_input = strip raw
      in \<lparr>tc_id = PStr (U ''react_'' @ nat_str n), tc_name = PStr (strip name),
          tc_arguments = (case json_loads fp raw_input of
             Some v \<Rightarrow> v | None \<Rightarrow> PDict [(U ''input'', PStr raw_input)])\<rparr>))"

definition parse_react :: "(str \<Rightarrow> pyfloat) \<Rightarrow> str \<Rightarrow> parsed_output" where
  "parse_react fp t =
     (let ms = actions t; calls = map (react_call fp) (zip [0..<length ms] ms)
      in \<lparr>po_calls = calls, final_answer = (if calls = [] then Some t else None), raw_text = t, handoff_to = PNone\<rparr>)"

definition parse_text :: "(str \<Rightarrow> pyfloat) \<Rightarrow> str \<Rightarrow> fault + parsed_output" where
  "parse_text fp t =
     (case search_first final_at t of
        Some g \<Rightarrow> Inr \<lparr>po_calls = [], final_answer = Some (strip g), raw_text = t, handoff_to = PNone\<rparr>
      | None \<Rightarrow>
          (case Option.bind (search_first json_block_at t) (json_loads fp) of
             Some (PDict d) \<Rightarrow>
               (if din (U ''tool_calls'') d \<or> din (U ''tool_name'') d then parse_native fp d
                else Inr (parse_react fp t))
           | _ \<Rightarrow> Inr (parse_react fp t)))"

definition parse_output :: "(pyval \<Rightarrow> str) \<Rightarrow> (str \<Rightarrow> pyfloat) \<Rightarrow> pyval \<Rightarrow> fault + parsed_output" where
  "parse_output fr fp raw =
     (case str_entries raw of
        Some d \<Rightarrow> parse_native fp d
      | None \<Rightarrow> parse_text fp (py_str fr raw))"

definition retry_parse :: "str \<Rightarrow> str \<Rightarrow> str \<Rightarrow> str" where
  "retry_parse original_prompt failed_output parse_error =
     original_prompt @ [10, 10] @ U ''Your previous response could not be parsed:'' @ [10]
     @ U ''---'' @ [10] @ failed_output @ [10] @ U ''---'' @ [10]
     @ U ''Parse error: '' @ parse_error @ [10, 10]
     @ U ''Please respond again following the required format exactly.''"

end
