(* ===== verification/PyJsonKeep.thy ===== *)
theory PyJsonKeep
  imports PyJsonRead
begin

text \<open>
  \<^verbatim>\<open>json.dumps\<close> without \<^verbatim>\<open>sort_keys\<close>, as the harness calls it: keys keep the order of the
  dictionary. Reading such a text back gives the value with tuples as lists (\<open>keep_norm\<close>).
\<close>

fun json_keep :: "(pyval \<Rightarrow> str) \<Rightarrow> (nat \<Rightarrow> str) \<Rightarrow> (nat \<Rightarrow> str) \<Rightarrow> str \<Rightarrow> nat \<Rightarrow> pyval \<Rightarrow> str" where
  "json_keep fr nl sp ks l (PList vs) =
     (if vs = [] then [91, 93]
      else 91 # nl (Suc l) @ join (44 # sp (Suc l)) (map (json_keep fr nl sp ks (Suc l)) vs) @ nl l @ [93])"
| "json_keep fr nl sp ks l (PTuple vs) =
     (if vs = [] then [91, 93]
      else 91 # nl (Suc l) @ join (44 # sp (Suc l)) (map (json_keep fr nl sp ks (Suc l)) vs) @ nl l @ [93])"
| "json_keep fr nl sp ks l (PDict kvs) =
     (if kvs = [] then [123, 125]
      else 123 # nl (Suc l) @ join (44 # sp (Suc l)) (map (\<lambda>(key, v). json_str key @ ks @ json_keep fr nl sp ks (Suc l) v) kvs)
             @ nl l @ [125])"
| "json_keep fr nl sp ks l v = json_dumps fr [] [] v"

text \<open>\<^verbatim>\<open>json.dumps(v, default=str)\<close>, and the same with \<^verbatim>\<open>indent=2\<close>.\<close>

definition dumps_flat :: "(pyval \<Rightarrow> str) \<Rightarrow> pyval \<Rightarrow> str" where
  "dumps_flat fr v = json_keep fr (\<lambda>l. []) (\<lambda>l. [32]) [58, 32] 0 v"

definition dumps_indent :: "(pyval \<Rightarrow> str) \<Rightarrow> pyval \<Rightarrow> str" where
  "dumps_indent fr v = (let nl = \<lambda>l. 10 # replicate (2 * l) 32 in json_keep fr nl nl [58, 32] 0 v)"

fun keep_norm :: "pyval \<Rightarrow> pyval" where
  "keep_norm (PList vs) = PList (map keep_norm vs)"
| "keep_norm (PTuple vs) = PList (map keep_norm vs)"
| "keep_norm (PDict kvs) = PDict (map (\<lambda>(k, v). (k, keep_norm v)) kvs)"
| "keep_norm PNone = PNone"
| "keep_norm (PBool b) = PBool b"
| "keep_norm (PInt i) = PInt i"
| "keep_norm (PFloat y) = PFloat y"
| "keep_norm (PStr s) = PStr s"
| "keep_norm (PBytes s) = PBytes s"
| "keep_norm (PKeyed s) = PKeyed s"
| "keep_norm (POther s) = POther s"

lemma keep_scalar:
  assumes "plain v" "\<forall>vs. v \<noteq> PList vs \<and> v \<noteq> PTuple vs" "\<forall>kvs. v \<noteq> PDict kvs"
  shows "json_keep fr nl sp ks l v = json_lay fr nl sp ks l v" "keep_norm v = json_norm v"
  using assms by (cases v; simp)+

lemma keep_first:
  assumes fr: "float_reads fr fp" and v: "plain v"
  shows "\<exists>c r. json_keep fr nl sp ks l v = c # r \<and> \<not> json_ws c \<and> c \<noteq> 93 \<and> c \<noteq> 125"
proof (cases "\<exists>vs kvs. v = PList vs \<or> v = PTuple vs \<or> v = PDict kvs")
  case True
  then show ?thesis by (auto simp: json_ws_def)
next
  case False
  then have "json_keep fr nl sp ks l v = json_lay fr nl sp ks l v" using keep_scalar(1) [OF v] by blast
  then show ?thesis using lay_first [OF fr v] by simp
qed

lemma json_value_keep:
  assumes fr: "float_reads fr fp" and lay: "layout_ok nl sp ks"
  shows "plain v \<Longrightarrow> 2 * length (json_keep fr nl sp ks l v) \<le> n \<Longrightarrow> ends_json x \<Longrightarrow>
    json_value fp n (json_keep fr nl sp ks l v @ x) = Some (keep_norm v, x)"
proof (induction v arbitrary: l n x rule: keep_norm.induct)
  case (1 vs)
  have "json_value fp n (json_keep fr nl sp ks l (PList vs) @ x) = Some (PList (map keep_norm vs), x)"
    by (rule array_print [OF lay _ _ _ 1(3), where g = keep_norm and f = "json_keep fr nl sp ks (Suc l)"])
      (use 1 keep_first [OF fr] in \<open>auto simp: list_all_iff\<close>)
  then show ?case by simp
next
  case (2 vs)
  have "json_value fp n (json_keep fr nl sp ks l (PTuple vs) @ x) = Some (PList (map keep_norm vs), x)"
    by (rule array_print [OF lay _ _ _ 2(3), where g = keep_norm and f = "json_keep fr nl sp ks (Suc l)"])
      (use 2 keep_first [OF fr] in \<open>auto simp: list_all_iff\<close>)
  then show ?case by simp
next
  case (3 kvs)
  let ?f = "json_keep fr nl sp ks (Suc l)"
  have pl: "plain v" "list_all scalar k" if "(k, v) \<in> set kvs" for k v
    using that 3(2) by (auto simp: list_all_iff)
  have "json_value fp n (json_keep fr nl sp ks l (PDict kvs) @ x) =
      Some (PDict (map (\<lambda>(k, v). (k, keep_norm v)) kvs), x)"
  proof (rule object_print [OF lay _ _ _ _ _ 3(3), where g = keep_norm and f = ?f])
    show "json_value fp n (?f v @ x) = Some (keep_norm v, x)"
      if "(k, v) \<in> set kvs" "2 * length (?f v) \<le> n" "ends_json x" for k v n x
      using 3(1) [of "(k, v)" k v, OF _ refl _ that(2,3)] that(1) pl by auto
    show "\<exists>c r. ?f v = c # r \<and> \<not> json_ws c \<and> c \<noteq> 93 \<and> c \<noteq> 125" if "(k, v) \<in> set kvs" for k v
      using keep_first [OF fr] pl that by auto
  qed (use 3(2) pl in auto)
  then show ?case by simp
next
  case 4
  from json_value_lay [OF fr lay 4(1), of l n x] 4 show ?case by simp
next
  case (5 b)
  from json_value_lay [OF fr lay 5(1), of l n x] 5 show ?case by simp
next
  case (6 i)
  from json_value_lay [OF fr lay 6(1), of l n x] 6 show ?case by simp
next
  case (7 y)
  from json_value_lay [OF fr lay 7(1), of l n x] 7 show ?case by simp
next
  case (8 s)
  from json_value_lay [OF fr lay 8(1), of l n x] 8 show ?case by simp
qed simp_all

lemma loads_keep:
  assumes "float_reads fr fp" "layout_ok nl sp ks" "plain v" "list_all json_ws w"
  shows "json_loads fp (json_keep fr nl sp ks l v @ w) = Some (keep_norm v)"
proof -
  let ?t = "json_keep fr nl sp ks l v"
  obtain c r where c: "?t = c # r" "\<not> json_ws c" using keep_first [OF assms(1,3)] by metis
  have e: "ends_json w" using assms(4) by (cases w) (auto simp: ends_json_def)
  have "json_value fp (2 * length (?t @ w) + 1) (?t @ w) = Some (keep_norm v, w)"
    by (rule json_value_keep [OF assms(1-3) _ e]) simp
  moreover have "skip_ws (?t @ w) = ?t @ w" using c by (simp add: skip_ws_stop)
  moreover have "skip_ws w = []" using skip_ws_append [OF assms(4), of "[]"] by (simp add: skip_ws_def)
  ultimately show ?thesis by (simp add: json_loads_def del: json_value.simps)
qed

lemma loads_flat:
  assumes "float_reads fr fp" "plain v"
  shows "json_loads fp (dumps_flat fr v) = Some (keep_norm v)"
proof -
  have "layout_ok (\<lambda>l. []) (\<lambda>l. [32]) [58, 32]" by (simp add: layout_ok_def json_ws_def)
  from loads_keep [OF assms(1) this assms(2), of "[]" 0] show ?thesis by (simp add: dumps_flat_def)
qed

lemma loads_indent:
  assumes "float_reads fr fp" "plain v"
  shows "json_loads fp (dumps_indent fr v) = Some (keep_norm v)"
proof -
  have "layout_ok (\<lambda>l. 10 # replicate (2 * l) 32) (\<lambda>l. 10 # replicate (2 * l) 32) [58, 32]"
    by (auto simp: layout_ok_def list_all_iff json_ws_def)
  from loads_keep [OF assms(1) this assms(2), of "[]" 0] show ?thesis by (simp add: dumps_indent_def Let_def)
qed

lemma plain_dget: "plain (PDict d) \<Longrightarrow> dget d k = Some v \<Longrightarrow> plain v"
  by (auto simp: dget_def list_all_iff dest!: map_of_SomeD)

lemma keep_norm_idem [simp]: "keep_norm (keep_norm v) = keep_norm v"
  by (induction v rule: keep_norm.induct) (auto simp: comp_def)

section \<open>One text, one line\<close>

lemma hex_w_ge: "c \<in> set (hex_w k n) \<Longrightarrow> 32 \<le> c"
  by (induction k arbitrary: n) (auto simp: hex_digit_def split: if_splits)

lemma json_cp_ge: "d \<in> set (json_cp c) \<Longrightarrow> 32 \<le> d"
  by (auto simp: json_cp_def json_u_def Let_def dest: hex_w_ge split: if_splits)

lemma json_str_ge: "d \<in> set (json_str s) \<Longrightarrow> 32 \<le> d"
  by (auto simp: json_str_def dest: json_cp_ge)

lemma keep_ge:
  assumes fr: "float_text fr"
  shows "plain v \<Longrightarrow> d \<in> set (json_keep fr (\<lambda>l. []) (\<lambda>l. [32]) [58, 32] l v) \<Longrightarrow> 32 \<le> d"
proof (induction v arbitrary: d l rule: keep_norm.induct)
  case (1 vs)
  from 1 show ?case by (auto simp: list_all_iff split: if_splits dest!: join_set)
next
  case (2 vs)
  from 2 show ?case by (auto simp: list_all_iff split: if_splits dest!: join_set)
next
  case (3 kvs)
  have v: "32 \<le> c" if "(k, v) \<in> set kvs" "c \<in> set (json_keep fr (\<lambda>l. []) (\<lambda>l. [32]) [58, 32] (Suc l) v)" for k v c
    using 3(1) [of "(k, v)" k v c "Suc l"] 3(2) that by (auto simp: list_all_iff)
  from 3(3) show ?case by (auto simp: v json_str_ge split: if_splits dest!: join_set)
next
  case (6 n)
  then show ?case using int_str_num by (fastforce simp: num_char_def)
next
  case (7 x)
  have "num_char c \<Longrightarrow> 32 \<le> c" for c by (auto simp: num_char_def)
  moreover have "\<forall>c \<in> set (fr (PFloat x)). num_char c" using fr by (auto simp: float_text_def list_all_iff)
  ultimately show ?case using 7 by simp
qed (auto simp: U_def json_str_ge split: if_splits)

lemma flat_one_line: "float_text fr \<Longrightarrow> plain v \<Longrightarrow> d \<in> set (dumps_flat fr v) \<Longrightarrow> 32 \<le> d"
  unfolding dumps_flat_def by (rule keep_ge)

section \<open>Files of JSON lines\<close>

text \<open>
  A text file is read with universal newlines: both line ends become \<^verbatim>\<open>\n\<close>. A pair of them gives an empty
  line more than in Python; the readers of JSON lines skip or reject empty lines.
\<close>

definition file_lines :: "str \<Rightarrow> str list" where
  "file_lines t = split_on 10 (replace_char 13 10 t)"

definition json_lines :: "(pyval \<Rightarrow> str) \<Rightarrow> (str \<times> pyval) list list \<Rightarrow> str" where
  "json_lines fr ds = concat (map (\<lambda>d. dumps_flat fr (PDict d) @ [10]) ds)"

lemma json_lines_append [simp]: "json_lines fr (ds @ es) = json_lines fr ds @ json_lines fr es"
  by (simp add: json_lines_def)

lemma dumps_dict_edges: "d \<noteq> [] \<Longrightarrow> \<exists>x. dumps_flat fr (PDict d) = 123 # x @ [125]"
  by (auto simp: dumps_flat_def)

lemma strip_dict: "d \<noteq> [] \<Longrightarrow> strip (dumps_flat fr (PDict d)) = dumps_flat fr (PDict d)"
  by (drule dumps_dict_edges [of _ fr]) (auto intro!: strip_id simp: is_space_def)

lemma dumps_dict_not_Nil [simp]: "dumps_flat fr (PDict d) \<noteq> []"
  by (simp add: dumps_flat_def)

lemma file_lines_json:
  assumes "float_text fr" "list_all (\<lambda>d. plain (PDict d)) ds"
  shows "file_lines (json_lines fr ds) = map (\<lambda>d. dumps_flat fr (PDict d)) ds @ [[]]"
  using assms(2)
proof (induction ds)
  case Nil
  then show ?case by (simp add: file_lines_def json_lines_def replace_char_def)
next
  case (Cons d ds)
  let ?t = "dumps_flat fr (PDict d)"
  have ge: "32 \<le> c" if "c \<in> set ?t" for c
    using flat_one_line [OF assms(1) _ that] Cons(2) by simp
  then have n: "10 \<notin> set ?t" "13 \<notin> set ?t" by fastforce+
  have "replace_char 13 10 ?t = ?t" using n(2) by (auto simp: replace_char_def intro: map_idI)
  then have "replace_char 13 10 (json_lines fr (d # ds)) = ?t @ 10 # replace_char 13 10 (json_lines fr ds)"
    by (simp add: json_lines_def replace_char_def)
  with Cons n show ?case by (simp add: file_lines_def split_on_append_sep)
qed

end
