(* ===== verification/HarnessContext.thy ===== *)
theory HarnessContext
  imports HarnessParser PyJsonKeep
begin

text \<open>
  \<^verbatim>\<open>ContextManager\<close> of \<^verbatim>\<open>python/ethos_aegis/harness/context.py\<close>: the token estimate, the masking of
  old tool outputs, compaction of the middle of the history and the system block. The comparison with
  85 per cent of the budget is made in binary floating point; the log line that follows divides by
  the budget, so a context limit of zero raises. The state is the compaction counter.
\<close>

section \<open>Estimates\<close>

definition token_estimate :: "str \<Rightarrow> int" where
  "token_estimate t = max 1 (int (length t div 4))"

definition estimate_tokens :: "str \<Rightarrow> message list \<Rightarrow> int" where
  "estimate_tokens system_block history =
     foldl (\<lambda>total m. total + token_estimate (content m)) (token_estimate system_block) history"

section \<open>Masking\<close>

definition mask_text :: str where
  "mask_text = U ''[output masked for context efficiency]''"

definition mask_message :: "nat \<Rightarrow> nat \<times> message \<Rightarrow> message" where
  "mask_message cutoff = (\<lambda>(i, m). if i < cutoff \<and> role m = TOOL then m\<lparr>content := mask_text\<rparr> else m)"

definition mask_old_tool_outputs :: "message list \<Rightarrow> message list" where
  "mask_old_tool_outputs history =
     (if length history \<le> 6 then history
      else map (mask_message (length history - 6)) (zip [0..<length history] history))"

section \<open>Compaction\<close>

definition keep_keywords :: "str list" where
  "keep_keywords = map U [''decided'', ''architecture'', ''bug'', ''unresolved'', ''TODO'', ''FIXME'',
     ''important'', ''critical'']"

definition high_signal :: "message \<Rightarrow> bool" where
  "high_signal m = list_ex (\<lambda>kw. str_in (lower kw) (lower (content m))) keep_keywords"

definition bullet_line :: "message \<Rightarrow> str" where
  "bullet_line m = [0x2022, 32] @ take 120 (hd (split_on 10 (content m)))"

definition do_summarise :: "(message list \<Rightarrow> str) option \<Rightarrow> message list \<Rightarrow> str" where
  "do_summarise summarise ms =
     (if ms = [] then U ''(no content)''
      else (case summarise of
              Some f \<Rightarrow> f ms
            | None \<Rightarrow>
                (let ls = map bullet_line (filter (\<lambda>m. role m = ASSISTANT) ms)
                 in if ls = [] then U ''('' @ nat_str (length ms) @ U '' messages omitted)'' else join [10] ls)))"

definition total_chars :: "message list \<Rightarrow> int" where
  "total_chars history = sum_list (map (\<lambda>m. int (length (content m))) history)"

definition budget_chars :: "harness_config \<Rightarrow> int" where
  "budget_chars cfg = context_limit cfg * 4"

definition fits :: "harness_config \<Rightarrow> message list \<Rightarrow> bool" where
  "fits cfg history \<longleftrightarrow> of_int (total_chars history) \<le> fmul (of_int (budget_chars cfg)) (fl (85/100))"

definition anchor_part :: "message list \<Rightarrow> message list" where
  "anchor_part history = take 2 history"

definition recent_part :: "message list \<Rightarrow> message list" where
  "recent_part history = tail_from 6 history"

definition middle_part :: "message list \<Rightarrow> message list" where
  "middle_part history = drop 2 (take (length history - 6) history)"

definition compaction_note :: "nat \<Rightarrow> str \<Rightarrow> message" where
  "compaction_note n summary = plain_message SYSTEM
     (U ''[Compacted history '' @ [0x2014, 32] @ nat_str n @ [93, 10] @ summary)"

definition compact_if_needed ::
  "harness_config \<Rightarrow> (message list \<Rightarrow> str) option \<Rightarrow> nat \<Rightarrow> message list \<Rightarrow> fault + message list \<times> nat" where
  "compact_if_needed cfg summarise count history =
     (if fits cfg history then Inr (history, count)
      else if budget_chars cfg = 0 then raise_exc CException ''division by zero''
      else (let middle = middle_part history;
                preserved = filter high_signal middle;
                to_summarise = filter (\<lambda>m. m \<notin> set preserved) middle;
                summary = do_summarise summarise to_summarise
            in Inr (anchor_part history @ [compaction_note (Suc count) summary] @ preserved @ recent_part history,
                    Suc count)))"

section \<open>The prompt\<close>

definition system_block :: "(pyval \<Rightarrow> str) \<Rightarrow> str \<Rightarrow> pyval list \<Rightarrow> (str, str) dict \<Rightarrow> str" where
  "system_block fr system_prompt tool_schemas memory_index =
     join [10]
       ([strip system_prompt]
        @ (if memory_index = [] then []
           else [10 # U ''## Working Memory'' @ [10] @
                 join [10] (map (\<lambda>(k, v). U ''  '' @ k @ U '': '' @ v) memory_index)])
        @ (if tool_schemas = [] then []
           else [10 # U ''## Available Tools'' @ [10] @ dumps_indent fr (PList tool_schemas)]))"

definition assemble ::
  "(pyval \<Rightarrow> str) \<Rightarrow> harness_config \<Rightarrow> (message list \<Rightarrow> str) option \<Rightarrow> nat \<Rightarrow> str \<Rightarrow> pyval list \<Rightarrow> (str, str) dict
     \<Rightarrow> message list \<Rightarrow> fault + str \<times> message list \<times> nat" where
  "assemble fr cfg summarise count system_prompt tool_schemas memory_index history =
     (case compact_if_needed cfg summarise count (mask_old_tool_outputs history) of
        Inl f \<Rightarrow> Inl f
      | Inr (trimmed, count') \<Rightarrow> Inr (system_block fr system_prompt tool_schemas memory_index, trimmed, count'))"

section \<open>What the model still sees\<close>

lemma length_mask [simp]: "length (mask_old_tool_outputs h) = length h"
  by (simp add: mask_old_tool_outputs_def)

lemma mask_nth:
  "i < length h \<Longrightarrow> mask_old_tool_outputs h ! i =
     (if i + 6 < length h \<and> role (h ! i) = TOOL then (h ! i)\<lparr>content := mask_text\<rparr> else h ! i)"
  by (auto simp: mask_old_tool_outputs_def mask_message_def)

lemma mask_drop:
  assumes "length h - 6 \<le> n"
  shows "drop n (mask_old_tool_outputs h) = drop n h"
  by (rule nth_equalityI) (use assms in \<open>auto simp: mask_nth\<close>)

text \<open>A trimmed message is a message of the history, the masked form of one, or the summary.\<close>

lemma mask_mem:
  assumes "m \<in> set (mask_old_tool_outputs h)"
  shows "m \<in> set h \<or> (\<exists>m0 \<in> set h. role m0 = TOOL \<and> m = m0\<lparr>content := mask_text\<rparr>)"
proof -
  obtain i where i: "i < length h" "m = mask_old_tool_outputs h ! i"
    using assms by (auto simp: in_set_conv_nth)
  with nth_mem [OF i(1)] mask_nth [OF i(1)] show ?thesis by (auto split: if_splits)
qed

lemma parts_cover:
  assumes "8 \<le> length h"
  shows "anchor_part h @ middle_part h @ recent_part h = h"
proof -
  have "take 2 h = take 2 (take (length h - 6) h)" using assms by simp
  then have "take 2 h @ drop 2 (take (length h - 6) h) = take (length h - 6) h"
    using append_take_drop_id [of 2 "take (length h - 6) h"] by metis
  then show ?thesis
    unfolding anchor_part_def middle_part_def recent_part_def tail_from_def
    by (metis append.assoc append_take_drop_id)
qed

lemma middle_short: "length h \<le> 8 \<Longrightarrow> middle_part h = []"
  by (simp add: middle_part_def)

end
