(* ===== verification/HarnessTools.thy ===== *)
theory HarnessTools
  imports HarnessContext "HOL-Library.Multiset"
begin

text \<open>
  \<^verbatim>\<open>ToolRegistry\<close> of \<^verbatim>\<open>python/ethos_aegis/harness/tools.py\<close>: registration, the schemas for the prompt,
  the permission gate, execution with retries, and batches in which the read-only calls run first
  and, with \<^verbatim>\<open>parallel_readonly\<close>, concurrently.

  The tools themselves, the approval callback and the model are code outside the repository: an
  environment answers from the whole history of what the harness did so far (\<open>act\<close>), so that no
  assumption on their behaviour is made. A pool of threads completes its calls in an order that
  \<open>e_sched\<close> picks; the calls of a batch are atomic in the model.
\<close>

section \<open>The environment\<close>

datatype act = Ran str pyval | Asked str "message list"

record env =
  e_invoke :: "act list \<Rightarrow> str \<Rightarrow> pyval \<Rightarrow> exc + pyval"     \<comment> \<open>\<^verbatim>\<open>fn(**arguments)\<close>\<close>
  e_approve :: "(act list \<Rightarrow> tool_call \<Rightarrow> bool) option"  \<comment> \<open>\<^verbatim>\<open>approval_fn\<close>\<close>
  e_sched :: "act list \<Rightarrow> tool_call list \<Rightarrow> tool_call list"
  e_fr :: "pyval \<Rightarrow> str"
  e_fp :: "str \<Rightarrow> pyfloat"

definition fair_sched :: "env \<Rightarrow> bool" where
  "fair_sched v \<longleftrightarrow> (\<forall>h cs. mset (e_sched v h cs) = mset cs)"

section \<open>Registry\<close>

record tool_registry =
  config :: harness_config
  schemas :: "(str, tool_schema) dict"

definition new_registry :: "harness_config \<Rightarrow> tool_registry" where
  "new_registry cfg = \<lparr>config = cfg, schemas = []\<rparr>"

definition registry_register :: "tool_schema option \<Rightarrow> tool_registry \<Rightarrow> fault + tool_registry" where
  "registry_register s r =
     (case s of
        None \<Rightarrow> raise_exc CValueError ''No ToolSchema found''
      | Some s \<Rightarrow> Inr (r\<lparr>schemas := dset (ts_name s) s (schemas r)\<rparr>))"

definition schemas_for_context :: "tool_registry \<Rightarrow> pyval list" where
  "schemas_for_context r =
     map (\<lambda>s. PDict [(U ''name'', PStr (ts_name s)), (U ''description'', PStr (ts_description s)),
                     (U ''parameters'', ts_parameters s)]) (dvals (schemas r))"

definition registry_len :: "tool_registry \<Rightarrow> nat" where
  "registry_len r = length (schemas r)"

text \<open>A lookup by a name that need not be a string: containers cannot be keys of a dictionary.\<close>

fun hashable :: "pyval \<Rightarrow> bool" where
  "hashable (PList _) = False"
| "hashable (PDict _) = False"
| "hashable (PKeyed _) = False"
| "hashable (PTuple vs) = list_all hashable vs"
| "hashable _ = True"

definition schema_of :: "tool_registry \<Rightarrow> pyval \<Rightarrow> tool_schema option" where
  "schema_of r name = (case name of PStr s \<Rightarrow> dget (schemas r) s | _ \<Rightarrow> None)"

definition call_readonly :: "tool_registry \<Rightarrow> tool_call \<Rightarrow> bool" where
  "call_readonly r c = (case schema_of r (tc_name c) of None \<Rightarrow> True | Some s \<Rightarrow> readonly s)"

section \<open>One call\<close>

definition result_of :: "tool_call \<Rightarrow> str \<Rightarrow> bool \<Rightarrow> tool_result" where
  "result_of c t err = \<lparr>tr_call_id = tc_id c, tr_name = tc_name c, tr_output = t, is_error = err\<rparr>"

definition quoted :: "(pyval \<Rightarrow> str) \<Rightarrow> pyval \<Rightarrow> str" where
  "quoted fr name = [39] @ py_str fr name @ [39]"

definition output_text :: "(pyval \<Rightarrow> str) \<Rightarrow> pyval \<Rightarrow> str" where
  "output_text fr v = (case v of PStr t \<Rightarrow> t | _ \<Rightarrow> dumps_flat fr v)"

text \<open>\<open>k\<close> attempts are left and \<open>retries\<close> have failed, the last one with \<open>last_err\<close>.\<close>

fun attempts :: "env \<Rightarrow> tool_call \<Rightarrow> str \<Rightarrow> nat \<Rightarrow> nat \<Rightarrow> str \<Rightarrow> act list \<Rightarrow> tool_result \<times> act list" where
  "attempts v c name 0 retries last_err h =
     (result_of c (U ''Tool '' @ quoted (e_fr v) (tc_name c) @ U '' failed after '' @ nat_str retries
        @ U '' retries: '' @ last_err) True, h)"
| "attempts v c name (Suc k) retries last_err h =
     (case e_invoke v h name (tc_arguments c) of
        Inr out \<Rightarrow> (result_of c (output_text (e_fr v) out) False, h @ [Ran name (tc_arguments c)])
      | Inl e \<Rightarrow> attempts v c name k (Suc retries) (exc_text e) (h @ [Ran name (tc_arguments c)]))"

definition approved :: "env \<Rightarrow> act list \<Rightarrow> tool_call \<Rightarrow> bool" where
  "approved v h c = (case e_approve v of None \<Rightarrow> False | Some f \<Rightarrow> f h c)"

definition needs_approval :: "tool_registry \<Rightarrow> tool_schema \<Rightarrow> bool" where
  "needs_approval r s \<longleftrightarrow> risk_level s \<in> set (require_approval_for (config r))"

definition execute_one :: "env \<Rightarrow> tool_registry \<Rightarrow> tool_call \<Rightarrow> act list \<Rightarrow> tool_result \<times> act list" where
  "execute_one v r c h =
     (case schema_of r (tc_name c) of
        None \<Rightarrow> (result_of c (U ''Unknown tool: '' @ py_str (e_fr v) (tc_name c)) True, h)
      | Some s \<Rightarrow>
          (if needs_approval r s \<and> \<not> approved v h c then
             (result_of c (U ''Tool '' @ quoted (e_fr v) (tc_name c) @ U '' requires approval (risk=''
                @ risk_level s @ [41]) True, h)
           else attempts v c (case tc_name c of PStr n \<Rightarrow> n | _ \<Rightarrow> [])
                  (nat (max_tool_retries (config r) + 1)) 0 [] h))"

section \<open>A batch\<close>

fun execute_all :: "env \<Rightarrow> tool_registry \<Rightarrow> tool_call list \<Rightarrow> act list \<Rightarrow> tool_result list \<times> act list" where
  "execute_all v r [] h = ([], h)"
| "execute_all v r (c # cs) h =
     (let (t, h1) = execute_one v r c h; (ts, h2) = execute_all v r cs h1 in (t # ts, h2))"

definition execute_batch ::
  "env \<Rightarrow> tool_registry \<Rightarrow> tool_call list \<Rightarrow> act list \<Rightarrow> fault + tool_result list \<times> act list" where
  "execute_batch v r calls h =
     (if \<not> list_all (\<lambda>c. hashable (tc_name c)) calls then raise_exc CTypeError ''unhashable type''
      else (let ro = filter (call_readonly r) calls;
                mutating = filter (\<lambda>c. \<not> call_readonly r c) calls;
                order = (if parallel_readonly (config r) \<and> ro \<noteq> [] then e_sched v h ro else ro);
                (rs, h1) = execute_all v r order h;
                (ms, h2) = execute_all v r mutating h1
            in Inr (rs @ ms, h2)))"

section \<open>What a batch does\<close>

text \<open>
  One call extends the history by runs of its own tool with its own arguments, at most one more than
  the configured retries, and by none at all if the tool is unknown or lacks an approval it needs.
\<close>

definition may_run :: "env \<Rightarrow> tool_registry \<Rightarrow> tool_call \<Rightarrow> act list \<Rightarrow> bool" where
  "may_run v r c h \<longleftrightarrow> (\<exists>s. schema_of r (tc_name c) = Some s \<and> (needs_approval r s \<longrightarrow> approved v h c))"

lemma attempts_spec:
  "\<exists>n. snd (attempts v c name k j e h) = h @ replicate n (Ran name (tc_arguments c)) \<and> n \<le> k \<and>
     tr_call_id (fst (attempts v c name k j e h)) = tc_id c \<and> tr_name (fst (attempts v c name k j e h)) = tc_name c"
proof (induction k arbitrary: j e h)
  case 0
  show ?case by (simp add: result_of_def)
next
  case (Suc k)
  show ?case
  proof (cases "e_invoke v h name (tc_arguments c)")
    case (Inl x)
    obtain n where "snd (attempts v c name k (Suc j) (exc_text x) (h @ [Ran name (tc_arguments c)])) =
        (h @ [Ran name (tc_arguments c)]) @ replicate n (Ran name (tc_arguments c))" "n \<le> k"
        "tr_call_id (fst (attempts v c name k (Suc j) (exc_text x) (h @ [Ran name (tc_arguments c)]))) = tc_id c"
        "tr_name (fst (attempts v c name k (Suc j) (exc_text x) (h @ [Ran name (tc_arguments c)]))) = tc_name c"
      using Suc by blast
    then show ?thesis by (intro exI [of _ "Suc n"]) (simp add: Inl)
  next
    case (Inr out)
    show ?thesis by (intro exI [of _ 1]) (simp add: Inr result_of_def)
  qed
qed

lemma execute_one_spec:
  "\<exists>n. snd (execute_one v r c h) = h @ replicate n (Ran (case tc_name c of PStr s \<Rightarrow> s | _ \<Rightarrow> []) (tc_arguments c)) \<and>
     int n \<le> max 0 (max_tool_retries (config r) + 1) \<and> (0 < n \<longrightarrow> may_run v r c h) \<and>
     tr_call_id (fst (execute_one v r c h)) = tc_id c \<and> tr_name (fst (execute_one v r c h)) = tc_name c"
proof (cases "\<exists>s. schema_of r (tc_name c) = Some s \<and> (needs_approval r s \<longrightarrow> approved v h c)")
  case True
  then obtain s where s: "schema_of r (tc_name c) = Some s" "needs_approval r s \<longrightarrow> approved v h c" by blast
  let ?k = "nat (max_tool_retries (config r) + 1)" and ?name = "case tc_name c of PStr n \<Rightarrow> n | _ \<Rightarrow> []"
  have one: "execute_one v r c h = attempts v c ?name ?k 0 [] h" using s by (auto simp: execute_one_def)
  obtain n where "snd (attempts v c ?name ?k 0 [] h) = h @ replicate n (Ran ?name (tc_arguments c))" "n \<le> ?k"
      "tr_call_id (fst (attempts v c ?name ?k 0 [] h)) = tc_id c" "tr_name (fst (attempts v c ?name ?k 0 [] h)) = tc_name c"
    using attempts_spec by blast
  then show ?thesis unfolding one using True by (intro exI [of _ n]) (auto simp: may_run_def)
next
  case False
  have "snd (execute_one v r c h) = h \<and> tr_call_id (fst (execute_one v r c h)) = tc_id c \<and>
      tr_name (fst (execute_one v r c h)) = tc_name c"
    using False by (auto simp: execute_one_def result_of_def split: option.split)
  then show ?thesis by (intro exI [of _ 0]) simp
qed

text \<open>A history in which every new run was allowed when it happened.\<close>

definition allowed_run :: "env \<Rightarrow> tool_registry \<Rightarrow> tool_call list \<Rightarrow> act list \<Rightarrow> act \<Rightarrow> bool" where
  "allowed_run v r cs h a \<longleftrightarrow> (\<forall>name args. a = Ran name args \<longrightarrow>
     (\<exists>c \<in> set cs. tc_name c = PStr name \<and> tc_arguments c = args \<and> (\<exists>h0. prefix h0 h \<and> may_run v r c h0)))"

definition lawful :: "env \<Rightarrow> tool_registry \<Rightarrow> tool_call list \<Rightarrow> act list \<Rightarrow> act list \<Rightarrow> bool" where
  "lawful v r cs h h' \<longleftrightarrow> prefix h h' \<and> (\<forall>i. length h \<le> i \<and> i < length h' \<longrightarrow> allowed_run v r cs (take i h') (h' ! i))"

lemma lawful_refl: "lawful v r cs h h"
  by (auto simp: lawful_def)

lemma lawful_trans:
  assumes "lawful v r cs h h'" "lawful v r cs h' h''"
  shows "lawful v r cs h h''"
proof -
  obtain x y where xy: "h' = h @ x" "h'' = h' @ y" using assms by (auto simp: lawful_def elim!: prefixE)
  have "allowed_run v r cs (take i h'') (h'' ! i)" if i: "length h \<le> i" "i < length h''" for i
  proof (cases "i < length h'")
    case True
    then show ?thesis using assms(1) i by (auto simp: lawful_def xy(2) nth_append)
  next
    case False
    then show ?thesis using assms(2) i by (simp add: lawful_def)
  qed
  then show ?thesis using xy by (simp add: lawful_def)
qed

lemma lawful_mono: "lawful v r cs h h' \<Longrightarrow> set cs \<subseteq> set cs' \<Longrightarrow> lawful v r cs' h h'"
  unfolding lawful_def allowed_run_def by blast

lemma lawful_one: "lawful v r [c] h (snd (execute_one v r c h))"
proof -
  let ?name = "case tc_name c of PStr s \<Rightarrow> s | _ \<Rightarrow> []"
  obtain n where n: "snd (execute_one v r c h) = h @ replicate n (Ran ?name (tc_arguments c))" "0 < n \<longrightarrow> may_run v r c h"
    using execute_one_spec by blast
  show ?thesis
  proof (cases n)
    case 0
    then show ?thesis by (simp add: n lawful_refl)
  next
    case (Suc m)
    then have may: "may_run v r c h" using n by simp
    then have name: "tc_name c = PStr ?name" by (auto simp: may_run_def schema_of_def split: pyval.splits)
    have "allowed_run v r [c] (h @ x) (Ran ?name (tc_arguments c))" for x
      unfolding allowed_run_def using may name by (auto intro!: exI [of _ h])
    then show ?thesis unfolding n lawful_def by (auto simp: nth_append)
  qed
qed

lemma lawful_all: "lawful v r cs h (snd (execute_all v r cs h))"
proof (induction cs arbitrary: h)
  case Nil
  then show ?case by (simp add: lawful_refl)
next
  case (Cons c cs)
  let ?h1 = "snd (execute_one v r c h)"
  have "lawful v r (c # cs) h ?h1" by (rule lawful_mono [OF lawful_one]) simp
  moreover have "lawful v r (c # cs) ?h1 (snd (execute_all v r cs ?h1))" by (rule lawful_mono [OF Cons]) auto
  ultimately show ?case by (auto simp: case_prod_unfold Let_def intro: lawful_trans)
qed

lemma execute_all_ids: "map tr_call_id (fst (execute_all v r cs h)) = map tc_id cs"
proof (induction cs arbitrary: h)
  case (Cons c cs)
  have "tr_call_id (fst (execute_one v r c h)) = tc_id c" using execute_one_spec [of v r c h] by blast
  with Cons show ?case by (simp add: case_prod_unfold Let_def)
qed simp

text \<open>The order in which a batch executes its calls.\<close>

definition batch_order :: "env \<Rightarrow> tool_registry \<Rightarrow> tool_call list \<Rightarrow> act list \<Rightarrow> tool_call list" where
  "batch_order v r calls h =
     (let ro = filter (call_readonly r) calls
      in (if parallel_readonly (config r) \<and> ro \<noteq> [] then e_sched v h ro else ro)
         @ filter (\<lambda>c. \<not> call_readonly r c) calls)"

lemma execute_all_append:
  "execute_all v r (cs @ ds) h =
     (let (ts, h1) = execute_all v r cs h; (us, h2) = execute_all v r ds h1 in (ts @ us, h2))"
  by (induction cs arbitrary: h) (simp_all add: case_prod_unfold Let_def)

lemma execute_batch_eq:
  "execute_batch v r calls h =
     (if \<not> list_all (\<lambda>c. hashable (tc_name c)) calls then raise_exc CTypeError ''unhashable type''
      else Inr (execute_all v r (batch_order v r calls h) h))"
  by (simp add: execute_batch_def batch_order_def execute_all_append case_prod_unfold Let_def)

lemma batch_order_mset:
  assumes "fair_sched v"
  shows "mset (batch_order v r calls h) = mset calls"
  using assms by (auto simp: batch_order_def fair_sched_def Let_def simp flip: filter_mset_eq_conv)

lemma lawful_batch:
  assumes "fair_sched v" "execute_batch v r calls h = Inr (rs, h')"
  shows "lawful v r calls h h'" "mset (map tr_call_id rs) = mset (map tc_id calls)"
proof -
  have e: "(rs, h') = execute_all v r (batch_order v r calls h) h"
    using assms(2) by (auto simp: execute_batch_eq raise_exc_def split: if_splits)
  note m = batch_order_mset [OF assms(1), of r calls h]
  have "set (batch_order v r calls h) \<subseteq> set calls" using mset_eq_setD [OF m] by simp
  then show "lawful v r calls h h'" using lawful_mono [OF lawful_all] e by (metis snd_conv)
  have "map tr_call_id rs = map tc_id (batch_order v r calls h)" using execute_all_ids e by (metis fst_conv)
  then show "mset (map tr_call_id rs) = mset (map tc_id calls)" by (simp add: m)
qed

end
