(* ===== verification/HarnessGuard.thy ===== *)
theory HarnessGuard
  imports HarnessTools AegisCore
begin

text \<open>
  \<^verbatim>\<open>GuardrailLayer\<close> of \<^verbatim>\<open>python/ethos_aegis/harness/guardrails.py\<close> and \<^verbatim>\<open>VerificationEngine\<close> of
  \<^verbatim>\<open>harness/verification.py\<close>. The guarded object is a function from its state and a text to a verdict
  or an exception, and its new state; \<open>aegis_call\<close> is \<^verbatim>\<open>EthosAegis.adjudicate\<close> as modelled in
  \<open>AegisCore\<close>. Verifiers are functions of the client; the rounding of the mean score, which
  depends on the Python version (\<^verbatim>\<open>sum\<close> compensates from 3.12 on), is an argument.
\<close>

section \<open>Guardrails\<close>

record guardrail_verdict =
  gv_passed :: bool
  gv_reason :: str
  tripwire :: bool

type_synonym 'a guard = "'a \<Rightarrow> str \<Rightarrow> (exc + aegis_verdict) \<times> 'a"

definition stage_text :: "str \<Rightarrow> str \<Rightarrow> str" where
  "stage_text stage t = [91] @ stage @ U ''] '' @ t"

definition judge :: "str \<Rightarrow> exc + aegis_verdict \<Rightarrow> guardrail_verdict" where
  "judge stage r =
     (case r of
        Inl e \<Rightarrow> \<lparr>gv_passed = True, gv_reason = stage_text stage (U ''aegis error (fail-open): '' @ exc_text e), tripwire = False\<rparr>
      | Inr v \<Rightarrow>
          (if sovereignty_depth v = CONDEMNED then
             \<lparr>gv_passed = False,
              gv_reason = stage_text stage (U ''CONDEMNED by Aegis: '' @ take 120 (axiological_report v)), tripwire = True\<rparr>
           else if sovereignty_depth v = GRAVE then
             \<lparr>gv_passed = False,
              gv_reason = stage_text stage (U ''GRAVE risk detected '' @ [0x2014] @ U '' blocked for safety''), tripwire = False\<rparr>
           else \<lparr>gv_passed = True,
                 gv_reason = stage_text stage (U ''cleared (depth='' @ depth_name (sovereignty_depth v) @ [41]),
                 tripwire = False\<rparr>))"

definition run_aegis :: "'a guard option \<Rightarrow> str \<Rightarrow> 'a \<Rightarrow> str \<Rightarrow> guardrail_verdict \<times> 'a" where
  "run_aegis gd stage a t =
     (case gd of
        None \<Rightarrow> (\<lparr>gv_passed = True, gv_reason = U ''no aegis (pass-through)'', tripwire = False\<rparr>, a)
      | Some f \<Rightarrow> (let (r, a') = f a t in (judge stage r, a')))"

definition check_input :: "'a guard option \<Rightarrow> 'a \<Rightarrow> str \<Rightarrow> guardrail_verdict \<times> 'a" where
  "check_input gd a t = run_aegis gd (U ''input'') a t"

definition check_output :: "'a guard option \<Rightarrow> 'a \<Rightarrow> str \<Rightarrow> guardrail_verdict \<times> 'a" where
  "check_output gd a t = run_aegis gd (U ''output'') a t"

definition check_tool_call :: "(pyval \<Rightarrow> str) \<Rightarrow> 'a guard option \<Rightarrow> 'a \<Rightarrow> tool_call \<Rightarrow> guardrail_verdict \<times> 'a" where
  "check_tool_call fr gd a c = run_aegis gd (U ''tool'') a (dumps_flat fr (tc_arguments c))"

text \<open>The immune core as the guarded object.\<close>

definition aegis_call :: "(bytes \<Rightarrow> str) \<Rightarrow> str \<Rightarrow> pyfloat \<Rightarrow> aegis guard" where
  "aegis_call sha now elapsed a t =
     (let (v, a', _) = adjudicate sha now elapsed a t None in (Inr v, a'))"

section \<open>Verification\<close>

type_synonym verifier = "str \<Rightarrow> verification_result"

definition python_syntax_check :: "(str \<Rightarrow> str option) \<Rightarrow> verifier" where
  "python_syntax_check syntax_error code =
     (case syntax_error code of
        None \<Rightarrow> \<lparr>passed = True, score = 1, feedback = U ''Python syntax OK'', vsource = U ''rules''\<rparr>
      | Some e \<Rightarrow> \<lparr>passed = False, score = 0, feedback = U ''SyntaxError: '' @ e, vsource = U ''rules''\<rparr>)"

datatype shell_outcome = Finished int str str | TimedOut | Failed exc

definition shell_command_verifier :: "(str \<Rightarrow> shell_outcome) \<Rightarrow> str \<Rightarrow> verification_result" where
  "shell_command_verifier run_shell cmd =
     (case run_shell cmd of
        Finished code out err \<Rightarrow>
          (let fb = take 500 (strip (out @ err))
           in \<lparr>passed = (code = 0), score = (if code = 0 then 1 else 0),
               feedback = (if fb \<noteq> [] then fb else if code = 0 then U ''OK'' else U ''non-zero exit''),
               vsource = U ''rules''\<rparr>)
      | TimedOut \<Rightarrow> \<lparr>passed = False, score = 0, feedback = U ''Verification timed out'', vsource = U ''rules''\<rparr>
      | Failed e \<Rightarrow> \<lparr>passed = False, score = 0, feedback = exc_text e, vsource = U ''rules''\<rparr>)"

record verification_engine =
  rules :: "verifier list"
  judges :: "verifier list"

definition add_rules_verifier :: "verifier \<Rightarrow> verification_engine \<Rightarrow> verification_engine" where
  "add_rules_verifier f e = e\<lparr>rules := rules e @ [f]\<rparr>"

definition add_llm_judge :: "verifier \<Rightarrow> verification_engine \<Rightarrow> verification_engine" where
  "add_llm_judge f e = e\<lparr>judges := judges e @ [f]\<rparr>"

definition short_circuits :: "verification_result \<Rightarrow> bool" where
  "short_circuits r \<longleftrightarrow> \<not> passed r \<and> score r < fl (4/10)"

text \<open>One of the two loops: the first short circuit, or the results so far.\<close>

fun verify_with :: "verifier list \<Rightarrow> str \<Rightarrow> verification_result list \<Rightarrow> verification_result + verification_result list" where
  "verify_with [] out acc = Inr acc"
| "verify_with (f # fs) out acc =
     (if short_circuits (f out) then Inl (f out) else verify_with fs out (acc @ [f out]))"

definition engine_verify :: "(pyfloat list \<Rightarrow> pyfloat) \<Rightarrow> verification_engine \<Rightarrow> str \<Rightarrow> verification_result" where
  "engine_verify mean e out =
     (case verify_with (rules e) out [] of
        Inl r \<Rightarrow> r
      | Inr rs \<Rightarrow>
          (case verify_with (judges e) out rs of
             Inl r \<Rightarrow> r
           | Inr all_results \<Rightarrow>
               \<lparr>passed = True, score = (if all_results = [] then 1 else mean (map score all_results)),
                feedback = U ''All '' @ nat_str (length all_results) @ U '' verifier(s) passed'',
                vsource = U ''composite''\<rparr>))"

lemma verify_with_find:
  "verify_with fs out acc =
     (case find short_circuits (map (\<lambda>f. f out) fs) of Some r \<Rightarrow> Inl r | None \<Rightarrow> Inr (acc @ map (\<lambda>f. f out) fs))"
  by (induction fs arbitrary: acc) (auto split: option.split)

lemma verify_find:
  "engine_verify mean e out = (case find short_circuits (map (\<lambda>f. f out) (rules e @ judges e)) of
     Some r \<Rightarrow> r
   | None \<Rightarrow> (let rs = map (\<lambda>f. f out) (rules e @ judges e)
       in \<lparr>passed = True, score = (if rs = [] then 1 else mean (map score rs)),
           feedback = U ''All '' @ nat_str (length rs) @ U '' verifier(s) passed'', vsource = U ''composite''\<rparr>))"
proof -
  have app: "find P (xs @ ys) = (case find P xs of Some r \<Rightarrow> Some r | None \<Rightarrow> find P ys)" for P and xs ys :: "'b list"
    by (induction xs) auto
  show ?thesis by (simp add: engine_verify_def verify_with_find app Let_def split: option.split)
qed

lemma find_short: "find short_circuits rs = Some r \<Longrightarrow> \<not> passed r"
  by (induction rs) (auto simp: short_circuits_def split: if_splits)

section \<open>What a guardrail promises\<close>

text \<open>
  The contract of a guarded object: it keeps its invariant, and a dangerous text gets a verdict of
  depth \<open>GRAVE\<close> at least.
\<close>

locale guard_law =
  fixes call :: "'a guard" and inv :: "'a \<Rightarrow> bool" and danger :: "str \<Rightarrow> bool"
  assumes inv_call: "inv a \<Longrightarrow> inv (snd (call a t))"
    and danger_grave: "inv a \<Longrightarrow> danger t \<Longrightarrow> \<exists>v. fst (call a t) = Inr v \<and> GRAVE \<le> sovereignty_depth v"
begin

lemma run_inv: "inv a \<Longrightarrow> inv (snd (run_aegis (Some call) stage a t))"
  using inv_call by (simp add: run_aegis_def case_prod_unfold Let_def)

lemma danger_blocked:
  assumes "inv a" "danger t"
  shows "\<not> gv_passed (fst (run_aegis (Some call) stage a t))"
proof -
  obtain v where v: "fst (call a t) = Inr v" "GRAVE \<le> sovereignty_depth v" using danger_grave [OF assms] by blast
  then have "sovereignty_depth v = GRAVE \<or> sovereignty_depth v = CONDEMNED"
    by (cases "sovereignty_depth v") (simp_all add: less_eq_corruption_depth_def)
  then show ?thesis using v(1) by (auto simp: run_aegis_def judge_def case_prod_unfold Let_def)
qed

end

end
