(* ===== verification/HarnessMemory.thy ===== *)
theory HarnessMemory
  imports HarnessParser PyJsonKeep
begin

text \<open>
  \<^verbatim>\<open>MemoryStore\<close> of \<^verbatim>\<open>python/ethos_aegis/harness/memory.py\<close>: the index, detail and transcript tiers
  and the file of JSON lines that every write is appended to. The file is its text; reading it
  translates line ends as a Python text file does. Values in the file that have another type than
  \<^verbatim>\<open>MemoryEntry\<close> declares give \<open>Untyped\<close>. The clock is an argument.
\<close>

section \<open>Entries and store\<close>

record memory_entry =
  me_key :: str
  me_value :: str
  me_tier :: str
  me_timestamp :: pyfloat
  me_tags :: "str list"

record memory_store =
  ms_index :: "(str, memory_entry) dict"
  ms_detail :: "(str, memory_entry) dict"
  ms_transcript :: "memory_entry list"
  ms_file :: "str option"  \<comment> \<open>the text of the file, if the store has one\<close>

definition empty_memory :: "str option \<Rightarrow> memory_store" where
  "empty_memory f = \<lparr>ms_index = [], ms_detail = [], ms_transcript = [], ms_file = f\<rparr>"

definition place_entry :: "memory_entry \<Rightarrow> memory_store \<Rightarrow> memory_store" where
  "place_entry e m =
     (if me_tier e = U ''index'' then m\<lparr>ms_index := dset (me_key e) e (ms_index m)\<rparr>
      else if me_tier e = U ''detail'' then m\<lparr>ms_detail := dset (me_key e) e (ms_detail m)\<rparr>
      else m\<lparr>ms_transcript := ms_transcript m @ [e]\<rparr>)"

section \<open>Writing\<close>

definition entry_value :: "memory_entry \<Rightarrow> pyval" where
  "entry_value e = PDict [(U ''key'', PStr (me_key e)), (U ''value'', PStr (me_value e)),
     (U ''tier'', PStr (me_tier e)), (U ''tags'', PList (map PStr (me_tags e))), (U ''ts'', PFloat (me_timestamp e))]"

definition persist :: "(pyval \<Rightarrow> str) \<Rightarrow> memory_entry \<Rightarrow> memory_store \<Rightarrow> memory_store" where
  "persist fr e m =
     (case ms_file m of
        None \<Rightarrow> m
      | Some t \<Rightarrow> m\<lparr>ms_file := Some (t @ dumps_flat fr (entry_value e) @ [10])\<rparr>)"

definition remember ::
  "(pyval \<Rightarrow> str) \<Rightarrow> pyfloat \<Rightarrow> str \<Rightarrow> str \<Rightarrow> str \<Rightarrow> str list option \<Rightarrow> memory_store \<Rightarrow> memory_store" where
  "remember fr now key val tier tags m =
     (let e = \<lparr>me_key = key, me_value = (if tier = U ''index'' then take 200 val else val), me_tier = tier,
               me_timestamp = now, me_tags = (case tags of None \<Rightarrow> [] | Some ts \<Rightarrow> ts)\<rparr>
      in persist fr e (place_entry e m))"

definition forget :: "str \<Rightarrow> memory_store \<Rightarrow> memory_store" where
  "forget key m = m\<lparr>ms_index := dpop key (ms_index m), ms_detail := dpop key (ms_detail m)\<rparr>"

section \<open>Reading\<close>

definition index_snapshot :: "memory_store \<Rightarrow> (str, str) dict" where
  "index_snapshot m = map (\<lambda>(k, e). (k, me_value e)) (ms_index m)"

definition recall :: "memory_store \<Rightarrow> str \<Rightarrow> str option" where
  "recall m key =
     (case dget (ms_detail m) key of
        Some e \<Rightarrow> Some (me_value e)
      | None \<Rightarrow> map_option me_value (dget (ms_index m) key))"

text \<open>\<^verbatim>\<open>xs[-n:]\<close> for any integer: all of the list for zero, and a prefix is dropped for a negative one.\<close>

definition last_n :: "int \<Rightarrow> 'a list \<Rightarrow> 'a list" where
  "last_n n xs = (if n = 0 then xs else if 0 < n then tail_from (nat n) xs else drop (nat (- n)) xs)"

definition search_transcript :: "memory_store \<Rightarrow> str \<Rightarrow> int \<Rightarrow> str list" where
  "search_transcript m query limit =
     last_n limit [me_value e. e \<leftarrow> ms_transcript m, str_in (lower query) (lower (me_value e))]"

definition search_by_tag :: "memory_store \<Rightarrow> str \<Rightarrow> memory_entry list" where
  "search_by_tag m tag = filter (\<lambda>e. tag \<in> set (me_tags e)) (dvals (ms_index m) @ dvals (ms_detail m))"

definition memory_len :: "memory_store \<Rightarrow> nat" where
  "memory_len m = length (ms_index m) + length (ms_detail m) + length (ms_transcript m)"

section \<open>Loading\<close>

definition as_str :: "pyval \<Rightarrow> fault + str" where
  "as_str v = (case v of PStr s \<Rightarrow> Inr s | _ \<Rightarrow> Inl Untyped)"

definition str_list_of :: "pyval \<Rightarrow> fault + str list" where
  "str_list_of v = (case v of PList vs \<Rightarrow> map_result as_str vs | _ \<Rightarrow> Inl Untyped)"

definition field :: "(str, pyval) dict \<Rightarrow> string \<Rightarrow> fault + pyval" where
  "field d k = (case dget d (U k) of Some v \<Rightarrow> Inr v | None \<Rightarrow> raise_exc CKeyError k)"

definition bind_result :: "'e + 'a \<Rightarrow> ('a \<Rightarrow> 'e + 'b) \<Rightarrow> 'e + 'b" where
  "bind_result r f = (case r of Inl e \<Rightarrow> Inl e | Inr v \<Rightarrow> f v)"

definition load_entry :: "pyfloat \<Rightarrow> pyval \<Rightarrow> fault + memory_entry" where
  "load_entry now v =
     (case v of
        PDict d \<Rightarrow>
          bind_result (field d ''key'') (\<lambda>k. bind_result (field d ''value'') (\<lambda>x. bind_result (field d ''tier'') (\<lambda>t.
          bind_result (as_str k) (\<lambda>k. bind_result (as_str x) (\<lambda>x. bind_result (as_str t) (\<lambda>t.
          bind_result (case dget d (U ''tags'') of None \<Rightarrow> Inr [] | Some ts \<Rightarrow> str_list_of ts) (\<lambda>ts.
          bind_result (case dget d (U ''ts'') of None \<Rightarrow> Inr now | Some (PFloat y) \<Rightarrow> Inr y | Some _ \<Rightarrow> Inl Untyped) (\<lambda>y.
            Inr \<lparr>me_key = k, me_value = x, me_tier = t, me_timestamp = y, me_tags = ts\<rparr>))))))))
      | _ \<Rightarrow> raise_exc CTypeError ''indices must be integers or slices'')"

fun load_lines :: "(str \<Rightarrow> pyfloat) \<Rightarrow> pyfloat \<Rightarrow> str list \<Rightarrow> memory_store \<Rightarrow> fault + memory_store" where
  "load_lines fp now [] m = Inr m"
| "load_lines fp now (l # ls) m =
     (let t = strip l
      in if t = [] then load_lines fp now ls m
         else (case json_loads fp t of
                 None \<Rightarrow> raise_exc CJSONDecodeError ''Expecting value''
               | Some v \<Rightarrow>
                   (case load_entry now v of
                      Inl f \<Rightarrow> Inl f
                    | Inr e \<Rightarrow> load_lines fp now ls (place_entry e m))))"

text \<open>The constructor: \<open>None\<close> for no path, and a path whose file does not exist is an empty text.\<close>

definition open_memory :: "(str \<Rightarrow> pyfloat) \<Rightarrow> pyfloat \<Rightarrow> str option \<Rightarrow> fault + memory_store" where
  "open_memory fp now f =
     (case f of
        None \<Rightarrow> Inr (empty_memory None)
      | Some t \<Rightarrow> load_lines fp now (split_on 10 (replace_char 13 10 t)) (empty_memory (Some t)))"

section \<open>Sessions of one store\<close>

datatype memory_op = Remember pyfloat str str str "str list option" | Forget str

fun memory_step :: "(pyval \<Rightarrow> str) \<Rightarrow> memory_op \<Rightarrow> memory_store \<Rightarrow> memory_store" where
  "memory_step fr (Remember now key val tier tags) m = remember fr now key val tier tags m"
| "memory_step fr (Forget key) m = forget key m"

fun memory_run :: "(pyval \<Rightarrow> str) \<Rightarrow> memory_op list \<Rightarrow> memory_store \<Rightarrow> memory_store" where
  "memory_run fr [] m = m"
| "memory_run fr (x # xs) m = memory_run fr xs (memory_step fr x m)"

fun is_remember :: "memory_op \<Rightarrow> bool" where
  "is_remember (Remember _ _ _ _ _) = True"
| "is_remember (Forget _) = False"

fun op_scalar :: "memory_op \<Rightarrow> bool" where
  "op_scalar (Remember now key val tier tags) = (list_all scalar key \<and> list_all scalar val \<and> list_all scalar tier \<and>
     (case tags of None \<Rightarrow> True | Some ts \<Rightarrow> list_all (list_all scalar) ts))"
| "op_scalar (Forget _) = True"

definition entry_ok :: "memory_entry \<Rightarrow> bool" where
  "entry_ok e \<longleftrightarrow> list_all scalar (me_key e) \<and> list_all scalar (me_value e) \<and> list_all scalar (me_tier e) \<and>
     list_all (list_all scalar) (me_tags e)"

definition lines_text :: "(pyval \<Rightarrow> str) \<Rightarrow> memory_entry list \<Rightarrow> str" where
  "lines_text fr es = concat (map (\<lambda>e. dumps_flat fr (entry_value e) @ [10]) es)"

definition place_all :: "memory_entry list \<Rightarrow> memory_store \<Rightarrow> memory_store" where
  "place_all es m = foldl (\<lambda>m e. place_entry e m) m es"

lemma entry_plain: "entry_ok e \<Longrightarrow> plain (entry_value e)"
  by (simp add: entry_ok_def entry_value_def list.pred_map comp_def)

lemma map_as_str: "map_result as_str (map PStr ts) = Inr ts"
  by (induction ts) (simp_all add: as_str_def)

lemma keep_entry: "keep_norm (entry_value e) = entry_value e"
  by (simp add: entry_value_def comp_def)

lemma load_entry_value: "load_entry now (entry_value e) = Inr e"
  by (simp add: load_entry_def entry_value_def bind_result_def field_def as_str_def str_list_of_def map_as_str dget_def)

lemma strip_entry: "strip (dumps_flat fr (entry_value e)) = dumps_flat fr (entry_value e)"
  by (simp add: entry_value_def strip_dict)

lemma lines_split:
  assumes "float_text fr" "list_all entry_ok es"
  shows "split_on 10 (replace_char 13 10 (lines_text fr es)) = map (\<lambda>e. dumps_flat fr (entry_value e)) es @ [[]]"
proof -
  let ?d = "\<lambda>e. case entry_value e of PDict d \<Rightarrow> d"
  have d: "PDict (?d e) = entry_value e" for e by (simp add: entry_value_def)
  have "list_all (\<lambda>d. plain (PDict d)) (map ?d es)"
    using assms(2) entry_plain by (simp only: list_all_iff d set_map ball_simps) blast
  from file_lines_json [OF assms(1) this] show ?thesis
    by (simp add: file_lines_def json_lines_def lines_text_def comp_def d)
qed

lemma load_lines_printed:
  assumes "float_reads fr fp" "list_all entry_ok es"
  shows "load_lines fp now (map (\<lambda>e. dumps_flat fr (entry_value e)) es @ [[]]) m = Inr (place_all es m)"
  using assms(2)
proof (induction es arbitrary: m)
  case Nil
  then show ?case by (simp add: strip_def lstrip_def rstrip_by_def place_all_def)
next
  case (Cons e es)
  have "json_loads fp (dumps_flat fr (entry_value e)) = Some (entry_value e)"
    using loads_flat [OF assms(1) entry_plain] Cons(2) keep_entry by simp
  moreover have "dumps_flat fr (entry_value e) \<noteq> []" by (simp add: entry_value_def)
  ultimately show ?case using Cons by (simp add: strip_entry load_entry_value place_all_def)
qed

lemma file_place [simp]: "ms_file (place_entry e m) = ms_file m"
  by (simp add: place_entry_def)

lemma place_with_file: "place_entry e (m\<lparr>ms_file := f\<rparr>) = (place_entry e m)\<lparr>ms_file := f\<rparr>"
  by (simp add: place_entry_def)

lemma foldl_file: "foldl (\<lambda>m e. place_entry e m) (m\<lparr>ms_file := f\<rparr>) es =
    (foldl (\<lambda>m e. place_entry e m) m es)\<lparr>ms_file := f\<rparr>"
  by (induction es arbitrary: m) (simp_all add: place_with_file)

lemma place_all_file: "place_all es (m\<lparr>ms_file := f\<rparr>) = (place_all es m)\<lparr>ms_file := f\<rparr>"
  by (simp add: place_all_def foldl_file)

fun op_entries :: "memory_op list \<Rightarrow> memory_entry list" where
  "op_entries [] = []"
| "op_entries (Remember now key val tier tags # ops) =
     \<lparr>me_key = key, me_value = (if tier = U ''index'' then take 200 val else val), me_tier = tier,
       me_timestamp = now, me_tags = (case tags of None \<Rightarrow> [] | Some ts \<Rightarrow> ts)\<rparr> # op_entries ops"
| "op_entries (Forget key # ops) = op_entries ops"

lemma op_entries_ok: "list_all op_scalar ops \<Longrightarrow> list_all entry_ok (op_entries ops)"
  by (induction ops rule: op_entries.induct) (auto simp: entry_ok_def list_all_iff split: option.splits dest: in_set_takeD)

lemma remember_eq:
  "ms_file m = Some t \<Longrightarrow> remember fr now key val tier tags m =
     (place_all (op_entries [Remember now key val tier tags]) m)
       \<lparr>ms_file := Some (t @ lines_text fr (op_entries [Remember now key val tier tags]))\<rparr>"
  by (simp add: remember_def persist_def place_all_def lines_text_def Let_def)

lemma memory_run_file:
  "ms_file m = Some t \<Longrightarrow> ms_file (memory_run fr ops m) = Some (t @ lines_text fr (op_entries ops))"
proof (induction ops arbitrary: m t rule: op_entries.induct)
  case 1
  then show ?case by (simp add: lines_text_def)
next
  case (2 now key val tier tags ops)
  then show ?case by (simp add: remember_eq lines_text_def)
next
  case (3 key ops)
  then show ?case by (simp add: forget_def)
qed

lemma memory_run_place:
  "ms_file m = Some t \<Longrightarrow> memory_run fr (filter is_remember ops) m =
     (place_all (op_entries ops) m)\<lparr>ms_file := Some (t @ lines_text fr (op_entries ops))\<rparr>"
proof (induction ops arbitrary: m t rule: op_entries.induct)
  case 1
  then show ?case by (simp add: lines_text_def place_all_def)
next
  case (2 now key val tier tags ops)
  then show ?case by (simp add: remember_eq lines_text_def place_all_def foldl_file)
next
  case (3 key ops)
  then show ?case by simp
qed

section \<open>Properties\<close>

text \<open>Opening the file of a memory store gives the store back with every value, tag, time and position,
  except that what was forgotten returns: \<^verbatim>\<open>forget\<close> leaves the file alone, so the store that
  is read is the one in which no call to \<^verbatim>\<open>forget\<close> was ever made.\<close>

theorem memory_reload:
  assumes "float_io fr fp" "list_all op_scalar ops"
  shows "open_memory fp now (ms_file (memory_run fr ops (empty_memory (Some [])))) =
     Inr (memory_run fr (filter is_remember ops) (empty_memory (Some [])))"
proof -
  let ?es = "op_entries ops"
  have fr: "float_text fr" "float_reads fr fp" using assms(1) by (simp_all add: float_io_def)
  note ok = op_entries_ok [OF assms(2)]
  have new: "ms_file (empty_memory (Some [])) = Some []" by (simp add: empty_memory_def)
  have "open_memory fp now (ms_file (memory_run fr ops (empty_memory (Some [])))) =
      Inr (place_all ?es (empty_memory (Some (lines_text fr ?es))))"
    by (simp add: memory_run_file [OF new] open_memory_def lines_split [OF fr(1) ok] load_lines_printed [OF fr(2) ok])
  also have "empty_memory (Some (lines_text fr ?es)) = (empty_memory (Some []))\<lparr>ms_file := Some (lines_text fr ?es)\<rparr>"
    by (simp add: empty_memory_def)
  finally show ?thesis by (simp add: place_all_file memory_run_place [OF new])
qed

definition demo_memory :: "memory_op list" where
  "demo_memory = [Remember 1 (U ''spec'') (U ''use JWT'') (U ''detail'') None,
     Remember 2 (U ''goal'') (U ''fix'') (U ''index'') (Some [U ''auth'']), Forget (U ''spec'')]"

lemma memory_reload_witness:
  "open_memory ratio_read 0 (ms_file (memory_run ratio_text demo_memory (empty_memory (Some [])))) =
     Inr (memory_run ratio_text (filter is_remember demo_memory) (empty_memory (Some []))) \<and>
   recall (memory_run ratio_text demo_memory (empty_memory (Some []))) (U ''spec'') = None \<and>
   recall (memory_run ratio_text (filter is_remember demo_memory) (empty_memory (Some []))) (U ''spec'') = Some (U ''use JWT'')"
proof (intro conjI)
  show "open_memory ratio_read 0 (ms_file (memory_run ratio_text demo_memory (empty_memory (Some [])))) =
     Inr (memory_run ratio_text (filter is_remember demo_memory) (empty_memory (Some [])))"
    by (rule memory_reload) (simp_all add: ratio_io demo_memory_def)
qed (simp_all add: demo_memory_def remember_def persist_def place_entry_def empty_memory_def recall_def forget_def Let_def)

end
