(* ===== verification/HarnessCheckpoint.thy ===== *)
theory HarnessCheckpoint
  imports HarnessMemory "HOL-Library.List_Lexorder"
begin

text \<open>
  \<^verbatim>\<open>CheckpointStore\<close> of \<^verbatim>\<open>python/ethos_aegis/harness/state.py\<close>: a directory per session, a JSON file
  per saved turn and the progress file beside them. The file system below the root is a dictionary
  of directories, each a dictionary from file names to texts. A checkpoint is written with its keys in
  order and read back through the JSON reader; a file whose values have other types than the state
  declares gives \<open>Untyped\<close>.
\<close>

section \<open>The store\<close>

type_synonym session_dir = "(str, str) dict"
type_synonym checkpoint_store = "(str, session_dir) dict"

definition id_char :: "nat \<Rightarrow> bool" where
  "id_char c \<longleftrightarrow> is_alpha c \<or> is_digit c \<or> c = 95 \<or> c = 45"

definition session_dir_ok :: "str \<Rightarrow> bool" where
  "session_dir_ok sid \<longleftrightarrow> list_all id_char sid \<and> 1 \<le> length sid \<and> length sid \<le> 128"

definition bad_session :: "fault + 'a" where
  "bad_session = raise_exc CValueError ''checkpoint session IDs must be bounded path-safe identifiers''"

definition dir_of :: "checkpoint_store \<Rightarrow> str \<Rightarrow> session_dir" where
  "dir_of cs sid = (case dget cs sid of None \<Rightarrow> [] | Some d \<Rightarrow> d)"

text \<open>\<^verbatim>\<open>f"{n:04d}.json"\<close>; the width of a negative number counts its sign.\<close>

definition checkpoint_name :: "int \<Rightarrow> str" where
  "checkpoint_name n =
     (if n < 0 then 45 # pad_left 48 3 (nat_str (nat (- n))) else pad_left 48 4 (nat_str (nat n))) @ U ''.json''"

definition progress_name :: str where
  "progress_name = U ''progress.json''"

section \<open>Serialisation\<close>

definition message_value :: "message \<Rightarrow> pyval" where
  "message_value m = PDict [(U ''role'', PStr (role_value (role m))), (U ''content'', PStr (content m)),
     (U ''tool_name'', msg_tool_name m), (U ''tool_call_id'', tool_call_id m)]"

definition serialise :: "harness_state \<Rightarrow> pyval" where
  "serialise s = PDict
     [(U ''session_id'', PStr (session_id s)), (U ''goal'', PStr (goal s)), (U ''turns'', PInt (turns s)),
      (U ''tokens_used'', PInt (tokens_used s)), (U ''messages'', PList (map message_value (messages s))),
      (U ''scratchpad'', PDict (scratchpad s)), (U ''terminated'', PBool (terminated s)),
      (U ''term_reason'', (case term_reason s of None \<Rightarrow> PNone | Some r \<Rightarrow> PStr (reason_value r)))]"

definition role_of :: "pyval \<Rightarrow> fault + role" where
  "role_of v =
     (case find (\<lambda>r. v = PStr (role_value r)) [SYSTEM, USER, ASSISTANT, TOOL] of
        Some r \<Rightarrow> Inr r | None \<Rightarrow> raise_exc CValueError ''is not a valid Role'')"

definition reason_of :: "pyval \<Rightarrow> fault + termination_reason" where
  "reason_of v =
     (case find (\<lambda>r. v = PStr (reason_value r))
        [FINAL_ANSWER, MAX_TURNS, TOKEN_BUDGET, GUARDRAIL, USER_INTERRUPT, SAFETY_REFUSAL, ERROR] of
        Some r \<Rightarrow> Inr r | None \<Rightarrow> raise_exc CValueError ''is not a valid TerminationReason'')"

definition get_or :: "(str, pyval) dict \<Rightarrow> string \<Rightarrow> pyval \<Rightarrow> pyval" where
  "get_or d k v = (case dget d (U k) of None \<Rightarrow> v | Some x \<Rightarrow> x)"

definition message_of :: "pyval \<Rightarrow> fault + message" where
  "message_of v =
     (case v of
        PDict d \<Rightarrow>
          bind_result (field d ''role'') (\<lambda>r. bind_result (role_of r) (\<lambda>r.
          bind_result (field d ''content'') (\<lambda>c. bind_result (as_str c) (\<lambda>c.
            Inr \<lparr>role = r, content = c, msg_tool_name = get_or d ''tool_name'' PNone,
                 tool_call_id = get_or d ''tool_call_id'' PNone\<rparr>))))
      | _ \<Rightarrow> raise_exc CTypeError ''indices must be integers or slices'')"

definition as_int :: "pyval \<Rightarrow> fault + int" where
  "as_int v = (case v of PInt n \<Rightarrow> Inr n | _ \<Rightarrow> Inl Untyped)"

definition as_bool :: "pyval \<Rightarrow> fault + bool" where
  "as_bool v = (case v of PBool b \<Rightarrow> Inr b | _ \<Rightarrow> Inl Untyped)"

definition as_dict :: "pyval \<Rightarrow> fault + (str, pyval) dict" where
  "as_dict v = (case v of PDict d \<Rightarrow> Inr d | _ \<Rightarrow> Inl Untyped)"

definition deserialise :: "pyval \<Rightarrow> fault + harness_state" where
  "deserialise v =
     (case v of
        PDict d \<Rightarrow>
          bind_result (case py_iter (get_or d ''messages'' (PList [])) of
             None \<Rightarrow> raise_exc CTypeError ''object is not iterable'' | Some ms \<Rightarrow> map_result message_of ms) (\<lambda>ms.
          bind_result (field d ''session_id'') (\<lambda>sid. bind_result (field d ''goal'') (\<lambda>g.
          bind_result (let r = get_or d ''term_reason'' PNone
                       in if truthy r then (case reason_of r of Inl f \<Rightarrow> Inl f | Inr x \<Rightarrow> Inr (Some x)) else Inr None) (\<lambda>reason.
          bind_result (as_str sid) (\<lambda>sid. bind_result (as_str g) (\<lambda>g.
          bind_result (as_int (get_or d ''turns'' (PInt 0))) (\<lambda>n.
          bind_result (as_int (get_or d ''tokens_used'' (PInt 0))) (\<lambda>u.
          bind_result (as_dict (get_or d ''scratchpad'' (PDict []))) (\<lambda>p.
          bind_result (as_bool (get_or d ''terminated'' (PBool False))) (\<lambda>b.
            Inr \<lparr>session_id = sid, goal = g, turns = n, tokens_used = u, messages = ms, tool_results = [],
                 scratchpad = p, terminated = b, term_reason = reason\<rparr>))))))))))
      | _ \<Rightarrow> raise_exc CAttributeError ''object has no attribute get'')"

section \<open>Operations\<close>

definition save_checkpoint :: "(pyval \<Rightarrow> str) \<Rightarrow> harness_state \<Rightarrow> checkpoint_store \<Rightarrow> fault + checkpoint_store" where
  "save_checkpoint fr s cs =
     (if \<not> session_dir_ok (session_id s) then bad_session
      else Inr (dset (session_id s)
             (dset (checkpoint_name (turns s)) (dumps_indent fr (serialise s)) (dir_of cs (session_id s))) cs))"

definition read_json :: "(str \<Rightarrow> pyfloat) \<Rightarrow> str \<Rightarrow> fault + pyval" where
  "read_json fp t = (case json_loads fp t of None \<Rightarrow> raise_exc CJSONDecodeError ''Expecting value'' | Some v \<Rightarrow> Inr v)"

definition json_files :: "session_dir \<Rightarrow> str list" where
  "json_files d = filter (\<lambda>n. endswith n (U ''.json'')) (dkeys d)"

definition load_latest :: "(str \<Rightarrow> pyfloat) \<Rightarrow> str \<Rightarrow> checkpoint_store \<Rightarrow> fault + harness_state option" where
  "load_latest fp sid cs =
     (if \<not> session_dir_ok sid then bad_session
      else (case dget cs sid of
              None \<Rightarrow> Inr None
            | Some d \<Rightarrow>
                (if json_files d = [] then Inr None
                 else (case dget d (last (sort (json_files d))) of
                         None \<Rightarrow> Inr None
                       | Some t \<Rightarrow>
                           bind_result (read_json fp t) (\<lambda>v. bind_result (deserialise v) (\<lambda>s. Inr (Some s)))))))"

definition list_sessions :: "checkpoint_store \<Rightarrow> str list" where
  "list_sessions cs = dkeys cs"

text \<open>\<^verbatim>\<open>existing.update(data)\<close> and the time stamp, in the order of the source.\<close>

definition progress_data :: "pyfloat \<Rightarrow> (str, pyval) dict \<Rightarrow> (str, pyval) dict \<Rightarrow> (str, pyval) dict" where
  "progress_data now existing data =
     dset (U ''updated_at'') (PFloat now) (foldl (\<lambda>d (k, v). dset k v d) existing data)"

definition write_progress ::
  "(pyval \<Rightarrow> str) \<Rightarrow> (str \<Rightarrow> pyfloat) \<Rightarrow> pyfloat \<Rightarrow> str \<Rightarrow> (str, pyval) dict \<Rightarrow> checkpoint_store \<Rightarrow> fault + checkpoint_store" where
  "write_progress fr fp now sid data cs =
     (if \<not> session_dir_ok sid then bad_session
      else bind_result
        (case dget (dir_of cs sid) progress_name of
           None \<Rightarrow> Inr (PDict [])
         | Some t \<Rightarrow> read_json fp t) (\<lambda>v.
        (case v of
           PDict existing \<Rightarrow>
             Inr (dset sid (dset progress_name (dumps_indent fr (PDict (progress_data now existing data))) (dir_of cs sid)) cs)
         | _ \<Rightarrow> raise_exc CAttributeError ''object has no attribute update'')))"

definition read_progress :: "(str \<Rightarrow> pyfloat) \<Rightarrow> str \<Rightarrow> checkpoint_store \<Rightarrow> fault + pyval option" where
  "read_progress fp sid cs =
     (if \<not> session_dir_ok sid then bad_session
      else (case dget (dir_of cs sid) progress_name of
              None \<Rightarrow> Inr None
            | Some t \<Rightarrow> bind_result (read_json fp t) (\<lambda>v. Inr (Some v))))"

section \<open>Round trip of one checkpoint\<close>

definition message_ok :: "message \<Rightarrow> bool" where
  "message_ok m \<longleftrightarrow> list_all scalar (content m) \<and> plain (msg_tool_name m) \<and> plain (tool_call_id m) \<and>
     keep_norm (msg_tool_name m) = msg_tool_name m \<and> keep_norm (tool_call_id m) = tool_call_id m"

definition state_ok :: "harness_state \<Rightarrow> bool" where
  "state_ok s \<longleftrightarrow> list_all scalar (session_id s) \<and> list_all scalar (goal s) \<and> list_all message_ok (messages s) \<and>
     plain (PDict (scratchpad s)) \<and> keep_norm (PDict (scratchpad s)) = PDict (scratchpad s)"

lemma role_of_value [simp]: "role_of (PStr (role_value r)) = Inr r"
  by (cases r) (simp_all add: role_of_def)

lemma reason_of_value [simp]: "reason_of (PStr (reason_value r)) = Inr r"
  by (cases r) (simp_all add: reason_of_def)

lemma scalar_role [simp]: "list_all scalar (role_value r)"
  by (cases r) simp_all

lemma scalar_reason [simp]: "list_all scalar (reason_value r)"
  by (cases r) simp_all

lemma message_plain: "message_ok m \<Longrightarrow> plain (message_value m)"
  by (simp add: message_ok_def message_value_def)

lemma message_keep: "message_ok m \<Longrightarrow> keep_norm (message_value m) = message_value m"
  by (simp add: message_ok_def message_value_def)

lemma message_of_value [simp]: "message_of (message_value m) = Inr m"
  by (simp add: message_of_def message_value_def bind_result_def field_def as_str_def get_or_def dget_def)

lemma messages_of_values [simp]: "map_result message_of (map message_value ms) = Inr ms"
  by (induction ms) simp_all

lemma reason_truthy [simp]: "truthy (PStr (reason_value r))"
  by (cases r) (simp_all add: truthy_def)

lemma deserialise_serialise: "deserialise (serialise s) = Inr (s\<lparr>tool_results := []\<rparr>)"
  by (cases "term_reason s")
    (simp_all add: deserialise_def serialise_def bind_result_def field_def as_str_def get_or_def dget_def
      py_iter_def as_int_def as_bool_def as_dict_def truthy_def [of PNone])

definition state_value :: "str \<Rightarrow> str \<Rightarrow> int \<Rightarrow> int \<Rightarrow> pyval \<Rightarrow> pyval \<Rightarrow> bool \<Rightarrow> pyval \<Rightarrow> pyval" where
  "state_value sid g n u ms pad b r = PDict
     [(U ''session_id'', PStr sid), (U ''goal'', PStr g), (U ''turns'', PInt n), (U ''tokens_used'', PInt u),
      (U ''messages'', ms), (U ''scratchpad'', pad), (U ''terminated'', PBool b), (U ''term_reason'', r)]"

lemma state_value_plain:
  "list_all scalar sid \<Longrightarrow> list_all scalar g \<Longrightarrow> plain ms \<Longrightarrow> plain pad \<Longrightarrow> plain r \<Longrightarrow> plain (state_value sid g n u ms pad b r)"
  by (simp add: state_value_def)

lemma serialise_value:
  "serialise s = state_value (session_id s) (goal s) (turns s) (tokens_used s) (PList (map message_value (messages s)))
     (PDict (scratchpad s)) (terminated s) (case term_reason s of None \<Rightarrow> PNone | Some r \<Rightarrow> PStr (reason_value r))"
  by (simp add: serialise_def state_value_def)

lemma serialise_plain:
  assumes "state_ok s"
  shows "plain (serialise s)" "keep_norm (serialise s) = serialise s"
proof -
  have "plain (PList (map message_value (messages s)))"
    using assms message_plain by (auto simp: state_ok_def list_all_iff simp del: plain.simps(7))
  moreover have "plain (case term_reason s of None \<Rightarrow> PNone | Some r \<Rightarrow> PStr (reason_value r))"
    by (simp split: option.split)
  ultimately show "plain (serialise s)"
    unfolding serialise_value using assms by (intro state_value_plain) (simp_all only: state_ok_def)
  have "map keep_norm (map message_value (messages s)) = map message_value (messages s)"
    using assms message_keep by (auto simp: state_ok_def list_all_iff)
  then show "keep_norm (serialise s) = serialise s"
    using assms by (simp add: state_ok_def serialise_def split: option.split)
qed

lemma checkpoint_text:
  assumes "float_io fr fp" "state_ok s"
  shows "bind_result (read_json fp (dumps_indent fr (serialise s))) deserialise = Inr (s\<lparr>tool_results := []\<rparr>)"
  using loads_indent [OF _ serialise_plain(1) [OF assms(2)], of fr fp] assms(1)
  by (simp add: read_json_def float_io_def serialise_plain(2) [OF assms(2)] bind_result_def deserialise_serialise)

section \<open>The order of checkpoints\<close>

lemma pad4:
  "pad_left c 4 [x] = [c, c, c, x]" "pad_left c 4 [y, x] = [c, c, y, x]"
  "pad_left c 4 [z, y, x] = [c, z, y, x]" "pad_left c 4 [u, z, y, x] = [u, z, y, x]"
  by (simp_all add: pad_left_def eval_nat_numeral)

lemma nat_digits_small: "n < 10 \<Longrightarrow> nat_digits n = [48 + n]"
  by (subst nat_digits.simps) simp

lemma nat_digits_large: "10 \<le> n \<Longrightarrow> nat_digits n = nat_digits (n div 10) @ [48 + n mod 10]"
  by (subst nat_digits.simps) simp

lemma pad4_digits:
  assumes "k < (10000 :: nat)"
  shows "pad_left 48 4 (nat_str k) = [48 + k div 1000, 48 + k div 100 mod 10, 48 + k div 10 mod 10, 48 + k mod 10]"
proof -
  define a b c where abc: "a = k div 10" "b = a div 10" "c = b div 10"
  have eq: "k div 100 = b" "k div 1000 = c" by (simp_all add: abc div_mult2_eq [symmetric])
  have lim: "c < 10" using assms by (simp add: eq(2) [symmetric])
  have d: "nat_digits k = (if k < 10 then [48 + k] else if a < 10 then [48 + a, 48 + k mod 10]
      else if b < 10 then [48 + b, 48 + a mod 10, 48 + k mod 10] else [48 + c, 48 + b mod 10, 48 + a mod 10, 48 + k mod 10])"
    using lim nat_digits_large [of k] nat_digits_large [of a] nat_digits_large [of b]
      nat_digits_small [of k] nat_digits_small [of a] nat_digits_small [of b] nat_digits_small [of c]
    by (simp add: abc)
  show ?thesis
  proof (cases "k < 10 \<or> a < 10 \<or> b < 10")
    case False
    then show ?thesis unfolding nat_str_def d eq abc(1) [symmetric] by (simp add: pad4)
  next
    case True
    then show ?thesis unfolding nat_str_def d eq abc(1) [symmetric]
      by (auto simp: pad4 abc)
  qed
qed

lemma digits4_less:
  assumes "m < (n :: nat)"
  shows "m div 1000 < n div 1000 \<or> m div 1000 = n div 1000 \<and> (m div 100 mod 10 < n div 100 mod 10 \<or>
     m div 100 mod 10 = n div 100 mod 10 \<and> (m div 10 mod 10 < n div 10 mod 10 \<or>
     m div 10 mod 10 = n div 10 mod 10 \<and> m mod 10 < n mod 10))"
proof -
  have step: "a div 10 < b div 10 \<or> a div 10 = b div 10 \<and> a mod 10 < b mod 10" if "a < b" for a b :: nat
  proof (cases "a div 10 = b div 10")
    case True
    then show ?thesis using that div_mult_mod_eq [of a 10] div_mult_mod_eq [of b 10] by linarith
  next
    case False
    then show ?thesis using div_le_mono [of a b 10] that by linarith
  qed
  have e: "x div 100 = x div 10 div 10" "x div 1000 = x div 10 div 10 div 10" for x :: nat
    by (simp_all add: div_mult2_eq [symmetric])
  show ?thesis
    unfolding e using step [OF assms] step [of "m div 10" "n div 10"] step [of "m div 10 div 10" "n div 10 div 10"] by auto
qed

lemma checkpoint_name_less:
  assumes "0 \<le> m" "m < n" "n < 10000"
  shows "checkpoint_name m < checkpoint_name n"
  using assms digits4_less [of "nat m" "nat n"] by (simp add: checkpoint_name_def pad4_digits)

lemma checkpoint_name_progress:
  assumes "0 \<le> n" "n < 10000"
  shows "checkpoint_name n < U ''progress.json''"
proof -
  have "nat n div 1000 < 64" using assms by linarith
  then show ?thesis using assms by (simp add: checkpoint_name_def pad4_digits U_def)
qed

lemma lexicographic_limit: "checkpoint_name 10000 < checkpoint_name 9999"
proof -
  have "nat_str 10000 = [49,48,48,48,48]" by (simp add: nat_str_def nat_digits_large nat_digits_small)
  moreover have "nat_str 9999 = [57,57,57,57]" by (simp add: nat_str_def nat_digits_large nat_digits_small)
  ultimately show ?thesis by (simp add: checkpoint_name_def pad_left_def)
qed
lemma last_sort:
  assumes "x \<in> set xs" "\<forall>y \<in> set xs. y \<le> (x :: str)"
  shows "last (sort xs) = x"
proof -
  have ne: "sort xs \<noteq> []" using assms(1) by (metis empty_iff set_empty set_sort)
  then have "last (sort xs) \<in> set xs" using last_in_set set_sort by metis
  then have 1: "last (sort xs) \<le> x" using assms(2) by blast
  have "x \<in> set (sort xs)" using assms(1) by simp
  then have "x \<le> last (sort xs)"
    using sorted_sort [of xs] ne by (metis append_butlast_last_id order_refl set_ConsD set_append Un_iff sorted_append empty_iff list.set(1) list.set_intros(1))
  with 1 show ?thesis by simp
qed
section \<open>Resuming\<close>

fun save_all :: "(pyval \<Rightarrow> str) \<Rightarrow> harness_state list \<Rightarrow> checkpoint_store \<Rightarrow> fault + checkpoint_store" where
  "save_all fr [] cs = Inr cs"
| "save_all fr (s # ss) cs = bind_result (save_checkpoint fr s cs) (save_all fr ss)"

text \<open>The directory of a session after the states \<open>ss\<close>: one file for each turn, holding the last state of it.\<close>

definition dir_names :: "harness_state list \<Rightarrow> session_dir \<Rightarrow> bool" where
  "dir_names ss d \<longleftrightarrow> set (dkeys d) = set (map (checkpoint_name \<circ> turns) ss)"

lemma save_all_spec:
  assumes "session_dir_ok sid" "\<forall>s \<in> set ss. session_id s = sid" "ss \<noteq> []"
  shows "\<exists>cs' d. save_all fr ss cs = Inr cs' \<and> dget cs' sid = Some d \<and>
     set (dkeys d) = set (dkeys (dir_of cs sid)) \<union> set (map (checkpoint_name \<circ> turns) ss) \<and>
     dget d (checkpoint_name (turns (last ss))) = Some (dumps_indent fr (serialise (last ss)))"
  using assms(2,3)
proof (induction ss arbitrary: cs)
  case (Cons s ss)
  let ?d = "dset (checkpoint_name (turns s)) (dumps_indent fr (serialise s)) (dir_of cs sid)"
  let ?cs = "dset sid ?d cs"
  have save: "save_checkpoint fr s cs = Inr ?cs" using Cons.prems assms(1) by (simp add: save_checkpoint_def)
  have dir: "dir_of ?cs sid = ?d" by (simp add: dir_of_def)
  show ?case
  proof (cases "ss = []")
    case True
    then show ?thesis by (auto simp: save bind_result_def dkeys_dset_set)
  next
    case False
    then obtain cs' d where "save_all fr ss ?cs = Inr cs'" "dget cs' sid = Some d"
        "set (dkeys d) = set (dkeys ?d) \<union> set (map (checkpoint_name \<circ> turns) ss)"
        "dget d (checkpoint_name (turns (last ss))) = Some (dumps_indent fr (serialise (last ss)))"
      using Cons.IH [of ?cs] Cons.prems dir by auto
    with False show ?thesis by (auto simp: save bind_result_def dkeys_dset_set)
  qed
qed simp

lemma json_name: "endswith (checkpoint_name n) (U ''.json'')" "endswith progress_name (U ''.json'')"
proof -
  show "endswith (checkpoint_name n) (U ''.json'')"
    unfolding checkpoint_name_def endswith_def by (rule suffixI) simp
  have "progress_name = U ''progress'' @ U ''.json''" by (simp add: progress_name_def U_def)
  then show "endswith progress_name (U ''.json'')" unfolding endswith_def by (rule suffixI)
qed

lemma checkpoint_name_le: "0 \<le> m \<Longrightarrow> m \<le> n \<Longrightarrow> n < 10000 \<Longrightarrow> checkpoint_name m \<le> checkpoint_name n"
  by (metis checkpoint_name_less less_imp_le not_less order_refl order.not_eq_order_implies_strict)

lemma load_latest_dir:
  assumes "session_dir_ok sid" "dget cs sid = Some d" "n \<in> set (dkeys d)" "endswith n (U ''.json'')"
    and "\<forall>x \<in> set (dkeys d). x \<le> n" "dget d n = Some t"
  shows "load_latest fp sid cs = bind_result (bind_result (read_json fp t) deserialise) (\<lambda>s. Inr (Some s))"
proof -
  have mem: "n \<in> set (json_files d)" using assms(3,4) by (simp add: json_files_def)
  then have "last (sort (json_files d)) = n" by (rule last_sort) (use assms(5) in \<open>auto simp: json_files_def\<close>)
  moreover have "json_files d \<noteq> []" using mem by auto
  ultimately show ?thesis using assms(1,2,6) by (auto simp: load_latest_def bind_result_def split: sum.split)
qed

lemma update_plain:
  "plain (PDict acc) \<Longrightarrow> plain (PDict xs) \<Longrightarrow> plain (PDict (foldl (\<lambda>d (k, v). dset k v d) acc xs)) \<and>
     set (dkeys (foldl (\<lambda>d (k, v). dset k v d) acc xs)) = set (dkeys acc) \<union> set (dkeys xs)"
proof (induction xs arbitrary: acc)
  case Nil
  then show ?case by (simp add: dkeys_def)
next
  case (Cons x xs)
  obtain k v where x: "x = (k, v)" by (cases x)
  have "plain (PDict (dset k v acc))" by (rule plain_dset) (use Cons.prems x in auto)
  moreover have "plain (PDict xs)" using Cons.prems(2) by simp
  moreover have "set (dkeys (x # xs)) = insert k (set (dkeys xs))" by (simp add: x dkeys_def)
  ultimately show ?case using Cons.IH [of "dset k v acc"] x by (simp add: dkeys_dset_set del: plain.simps(7))
qed

text \<open>The history of one session: its turns never decrease and stay below ten thousand.\<close>

definition session_history :: "str \<Rightarrow> harness_state list \<Rightarrow> bool" where
  "session_history sid ss \<longleftrightarrow> session_dir_ok sid \<and> ss \<noteq> [] \<and> list_all (\<lambda>s. session_id s = sid \<and> state_ok s \<and> 0 \<le> turns s \<and>
     turns s \<le> turns (last ss)) ss \<and> turns (last ss) < 10000"

lemma history_dir:
  assumes "session_history sid ss"
  shows "\<exists>cs d. save_all fr ss [] = Inr cs \<and> dget cs sid = Some d \<and> checkpoint_name (turns (last ss)) \<in> set (dkeys d) \<and>
     (\<forall>x \<in> set (dkeys d). x \<le> checkpoint_name (turns (last ss)) \<and> x < progress_name) \<and>
     dget d (checkpoint_name (turns (last ss))) = Some (dumps_indent fr (serialise (last ss)))"
proof -
  note h = assms [unfolded session_history_def list_all_iff]
  obtain cs d where sv: "save_all fr ss [] = Inr cs" "dget cs sid = Some d"
      "set (dkeys d) = set (dkeys (dir_of [] sid)) \<union> set (map (checkpoint_name \<circ> turns) ss)"
      "dget d (checkpoint_name (turns (last ss))) = Some (dumps_indent fr (serialise (last ss)))"
    using save_all_spec [of sid ss fr "[]"] h by auto
  then have keys: "set (dkeys d) = (checkpoint_name \<circ> turns) ` set ss" by (simp add: dir_of_def dkeys_def)
  have "x \<le> checkpoint_name (turns (last ss)) \<and> x < progress_name" if "x \<in> set (dkeys d)" for x
    using that h keys checkpoint_name_le checkpoint_name_progress unfolding progress_name_def by fastforce
  moreover have "checkpoint_name (turns (last ss)) \<in> set (dkeys d)" using keys h by simp
  ultimately show ?thesis using sv by blast
qed

section \<open>Properties\<close>


text \<open>Once a progress file has been written beside the checkpoints of a session, the session cannot be
  resumed: the progress file sorts behind every checkpoint, so \<^verbatim>\<open>load_latest\<close> takes it for the
  latest one and fails on the missing session id, although the checkpoints are intact.\<close>

theorem progress_blocks_resume:
  assumes "float_io fr fp" "session_history sid ss" "plain (PDict data)"
    and "dget data (U ''session_id'') = None" "dget data (U ''messages'') = None"
  shows "\<exists>cs cs'. save_all fr ss [] = Inr cs \<and> write_progress fr fp now sid data cs = Inr cs' \<and>
     load_latest fp sid cs' = raise_exc CKeyError ''session_id''"
proof -
  obtain cs d where d: "save_all fr ss [] = Inr cs" "dget cs sid = Some d"
      "\<forall>x \<in> set (dkeys d). x \<le> checkpoint_name (turns (last ss)) \<and> x < progress_name"
    using history_dir [OF assms(2)] by blast
  let ?v = "progress_data now [] data"
  let ?d = "dset progress_name (dumps_indent fr (PDict ?v)) d" and ?cs = "dset sid (dset progress_name (dumps_indent fr (PDict ?v)) d) cs"
  have sid: "session_dir_ok sid" using assms(2) by (simp add: session_history_def)
  have "progress_name \<notin> set (dkeys d)" using d(3) by blast
  then have "dget d progress_name = None" using din_dget [of progress_name d] by (auto simp: din_def dkeys_def)
  then have w: "write_progress fr fp now sid data cs = Inr ?cs"
    using sid d(2) by (simp add: write_progress_def dir_of_def bind_result_def)
  have nil: "plain (PDict [])" "set (dkeys []) = {}" by (simp_all add: dkeys_def)
  note built = update_plain [OF nil(1) assms(3), unfolded nil(2)]
  have p: "plain (PDict ?v)" unfolding progress_data_def using built by (intro plain_dset) simp_all
  have keys: "set (dkeys ?v) = insert (U ''updated_at'') (set (dkeys data))"
    using built by (simp add: progress_data_def dkeys_dset_set)
  have mem: "k \<in> set (dkeys d) \<longleftrightarrow> dget d k \<noteq> None" for k and d :: "(str, pyval) dict"
    unfolding din_dget [symmetric] by (simp add: din_def dkeys_def)
  have none: "dget ?v (U ''session_id'') = None" "dget ?v (U ''messages'') = None"
    using mem [of "U ''session_id''" ?v] mem [of "U ''session_id''" data] mem [of "U ''messages''" ?v]
      mem [of "U ''messages''" data] assms(4,5) unfolding keys by simp_all
  have read: "read_json fp (dumps_indent fr (PDict ?v)) = Inr (keep_norm (PDict ?v))"
    using loads_indent [OF _ p, of fr fp] assms(1) by (simp add: read_json_def float_io_def)
  have "deserialise (keep_norm (PDict ?v)) = raise_exc CKeyError ''session_id''"
    using none by (simp add: deserialise_def dget_def get_or_def bind_result_def field_def py_iter_def map_of_map raise_exc_def)
  moreover have "\<forall>x \<in> set (dkeys d). x \<le> progress_name" using d(3) less_imp_le by blast
  ultimately have "load_latest fp sid ?cs = raise_exc CKeyError ''session_id''"
    using load_latest_dir [OF sid _ _ json_name(2), of ?cs ?d "dumps_indent fr (PDict ?v)" fp] read
    by (auto simp: dkeys_dset_set bind_result_def raise_exc_def)
  with d(1) w show ?thesis by blast
qed

section \<open>A session of two turns\<close>

definition demo_turn :: "int \<Rightarrow> harness_state" where
  "demo_turn n = (new_state (U ''s1'') (U ''test goal''))
     \<lparr>turns := n, messages := [plain_message USER (U ''hello''),
        \<lparr>role = TOOL, content = U ''7'', msg_tool_name = PStr (U ''add''), tool_call_id = PStr (U ''1'')\<rparr>]\<rparr>"

lemma demo_history: "session_history (U ''s1'') [demo_turn 1, demo_turn 2]"
  by (simp add: session_history_def demo_turn_def new_state_def plain_message_def state_ok_def message_ok_def
      session_dir_ok_def id_char_def is_alpha_def is_digit_def U_def scalar_def)


lemma progress_blocks_resume_witness:
  "\<exists>cs cs'. save_all ratio_text [demo_turn 1, demo_turn 2] [] = Inr cs \<and>
     write_progress ratio_text ratio_read 5 (U ''s1'') [(U ''current'', PStr (U ''task2''))] cs = Inr cs' \<and>
     load_latest ratio_read (U ''s1'') cs' = raise_exc CKeyError ''session_id''"
  by (rule progress_blocks_resume [OF ratio_io demo_history]) (simp_all add: dget_def)

end
