(* ===== verification/HarnessLoop.thy ===== *)
theory HarnessLoop
  imports HarnessGuard HarnessCheckpoint
begin

text \<open>
  \<^verbatim>\<open>AegisHarness\<close> of \<^verbatim>\<open>python/ethos_aegis/harness/orchestrator.py\<close>: \<open>run_harness\<close> is the
  generator \<^verbatim>\<open>run\<close> drained to its end, \<open>turn\<close> one pass of its loop and \<open>tao\<close> the loop. What the run
  leaves behind is the \<open>world\<close>: the history of calls to the model and to tools, the state of the
  guarded object, the compaction counter, the checkpoints and the events that were yielded. The answer of
  the model depends on the whole history. The memory and the registry do not change during a run.
\<close>

section \<open>Harness and world\<close>

datatype event =
    TurnStart int
  | ToolCallsMade "(pyval \<times> pyval) list"
  | ToolResults "(pyval \<times> bool \<times> str) list"
  | FinalAnswer str
  | TerminatedBy str "int option"

record 'a harness =
  h_config :: harness_config
  h_registry :: tool_registry
  h_memory :: memory_store
  h_guard :: "'a guard option"
  h_verifier :: verification_engine
  h_env :: env
  h_complete :: "act list \<Rightarrow> str \<Rightarrow> message list \<Rightarrow> exc + pyval"  \<comment> \<open>\<^verbatim>\<open>adapter.complete\<close>\<close>
  h_mean :: "pyfloat list \<Rightarrow> pyfloat"

record 'a world =
  w_acts :: "act list"
  w_aegis :: 'a
  w_count :: nat
  w_store :: checkpoint_store
  w_events :: "event list"

definition yield_event :: "event \<Rightarrow> 'a world \<Rightarrow> 'a world" where
  "yield_event e w = w\<lparr>w_events := w_events w @ [e]\<rparr>"

definition stop :: "termination_reason \<Rightarrow> harness_state \<Rightarrow> harness_state" where
  "stop r s = s\<lparr>terminated := True, term_reason := Some r\<rparr>"

definition say :: "message list \<Rightarrow> harness_state \<Rightarrow> harness_state" where
  "say ms s = s\<lparr>messages := messages s @ ms\<rparr>"

text \<open>How a pass of the loop ends: \<^verbatim>\<open>continue\<close>, \<^verbatim>\<open>break\<close>, \<^verbatim>\<open>return\<close> or an exception.\<close>

datatype ctl = Continue | Break | Return | Fault fault

definition SYSTEM_PROMPT :: str where
  "SYSTEM_PROMPT = concat (map (\<lambda>l. l @ [10])
     [U ''You are an Ethos-Aegis AI agent operating inside a production-grade harness.'',
      U ''You have access to a set of tools. Use them to accomplish the user'' @ [39] @ U ''s goal.'',
      U ''Think carefully before acting. Verify your work after each significant step.'',
      U ''When you are done, respond with your final answer '' @ [0x2014] @ U '' do NOT call any more tools.'',
      [],
      U ''## Harness contract'',
      U ''- Tool outputs are observations, not ground truth. Always verify.'',
      U ''- You are operating with a context budget. Be concise in reasoning.'',
      U ''- If a tool fails, adapt your approach rather than retrying identically.'',
      U ''- Architectural decisions and unresolved bugs should be noted explicitly'',
      U ''  so they survive context compaction.''])"

text \<open>\<^verbatim>\<open>_extractive_summary\<close>, which the harness passes to its context manager.\<close>

definition extractive_summary :: "message list \<Rightarrow> str" where
  "extractive_summary ms =
     (let ls = map bullet_line (filter (\<lambda>m. role m = ASSISTANT) ms)
      in if ls = [] then U ''(empty)'' else join [10] ls)"

section \<open>One turn\<close>

text \<open>The final answer: output guardrail, verification, delivery.\<close>

definition correction_text :: "verification_result \<Rightarrow> str" where
  "correction_text r = U ''Your answer did not pass verification:'' @ [10] @ feedback r @ [10]
     @ U ''Please correct and try again.''"

definition finish_answer ::
  "'a harness \<Rightarrow> parsed_output \<Rightarrow> str \<Rightarrow> harness_state \<Rightarrow> 'a world \<Rightarrow> ctl \<times> harness_state \<times> 'a world" where
  "finish_answer h p answer s w =
     (let (gv, a) = check_output (h_guard h) (w_aegis w) answer; w = w\<lparr>w_aegis := a\<rparr>
      in if tripwire gv then (Return, stop GUARDRAIL s, yield_event (TerminatedBy (gv_reason gv) None) w)
         else (let vr = engine_verify (h_mean h) (h_verifier h) answer
               in if verify_outputs (h_config h) \<and> \<not> passed vr then
                    (Continue, say [plain_message ASSISTANT (raw_text p), plain_message USER (correction_text vr)] s, w)
                  else (Break, stop FINAL_ANSWER (say [plain_message ASSISTANT answer] s),
                        yield_event (FinalAnswer answer) w)))"

text \<open>The tool guardrail on every call: the reason of the first tripwire, or the calls that passed.\<close>

fun check_calls :: "'a harness \<Rightarrow> tool_call list \<Rightarrow> 'a \<Rightarrow> (str + tool_call list) \<times> 'a" where
  "check_calls h [] a = (Inr [], a)"
| "check_calls h (c # cs) a =
     (let (gv, a1) = check_tool_call (e_fr (h_env h)) (h_guard h) a c
      in if tripwire gv then (Inl (gv_reason gv), a1)
         else (case check_calls h cs a1 of
                 (Inl t, a2) \<Rightarrow> (Inl t, a2)
               | (Inr ok, a2) \<Rightarrow> (Inr (if gv_passed gv then c # ok else ok), a2)))"

definition tool_message :: "tool_result \<Rightarrow> message" where
  "tool_message r = \<lparr>role = TOOL, content = (if is_error r then U ''ERROR: '' @ tr_output r else tr_output r),
     msg_tool_name = tr_name r, tool_call_id = tr_call_id r\<rparr>"

definition run_tools ::
  "'a harness \<Rightarrow> parsed_output \<Rightarrow> harness_state \<Rightarrow> 'a world \<Rightarrow> ctl \<times> harness_state \<times> 'a world" where
  "run_tools h p s w =
     (let w = yield_event (ToolCallsMade (map (\<lambda>c. (tc_name c, tc_arguments c)) (po_calls p))) w
      in case check_calls h (po_calls p) (w_aegis w) of
           (Inl reason, a) \<Rightarrow>
             (Return, stop GUARDRAIL s, yield_event (TerminatedBy reason None) (w\<lparr>w_aegis := a\<rparr>))
         | (Inr approved_calls, a) \<Rightarrow>
             (let w = w\<lparr>w_aegis := a\<rparr>
              in case execute_batch (h_env h) (h_registry h) approved_calls (w_acts w) of
                   Inl f \<Rightarrow> (Fault f, s, w)
                 | Inr (rs, acts) \<Rightarrow>
                     (let w = yield_event (ToolResults (map (\<lambda>r. (tr_name r, is_error r, take 200 (tr_output r))) rs))
                                (w\<lparr>w_acts := acts\<rparr>);
                          s = say (plain_message ASSISTANT (raw_text p) # map tool_message rs) s
                      in case save_checkpoint (e_fr (h_env h)) s (w_store w) of
                           Inl f \<Rightarrow> (Fault f, s, w)
                         | Inr cs \<Rightarrow> (Continue, s, w\<lparr>w_store := cs\<rparr>))))"

definition act_on ::
  "'a harness \<Rightarrow> parsed_output \<Rightarrow> harness_state \<Rightarrow> 'a world \<Rightarrow> ctl \<times> harness_state \<times> 'a world" where
  "act_on h p s w =
     (if truthy (handoff_to p) then
        (Break, stop FINAL_ANSWER (s\<lparr>scratchpad := dset (U ''handoff_to'') (handoff_to p) (scratchpad s)\<rparr>), w)
      else (case final_answer p of
              Some answer \<Rightarrow> finish_answer h p answer s w
            | None \<Rightarrow> run_tools h p s w))"

text \<open>Prompt assembly, inference and parsing.\<close>

definition ask_model :: "'a harness \<Rightarrow> harness_state \<Rightarrow> 'a world \<Rightarrow> ctl \<times> harness_state \<times> 'a world" where
  "ask_model h s w =
     (let fr = e_fr (h_env h)
      in case assemble fr (h_config h) (Some extractive_summary) (w_count w) SYSTEM_PROMPT
                (schemas_for_context (h_registry h)) (index_snapshot (h_memory h)) (butlast (messages s)) of
           Inl f \<Rightarrow> (Fault f, s, w)
         | Inr (block, trimmed, n) \<Rightarrow>
             (let s = s\<lparr>tokens_used := tokens_used s + estimate_tokens block trimmed\<rparr>;
                  prompt = trimmed @ [last (messages s)];
                  answer = h_complete h (w_acts w) block prompt;
                  w = w\<lparr>w_count := n, w_acts := w_acts w @ [Asked block prompt]\<rparr>
              in case answer of
                   Inl e \<Rightarrow>
                     (if classify e = TRANSIENT \<and> turns s \<le> max_turns (h_config h) then (Continue, s, w)
                      else (Return, stop ERROR s, yield_event (TerminatedBy (exc_text e) None) w))
                 | Inr raw \<Rightarrow>
                     (case parse_output fr (e_fp (h_env h)) raw of
                        Inl f \<Rightarrow> (Fault f, s, w)
                      | Inr p \<Rightarrow> act_on h p s w)))"

definition turn :: "'a harness \<Rightarrow> harness_state \<Rightarrow> 'a world \<Rightarrow> ctl \<times> harness_state \<times> 'a world" where
  "turn h s w =
     (let s = s\<lparr>turns := turns s + 1\<rparr>; w = yield_event (TurnStart (turns s)) w
      in if max_turns (h_config h) < turns s then (Break, stop MAX_TURNS s, w)
         else if token_budget (h_config h) < tokens_used s then (Break, stop TOKEN_BUDGET s, w)
         else ask_model h s w)"

section \<open>The loop\<close>

lemma turns_say [simp]: "turns (say ms s) = turns s" "turns (stop r s) = turns s"
  by (simp_all add: say_def stop_def)

lemma act_on_turns: "turns (fst (snd (act_on h p s w))) = turns s"
  by (simp add: act_on_def finish_answer_def run_tools_def Let_def case_prod_unfold split: option.split sum.split prod.split)

lemma ask_turns: "turns (fst (snd (ask_model h s w))) = turns s"
  by (simp add: ask_model_def Let_def act_on_turns split: sum.split prod.split)

lemma turn_turns: "turns (fst (snd (turn h s w))) = turns s + 1"
  by (simp add: turn_def Let_def ask_turns)

lemma turn_continue: "fst (turn h s w) = Continue \<Longrightarrow> turns s < max_turns (h_config h)"
  by (auto simp: turn_def Let_def split: if_splits)

text \<open>After the loop: the last checkpoint and the closing event.\<close>

definition finish :: "'a harness \<Rightarrow> harness_state \<Rightarrow> 'a world \<Rightarrow> fault option \<times> harness_state \<times> 'a world" where
  "finish h s w =
     (case save_checkpoint (e_fr (h_env h)) s (w_store w) of
        Inl f \<Rightarrow> (Some f, s, w)
      | Inr cs \<Rightarrow>
          (None, s, yield_event (TerminatedBy (case term_reason s of Some r \<Rightarrow> reason_value r | None \<Rightarrow> U ''unknown'')
             (Some (turns s))) (w\<lparr>w_store := cs\<rparr>)))"

function tao :: "'a harness \<Rightarrow> harness_state \<Rightarrow> 'a world \<Rightarrow> fault option \<times> harness_state \<times> 'a world" where
  "tao h s w =
     (if terminated s then finish h s w
      else (case turn h s w of
              (Continue, s', w') \<Rightarrow> tao h s' w'
            | (Break, s', w') \<Rightarrow> finish h s' w'
            | (Return, s', w') \<Rightarrow> (None, s', w')
            | (Fault f, s', w') \<Rightarrow> (Some f, s', w')))"
  by pat_completeness auto
termination
proof (relation "measure (\<lambda>(h, s, w). nat (max_turns (h_config h) - turns s))")
  show "((h, s', w'), h, s, w) \<in> measure (\<lambda>(h, s, w). nat (max_turns (h_config h) - turns s))"
    if "(c, y) = turn h s w" "c = Continue" "(s', w') = y" for h :: "'a harness" and s w c y s' w'
  proof -
    have "turn h s w = (Continue, s', w')" using that by simp
    then show ?thesis using turn_turns [of h s w] turn_continue [of h s w] by simp
  qed
qed simp

declare tao.simps [simp del]

section \<open>A run\<close>

definition start_state :: "'a harness \<Rightarrow> str \<Rightarrow> str \<Rightarrow> checkpoint_store \<Rightarrow> fault + harness_state" where
  "start_state h sid g cs =
     (case load_latest (e_fp (h_env h)) sid cs of
        Inl f \<Rightarrow> Inl f
      | Inr None \<Rightarrow> Inr (new_state sid g)
      | Inr (Some s) \<Rightarrow> Inr (if terminated s then new_state sid g else s))"

definition run_harness ::
  "'a harness \<Rightarrow> str \<Rightarrow> str \<Rightarrow> 'a world \<Rightarrow> fault option \<times> harness_state \<times> 'a world" where
  "run_harness h sid g w =
     (case start_state h sid g (w_store w) of
        Inl f \<Rightarrow> (Some f, new_state sid g, w)
      | Inr s \<Rightarrow>
          (let (gv, a) = check_input (h_guard h) (w_aegis w) g; w = w\<lparr>w_aegis := a\<rparr>
           in if tripwire gv then (None, stop GUARDRAIL s, yield_event (TerminatedBy (gv_reason gv) None) w)
              else tao h (say [plain_message USER g] s) w))"

text \<open>
  \<^verbatim>\<open>spawn_subagent\<close>: a harness of its own with the adapter and the registry of the parent, but
  without its guarded object, its verifiers, its memory and its approval callback. Its checkpoints
  lie in another directory, so it starts from the store it is given and its own events.
\<close>

definition sub_harness :: "'a harness \<Rightarrow> int \<Rightarrow> 'a harness" where
  "sub_harness h n =
     h\<lparr>h_config := default_config\<lparr>max_turns := n, verify_outputs := False,
           token_budget := token_budget (h_config h) div 4\<rparr>,
       h_memory := empty_memory None, h_guard := None, h_verifier := \<lparr>rules = [], judges = []\<rparr>,
       h_env := (h_env h)\<lparr>e_approve := None\<rparr>\<rparr>"

fun first_answer :: "event list \<Rightarrow> str" where
  "first_answer [] = []"
| "first_answer (FinalAnswer t # es) = t"
| "first_answer (e # es) = first_answer es"

definition condense :: "int \<Rightarrow> str \<Rightarrow> str" where
  "condense limit t =
     (if limit < int (length t) then
        take (if 0 \<le> limit then nat limit else length t - nat (- limit)) t @ [10, 0x2026] @ U ''[truncated, ''
          @ nat_str (length t) @ U '' chars total]''
      else t)"

definition spawn_subagent ::
  "'a harness \<Rightarrow> str \<Rightarrow> checkpoint_store \<Rightarrow> str \<Rightarrow> int \<Rightarrow> int \<Rightarrow> 'a world \<Rightarrow> (fault + str) \<times> 'a world" where
  "spawn_subagent h sid sub_store g n limit w =
     (case run_harness (sub_harness h n) sid g (w\<lparr>w_count := 0, w_store := sub_store, w_events := []\<rparr>) of
        (Some f, _, w') \<Rightarrow> (Inl f, w\<lparr>w_acts := w_acts w'\<rparr>)
      | (None, _, w') \<Rightarrow> (Inr (condense limit (first_answer (w_events w'))), w\<lparr>w_acts := w_acts w'\<rparr>))"

end
