(* ===== verification/HarnessInvariants.thy ===== *)
theory HarnessInvariants
  imports HarnessLoop
begin

text \<open>
  Invariants of the harness loop: an induction principle for \<open>tao\<close>, the bound on calls to the model,
  and, for any guarded object that keeps the contract \<open>guard_law\<close>, the record of every tool run as one
  that was registered, approved and cleared.
\<close>

section \<open>An induction principle\<close>

abbreviation st :: "'c \<times> harness_state \<times> 'a world \<Rightarrow> harness_state" where
  "st x \<equiv> fst (snd x)"

abbreviation wd :: "'c \<times> harness_state \<times> 'a world \<Rightarrow> 'a world" where
  "wd x \<equiv> snd (snd x)"

lemma yield_fields [simp]:
  "w_acts (yield_event e w) = w_acts w" "w_aegis (yield_event e w) = w_aegis w"
  "w_count (yield_event e w) = w_count w" "w_store (yield_event e w) = w_store w"
  "w_events (yield_event e w) = w_events w @ [e]"
  by (simp_all add: yield_event_def)

lemma finish_world [simp]:
  "st (finish h s w) = s" "w_acts (wd (finish h s w)) = w_acts w" "w_aegis (wd (finish h s w)) = w_aegis w"
  by (simp_all add: finish_def split: sum.split)

text \<open>What holds of state and world before a turn, is kept by every turn and by the end of the run,
  holds after the run.\<close>

lemma tao_invariant:
  assumes step: "\<And>s w. J s w \<Longrightarrow> J (st (turn h s w)) (wd (turn h s w))"
    and fin: "\<And>s w. J s w \<Longrightarrow> J (st (finish h s w)) (wd (finish h s w))"
  shows "J s w \<Longrightarrow> J (st (tao h s w)) (wd (tao h s w))"
proof (induction "nat (max_turns (h_config h) - turns s)" arbitrary: s w rule: less_induct)
  case less
  obtain c s' w' where t: "turn h s w = (c, s', w')" by (cases "turn h s w") auto
  then have j: "J s' w'" using step [OF less.prems] by simp
  show ?case
  proof (cases "terminated s")
    case True
    then show ?thesis using fin [OF less.prems] by (subst (1 2) tao.simps) simp
  next
    case False
    show ?thesis
    proof (cases c)
      case Continue
      then have "nat (max_turns (h_config h) - turns s') < nat (max_turns (h_config h) - turns s)"
        using turn_turns [of h s w] turn_continue [of h s w] t by simp
      from less.hyps [OF this j] show ?thesis using False t Continue by (subst (1 2) tao.simps) simp
    next
      case Break
      then show ?thesis using fin [OF j] False t by (subst (1 2) tao.simps) simp
    next
      case Return
      then show ?thesis using j False t by (subst (1 2) tao.simps) simp
    next
      case (Fault f)
      then show ?thesis using j False t by (subst (1 2) tao.simps) simp
    qed
  qed
qed

section \<open>Calls to the model\<close>

fun is_asked :: "act \<Rightarrow> bool" where
  "is_asked (Asked _ _) = True"
| "is_asked (Ran _ _) = False"

definition asked :: "act list \<Rightarrow> nat" where
  "asked acts = length (filter is_asked acts)"

lemma asked_append [simp]: "asked (x @ y) = asked x + asked y"
  by (simp add: asked_def)

lemma asked_runs [simp]: "asked (replicate n (Ran k a)) = 0"
  by (simp add: asked_def filter_empty_conv)

lemma asked_one: "asked (snd (execute_one v r c acts)) = asked acts"
proof -
  obtain n where "snd (execute_one v r c acts) = acts @ replicate n (Ran (case tc_name c of PStr s \<Rightarrow> s | _ \<Rightarrow> []) (tc_arguments c))"
    using execute_one_spec by blast
  then show ?thesis by simp
qed

lemma asked_all: "asked (snd (execute_all v r cs acts)) = asked acts"
  by (induction cs arbitrary: acts) (simp_all add: case_prod_unfold Let_def asked_one)

lemma asked_batch: "execute_batch v r cs acts = Inr (rs, acts') \<Longrightarrow> asked acts' = asked acts"
  by (metis asked_all execute_batch_eq Inl_Inr_False raise_exc_def snd_conv sum.inject(2))

lemma asked_act_on: "asked (w_acts (wd (act_on h p s w))) = asked (w_acts w)"
  by (auto simp: act_on_def finish_answer_def run_tools_def Let_def case_prod_unfold asked_batch
      split: option.split sum.split prod.split)

lemma asked_model: "asked (w_acts (wd (ask_model h s w))) \<le> asked (w_acts w) + 1"
  by (auto simp: ask_model_def Let_def asked_act_on asked_def [of "[_]"] split: sum.split prod.split)

lemma asked_turn:
  "asked (w_acts (wd (turn h s w))) + nat (max_turns (h_config h) - turns (st (turn h s w)))
     \<le> asked (w_acts w) + nat (max_turns (h_config h) - turns s)"
proof (cases "max_turns (h_config h) < turns s + 1 \<or> token_budget (h_config h) < tokens_used s")
  case True
  then show ?thesis by (auto simp: turn_def Let_def)
next
  case False
  let ?s = "s\<lparr>turns := turns s + 1\<rparr>" and ?w = "yield_event (TurnStart (turns s + 1)) w"
  have "turn h s w = ask_model h ?s ?w" using False by (simp add: turn_def Let_def)
  moreover have "asked (w_acts (wd (ask_model h ?s ?w))) \<le> asked (w_acts w) + 1" using asked_model [of h ?s ?w] by simp
  moreover have "turns (st (ask_model h ?s ?w)) = turns s + 1" by (simp add: ask_turns)
  ultimately show ?thesis using False by auto
qed

lemma turns_turn: "turns (st (turn h s w)) = turns s + 1"
  by (rule turn_turns)

lemma tao_bound:
  "asked (w_acts (wd (tao h s w))) + nat (max_turns (h_config h) - turns (st (tao h s w)))
     \<le> asked (w_acts w) + nat (max_turns (h_config h) - turns s)"
  by (rule tao_invariant [where J = "\<lambda>s' w'. asked (w_acts w') + nat (max_turns (h_config h) - turns s')
        \<le> asked (w_acts w) + nat (max_turns (h_config h) - turns s)"])
    (use asked_turn le_trans in \<open>blast, simp_all\<close>)

section \<open>Tool runs\<close>

text \<open>Entry \<open>i\<close> of the history, if it is a tool run, is one of a registered tool, with approval given
  before if the risk asks for it, on arguments that are not dangerous.\<close>

definition vetted :: "env \<Rightarrow> tool_registry \<Rightarrow> (str \<Rightarrow> bool) \<Rightarrow> act list \<Rightarrow> nat \<Rightarrow> bool" where
  "vetted v r danger acts i \<longleftrightarrow> (\<forall>name args. acts ! i = Ran name args \<longrightarrow>
     \<not> danger (dumps_flat (e_fr v) args) \<and>
     (\<exists>s. dget (schemas r) name = Some s \<and>
        (needs_approval r s \<longrightarrow> (\<exists>c h0. prefix h0 (take i acts) \<and> tc_name c = PStr name \<and>
           tc_arguments c = args \<and> approved v h0 c))))"

definition vetted_from :: "env \<Rightarrow> tool_registry \<Rightarrow> (str \<Rightarrow> bool) \<Rightarrow> act list \<Rightarrow> act list \<Rightarrow> bool" where
  "vetted_from v r danger base acts \<longleftrightarrow> prefix base acts \<and> (\<forall>i. length base \<le> i \<and> i < length acts \<longrightarrow> vetted v r danger acts i)"

lemma vetted_refl: "vetted_from v r danger base base"
  by (auto simp: vetted_from_def)

lemma vetted_prefix:
  assumes "prefix acts acts'" "i < length acts" "vetted v r danger acts i"
  shows "vetted v r danger acts' i"
proof -
  obtain x where "acts' = acts @ x" using assms(1) by (auto elim: prefixE)
  then show ?thesis using assms(2,3) by (simp add: vetted_def nth_append)
qed

lemma vetted_trans:
  assumes "vetted_from v r danger base acts" "vetted_from v r danger acts acts'"
  shows "vetted_from v r danger base acts'"
proof -
  have "vetted v r danger acts' i" if "length base \<le> i" "i < length acts'" for i
  proof (cases "i < length acts")
    case True
    then show ?thesis using assms that vetted_prefix by (auto simp: vetted_from_def)
  next
    case False
    then show ?thesis using assms(2) that by (simp add: vetted_from_def)
  qed
  then show ?thesis using assms by (auto simp: vetted_from_def intro: prefix_order.trans)
qed

lemma vetted_asked: "vetted_from v r danger acts (acts @ [Asked b m])"
  by (auto simp: vetted_from_def vetted_def nth_append)

lemma vetted_batch:
  assumes "fair_sched v" "execute_batch v r cs acts = Inr (rs, acts')"
    and "\<And>c. c \<in> set cs \<Longrightarrow> \<not> danger (dumps_flat (e_fr v) (tc_arguments c))"
  shows "vetted_from v r danger acts acts'"
proof -
  have l: "lawful v r cs acts acts'" by (rule lawful_batch(1) [OF assms(1,2)])
  have "vetted v r danger acts' i" if i: "length acts \<le> i" "i < length acts'" for i
    unfolding vetted_def
  proof (intro allI impI conjI)
    fix name args assume ran: "acts' ! i = Ran name args"
    then obtain c h0 where c: "c \<in> set cs" "tc_name c = PStr name" "tc_arguments c = args"
        "prefix h0 (take i acts')" "may_run v r c h0"
      using l i unfolding lawful_def allowed_run_def by metis
    show "\<not> danger (dumps_flat (e_fr v) args)" using assms(3) [OF c(1)] c(3) by simp
    show "\<exists>s. dget (schemas r) name = Some s \<and> (needs_approval r s \<longrightarrow> (\<exists>c h0. prefix h0 (take i acts') \<and>
        tc_name c = PStr name \<and> tc_arguments c = args \<and> approved v h0 c))"
      using c by (auto simp: may_run_def schema_of_def)
  qed
  then show ?thesis using l by (simp add: vetted_from_def lawful_def)
qed

context guard_law begin

lemma check_calls_safe:
  assumes "h_guard h = Some call"
  shows "inv a \<Longrightarrow> inv (snd (check_calls h cs a)) \<and> (\<forall>ok. fst (check_calls h cs a) = Inr ok \<longrightarrow>
     (\<forall>c \<in> set ok. \<not> danger (dumps_flat (e_fr (h_env h)) (tc_arguments c))))"
proof (induction cs arbitrary: a)
  case (Cons c cs)
  let ?t = "dumps_flat (e_fr (h_env h)) (tc_arguments c)"
  obtain gv a1 where g: "check_tool_call (e_fr (h_env h)) (h_guard h) a c = (gv, a1)" by fastforce
  then have i1: "inv a1" and d: "danger ?t \<Longrightarrow> \<not> gv_passed gv"
    using run_inv [OF Cons.prems] danger_blocked [OF Cons.prems] assms unfolding check_tool_call_def
    by (metis snd_conv, metis fst_conv)
  obtain r a2 where r: "check_calls h cs a1 = (r, a2)" by fastforce
  show ?case using Cons.IH [OF i1] i1 d g r by (cases r) auto
qed simp

definition harness_inv :: "'a harness \<Rightarrow> act list \<Rightarrow> 'a world \<Rightarrow> bool" where
  "harness_inv h base w \<longleftrightarrow> inv (w_aegis w) \<and> vetted_from (h_env h) (h_registry h) danger base (w_acts w)"

lemma harness_inv_act_on:
  assumes "h_guard h = Some call" "fair_sched (h_env h)" "harness_inv h base w"
  shows "harness_inv h base (wd (act_on h p s w))"
proof -
  note w = assms(3) [unfolded harness_inv_def]
  have answer: "harness_inv h base (wd (finish_answer h p t s w))" for t
    using run_inv w by (simp add: harness_inv_def finish_answer_def check_output_def assms(1) Let_def case_prod_unfold)
  have tools: "harness_inv h base (wd (run_tools h p s w))"
  proof (cases "check_calls h (po_calls p) (w_aegis w)")
    case (Pair r a)
    then have a: "inv a" "\<And>ok. r = Inr ok \<Longrightarrow> \<forall>c \<in> set ok. \<not> danger (dumps_flat (e_fr (h_env h)) (tc_arguments c))"
      using check_calls_safe [OF assms(1)] w by (metis snd_conv, metis fst_conv)
    show ?thesis
    proof (cases r)
      case (Inl t)
      then show ?thesis using Pair a w by (simp add: harness_inv_def run_tools_def Let_def)
    next
      case (Inr ok)
      have "vetted_from (h_env h) (h_registry h) danger base acts'"
        if "execute_batch (h_env h) (h_registry h) ok (w_acts w) = Inr (rs, acts')" for rs acts'
        using vetted_trans [OF _ vetted_batch [OF assms(2) that]] w a(2) [OF Inr] by blast
      then show ?thesis using Pair a(1) Inr w
        by (auto simp: harness_inv_def run_tools_def Let_def split: sum.split prod.split)
    qed
  qed
  show ?thesis using answer tools assms(3) by (simp add: act_on_def split: option.split)
qed

lemma harness_inv_turn:
  assumes "h_guard h = Some call" "fair_sched (h_env h)" "harness_inv h base w"
  shows "harness_inv h base (wd (turn h s w))"
proof -
  have ask: "harness_inv h base (w'\<lparr>w_count := n, w_acts := w_acts w' @ [Asked b m]\<rparr>)" if "harness_inv h base w'" for w' n b m
    using that vetted_trans vetted_asked by (auto simp: harness_inv_def)
  have y: "harness_inv h base (yield_event e w') = harness_inv h base w'" for e w' by (simp add: harness_inv_def)
  have "harness_inv h base (wd (ask_model h s' w'))" if "harness_inv h base w'" for s' w'
    using that ask [OF that] harness_inv_act_on [OF assms(1,2)]
    by (auto simp: ask_model_def Let_def y split: sum.split prod.split)
  then show ?thesis using assms(3) by (simp add: turn_def Let_def y)
qed

lemma harness_inv_tao:
  assumes "h_guard h = Some call" "fair_sched (h_env h)" "harness_inv h base w"
  shows "harness_inv h base (wd (tao h s w))"
  by (rule tao_invariant [where J = "\<lambda>s w. harness_inv h base w", OF harness_inv_turn [OF assms(1,2)] _ assms(3)])
    (simp_all add: harness_inv_def)

lemma harness_inv_run:
  assumes "h_guard h = Some call" "fair_sched (h_env h)" "inv (w_aegis w)"
  shows "harness_inv h (w_acts w) (wd (run_harness h sid g w))"
proof -
  have base: "harness_inv h (w_acts w) w" using assms(3) by (simp add: harness_inv_def vetted_refl)
  have "inv (snd (check_input (h_guard h) (w_aegis w) g))" using run_inv [OF assms(3)] by (simp add: check_input_def assms(1))
  then have "harness_inv h (w_acts w) (w\<lparr>w_aegis := snd (check_input (h_guard h) (w_aegis w) g)\<rparr>)"
    using base by (simp add: harness_inv_def)
  then show ?thesis using base harness_inv_tao [OF assms(1,2)]
    by (auto simp: run_harness_def Let_def case_prod_unfold harness_inv_def split: sum.split)
qed

end

end
