(* ===== verification/HarnessSafety.thy ===== *)
theory HarnessSafety
  imports HarnessInvariants AegisSession
begin

text \<open>
  What a run of the harness guarantees when the immune core guards it: it ends within its turn limit,
  every tool run was registered, approved where its risk asks for it and cleared, and what the
  output guardrail and the verifiers let through.
\<close>

section \<open>The immune core keeps the contract of a guardrail\<close>

lemma aegis_call_verdict: "fst (aegis_call sha now el a t) = Inr (fst (adjudicate sha now el a t None))"
  by (simp add: aegis_call_def Let_def case_prod_unfold)

lemma aegis_call_state: "snd (aegis_call sha now el a t) = fst (snd (adjudicate sha now el a t None))"
  by (simp add: aegis_call_def Let_def case_prod_unfold)

interpretation core: guard_law "aegis_call sha now el" aegis_inv harmful for sha now el
proof
  show "aegis_inv a \<Longrightarrow> aegis_inv (snd (aegis_call sha now el a t))" for a t
    by (simp add: aegis_call_state aegis_inv_adjudicate)
  show "aegis_inv a \<Longrightarrow> harmful t \<Longrightarrow>
      \<exists>v. fst (aegis_call sha now el a t) = Inr v \<and> GRAVE \<le> sovereignty_depth v" for a t
    by (simp add: aegis_call_verdict harmful_grave)
qed

section \<open>A harness that can be evaluated\<close>

definition demo_schema :: tool_schema where
  "demo_schema = \<lparr>ts_name = U ''rm'', ts_description = U ''remove'', ts_parameters = PDict [],
     readonly = False, risk_level = U ''high''\<rparr>"

definition demo_env :: env where
  "demo_env = \<lparr>e_invoke = (\<lambda>h name args. Inr (PStr (U ''done''))), e_approve = None, e_sched = (\<lambda>h cs. cs),
     e_fr = ratio_text, e_fp = ratio_read\<rparr>"

text \<open>A model that asks for one call of the high-risk tool in every turn.\<close>

definition demo_harness :: "pyval \<Rightarrow> aegis harness" where
  "demo_harness reply = \<lparr>h_config = default_config,
     h_registry = \<lparr>config = default_config, schemas = [(U ''rm'', demo_schema)]\<rparr>,
     h_memory = empty_memory None, h_guard = Some (aegis_call (\<lambda>_. []) [] 0),
     h_verifier = \<lparr>rules = [], judges = []\<rparr>, h_env = demo_env,
     h_complete = (\<lambda>h b ms. Inr reply), h_mean = (\<lambda>xs. 1)\<rparr>"

definition demo_world :: "aegis world" where
  "demo_world = \<lparr>w_acts = [], w_aegis = new_aegis, w_count = 0, w_store = [], w_events = []\<rparr>"

lemma demo_fair: "fair_sched demo_env"
  by (simp add: fair_sched_def demo_env_def)

section \<open>Properties\<close>

text \<open>C25: In a run that the immune core guards, whatever the model answers and whatever the tools do, every
  tool that is executed is registered, was approved by the callback if its risk level needs approval, and got
  arguments whose JSON text is not one that the core knows to be harmful.\<close>

theorem no_harmful_tool_run:
  assumes "h_guard h = Some (aegis_call sha now el)" "fair_sched (h_env h)" "aegis_inv (w_aegis w)"
  shows "vetted_from (h_env h) (h_registry h) harmful (w_acts w) (w_acts (snd (snd (run_harness h sid g w))))"
  using core.harness_inv_run [OF assms, of sid g] by (simp add: core.harness_inv_def)

lemma no_harmful_tool_run_witness:
  "vetted_from demo_env (h_registry (demo_harness (PStr []))) harmful []
     (w_acts (snd (snd (run_harness (demo_harness (PStr [])) (U ''s1'') (U ''clean up'') demo_world))))"
  using no_harmful_tool_run [of "demo_harness (PStr [])" "\<lambda>_. []" "[]" 0 demo_world "U ''s1''" "U ''clean up''"]
  by (simp add: demo_harness_def demo_fair demo_world_def aegis_inv_new)

text \<open>C26: The loop of the harness ends for every model, tool, guardrail and configuration: from any
  state it asks the model at most once for each turn that is left, so never more often than the turn limit.\<close>

theorem model_calls_bounded:
  "asked (w_acts (snd (snd (run_harness h sid g w)))) \<le> asked (w_acts w) +
     (case start_state h sid g (w_store w) of Inl _ \<Rightarrow> 0 | Inr s \<Rightarrow> nat (max_turns (h_config h) - turns s))"
proof -
  have "asked (w_acts (snd (snd (tao h (say ms s) w')))) \<le> asked (w_acts w') + nat (max_turns (h_config h) - turns s)" for ms s w'
    using tao_bound [of h "say ms s" w'] by simp
  then show ?thesis
    by (simp add: run_harness_def Let_def case_prod_unfold split: sum.split) (metis select_convs(1) surjective update_convs(2))
qed


definition grave_verdict :: aegis_verdict where
  "grave_verdict = \<lparr>is_sanctified = False, is_condemned = False, sovereignty_depth = GRAVE, maligna_found = [],
     purified_payload = None, axiological_report = [], sentinel_chronicle = [], adjudication_time = 0\<rparr>"


text \<open>The verification engine accepts an answer exactly if every verifier accepts it or rejects it with
  a score of 0.4 or more; otherwise it returns the first rejection below that score. A verifier that rejects
  with a middling score is therefore overruled, and counted among those that passed.\<close>

theorem verify_accepts_iff:
  "(passed (engine_verify mean e t) \<longleftrightarrow> list_all (\<lambda>f. passed (f t) \<or> fl (4/10) \<le> score (f t)) (rules e @ judges e)) \<and>
   (passed (engine_verify mean e t) \<or> find short_circuits (map (\<lambda>f. f t) (rules e @ judges e)) = Some (engine_verify mean e t))"
proof -
  have none: "find short_circuits rs = None \<longleftrightarrow> (\<forall>r \<in> set rs. passed r \<or> fl (4/10) \<le> score r)" for rs
    by (auto simp: find_None_iff short_circuits_def not_less)
  show ?thesis
    using none [of "map (\<lambda>f. f t) (rules e @ judges e)"] find_short
    by (auto simp: verify_find Let_def list_all_iff split: option.splits)
qed

end
