(* ===== verification/HarnessReact.thy ===== *)
theory HarnessReact
  imports HarnessContext
begin

text \<open>
  Properties of the harness front end: what the parser hands to the loop, the round trip of a ReAct action
  through the text parser, and what compaction keeps of a history.
\<close>

section \<open>The parser\<close>

lemma parse_native_actionable:
  "parse_native fp d = Inr p \<Longrightarrow> (final_answer p = None) = (po_calls p \<noteq> [] \<or> truthy (handoff_to p))"
  by (auto simp: parse_native_def raise_exc_def Let_def split: option.splits pyval.splits sum.splits if_splits)

lemma parse_react_actionable:
  "(final_answer (parse_react fp t) = None) = (po_calls (parse_react fp t) \<noteq> [])" "handoff_to (parse_react fp t) = PNone"
  by (simp_all add: parse_react_def Let_def)

text \<open>Whatever a model returns, if it can be parsed at all the loop has something to do with it: there is
  a final answer exactly if there is no tool call and no hand-off, and a text that announces a final answer
  never runs a tool, whatever else it holds.\<close>

theorem parse_actionable:
  assumes "parse_output fr fp raw = Inr p"
  shows "(final_answer p = None) = (po_calls p \<noteq> [] \<or> truthy (handoff_to p)) \<and>
    (str_entries raw = None \<and> search_first final_at (py_str fr raw) \<noteq> None \<longrightarrow> po_calls p = [] \<and> final_answer p \<noteq> None)"
proof -
  have t: "(final_answer p = None) = (po_calls p \<noteq> [] \<or> truthy (handoff_to p)) \<and>
      (search_first final_at t \<noteq> None \<longrightarrow> po_calls p = [] \<and> final_answer p \<noteq> None)" if "parse_text fp t = Inr p" for t
    using that parse_native_actionable parse_react_actionable [of fp t]
    by (auto simp: parse_text_def truthy_def [of PNone] split: option.splits pyval.splits if_splits)
  show ?thesis
    using assms t [of "py_str fr raw"] parse_native_actionable by (auto simp: parse_output_def split: option.splits)
qed

definition demo_reply :: parsed_output where
  "demo_reply = \<lparr>po_calls = [], final_answer = Some (U ''done''), raw_text = U ''done'', handoff_to = PNone\<rparr>"

lemma demo_parsed: "parse_output ratio_text ratio_read (PDict [(U ''content'', PStr (U ''done''))]) = Inr demo_reply"
  by (simp add: parse_output_def str_entries_def parse_native_def dget_def py_iter_def truthy_def demo_reply_def)

lemma parse_actionable_witness:
  "(final_answer demo_reply = None) = (po_calls demo_reply \<noteq> [] \<or> truthy (handoff_to demo_reply))"
  using parse_actionable [OF demo_parsed] by (rule conjunct1)

section \<open>A ReAct action\<close>

definition react_text :: "(pyval \<Rightarrow> str) \<Rightarrow> str \<Rightarrow> (str, pyval) dict \<Rightarrow> str" where
  "react_text fr name args =
     U ''Action: '' @ name @ [10] @ U ''Action Input: '' @ dumps_flat fr (PDict args)"

lemma eat_ci_self: "eat_ci (U lit) (q, U lit @ r) = Some (if lit = [] then q else Some (last (U lit)), r)"
proof -
  have v: "c \<in> set (ci_variants c)" for c by (simp add: ci_variants_def)
  have "eat_ci l (q, l @ r) = Some (if l = [] then q else Some (last l), r)" for l
    by (induction l arbitrary: q) (auto simp: v)
  then show ?thesis by simp
qed

lemma after_ci_self: "after_ci (U lit) (U lit @ r) = Some r"
  by (simp add: after_ci_def eat_ci_self)

lemma takeWhile_word: "list_all P name \<Longrightarrow> \<not> P c \<Longrightarrow> takeWhile P (name @ c # r) = name"
  "list_all P name \<Longrightarrow> \<not> P c \<Longrightarrow> dropWhile P (name @ c # r) = c # r"
  by (induction name) auto

lemma until_no_newline:
  assumes "10 \<notin> set s"
  shows "until_observation acc s = (rev acc @ s, [])"
  using assms by (induction acc s rule: until_observation.induct) (auto simp: after_ci_def ci_variants_def)

lemma word_not_space: "is_word c \<Longrightarrow> \<not> is_space c"
  by (auto simp: is_word_def is_space_def in_ranges_def word_ranges_def)

lemma action_at_react:
  assumes "name \<noteq> []" "list_all is_word name" "10 \<notin> set (c # x)" "\<not> is_space c"
  shows "action_at (U ''Action: '' @ name @ [10] @ U ''Action Input: '' @ c # x) = Some (name, c # x, [])"
proof -
  obtain a as where n: "name = a # as" using assms(1) by (cases name) auto
  then have a: "\<not> is_space a" using assms(2) word_not_space by simp
  let ?tail = "[10] @ U ''Action Input: '' @ c # x"
  have 1: "after_ci (U ''Action:'') (U ''Action: '' @ name @ ?tail) = Some (32 # name @ ?tail)"
    using after_ci_self [of "''Action:''" "32 # name @ ?tail"] by (simp add: U_def)
  have 2: "lstrip (32 # name @ ?tail) = name @ ?tail" using a n by (simp add: lstrip_def is_space_def [of 32])
  have nw: "\<not> is_word 10" by (simp add: is_word_def)
  have 3: "takeWhile is_word (name @ ?tail) = name" "dropWhile is_word (name @ ?tail) = ?tail"
    using takeWhile_word [OF assms(2) nw] by simp_all
  have 4: "takeWhile is_space ?tail = [10]" "lstrip ?tail = U ''Action Input: '' @ c # x"
    by (simp_all add: lstrip_def U_def is_space_def)
  have 5: "after_ci (U ''Action Input:'') (U ''Action Input: '' @ c # x) = Some (32 # c # x)"
    using after_ci_self [of "''Action Input:''" "32 # c # x"] by (simp add: U_def)
  have 6: "skip_then_some (32 # c # x) = Some (c # x)"
    using assms(4) by (simp add: skip_then_some_def lstrip_def is_space_def [of 32])
  have 7: "until_observation [] (c # x) = (c # x, [])" using until_no_newline [OF assms(3), of "[]"] by simp
  show ?thesis unfolding action_at_def by (simp only: 1 2 3 4 5 6 7 Let_def option.case prod.case) (simp add: n)
qed

text \<open>A ReAct action written in the format that the parser documents comes back as one tool call with the
  name and the arguments that were written, unless the text also holds a final answer or a JSON block.\<close>

theorem react_roundtrip:
  assumes "float_io fr fp" "name \<noteq> []" "list_all is_word name" "plain (PDict args)"
    and "search_first final_at (react_text fr name args) = None"
    and "search_first json_block_at (react_text fr name args) = None"
  shows "parse_output fr fp (PStr (react_text fr name args)) =
    Inr \<lparr>po_calls = [\<lparr>tc_id = PStr (U ''react_0''), tc_name = PStr name, tc_arguments = keep_norm (PDict args)\<rparr>],
         final_answer = None, raw_text = react_text fr name args, handoff_to = PNone\<rparr>"
proof -
  let ?t = "react_text fr name args" and ?j = "dumps_flat fr (PDict args)"
  obtain x where x: "?j = 123 # x @ [125]" by (cases "args = []") (auto simp: dumps_flat_def)
  have nl: "10 \<notin> set ?j" using flat_one_line [OF _ assms(4), of fr 10] assms(1) by (auto simp: float_io_def)
  have "action_at ?t = Some (name, ?j, [])"
    unfolding react_text_def x using action_at_react [OF assms(2,3), of 123 "x @ [125]"] nl x by (simp add: is_space_def)
  moreover obtain c cs where t: "?t = c # cs" by (cases ?t) (auto simp: react_text_def)
  ultimately have first: "search_first action_at ?t = Some (name, ?j, [])" by simp
  have none: "actions [] = []" by (simp add: actions.simps [of "[]"] action_at_def after_ci_def U_def)
  have acts: "actions ?t = [(name, ?j)]" by (simp add: actions.simps [of ?t] first none) (simp add: t)
  have strips: "strip ?j = ?j" "strip name = name"
    using strip_id [OF x] strip_no_space [of name] assms(3) word_not_space by (auto simp: is_space_def [of 123] is_space_def [of 125] list_all_iff)
  have "parse_react fp ?t = \<lparr>po_calls = [\<lparr>tc_id = PStr (U ''react_0''), tc_name = PStr name, tc_arguments = keep_norm (PDict args)\<rparr>],
         final_answer = None, raw_text = ?t, handoff_to = PNone\<rparr>"
    using loads_flat [OF _ assms(4), of fr fp] assms(1)
    by (simp add: parse_react_def acts react_call_def strips float_io_def nat_str_def nat_digits.simps U_def del: keep_norm.simps)
  then show ?thesis using assms(5,6)
    by (simp add: parse_output_def str_entries_def py_str_def parse_text_def)
qed

lemma react_roundtrip_witness:
  "parse_output ratio_text ratio_read (PStr (react_text ratio_text (U ''search'') [(U ''q'', PStr (U ''x''))])) =
    Inr \<lparr>po_calls = [\<lparr>tc_id = PStr (U ''react_0''), tc_name = PStr (U ''search''),
           tc_arguments = keep_norm (PDict [(U ''q'', PStr (U ''x''))])\<rparr>],
         final_answer = None, raw_text = react_text ratio_text (U ''search'') [(U ''q'', PStr (U ''x''))], handoff_to = PNone\<rparr>"
proof (rule react_roundtrip [OF ratio_io])
  have t: "react_text ratio_text (U ''search'') [(U ''q'', PStr (U ''x''))] =
      U ''Action: search'' @ [10] @ U ''Action Input: '' @ [123, 34, 113, 34, 58, 32, 34, 120, 34, 125]"
    by (simp add: react_text_def dumps_flat_def json_str_def json_cp_def U_def)
  show "search_first final_at (react_text ratio_text (U ''search'') [(U ''q'', PStr (U ''x''))]) = None"
    unfolding t by (simp add: U_def final_at_def after_ci_def ci_variants_def)
  show "search_first json_block_at (react_text ratio_text (U ''search'') [(U ''q'', PStr (U ''x''))]) = None"
    unfolding t by (simp add: U_def json_block_at_def startswith_def)
qed (simp_all add: U_def is_word_def scalar_def)

section \<open>Compaction\<close>

text \<open>What compaction does to a history that is over budget: from eight messages on, the first two and the
  last six stay, the rest shrinks to one note and its high-signal messages. A shorter history is
  longer afterwards: nothing is summarised and every message that lies in both ends is there twice.\<close>

theorem compaction_shape:
  assumes "\<not> fits cfg h" "budget_chars cfg \<noteq> 0" "compact_if_needed cfg f n h = Inr (h', n')"
  shows "n' = Suc n \<and> prefix (take 2 h) h' \<and> suffix (tail_from 6 h) h' \<and>
    (8 \<le> length h \<longrightarrow> length h' \<le> Suc (length h) \<and>
       (\<forall>m \<in> set h'. m \<in> set h \<or> m = compaction_note (Suc n)
          (do_summarise f (filter (\<lambda>m. \<not> high_signal m) (middle_part h))))) \<and>
    (2 \<le> length h \<and> length h \<le> 8 \<longrightarrow> length h' = 3 + min 6 (length h))"
proof -
  let ?p = "filter high_signal (middle_part h)"
  have rest: "filter (\<lambda>m. m \<notin> set ?p) (middle_part h) = filter (\<lambda>m. \<not> high_signal m) (middle_part h)"
    by (rule filter_cong) auto
  let ?note = "compaction_note (Suc n) (do_summarise f (filter (\<lambda>m. \<not> high_signal m) (middle_part h)))"
  have h': "h' = anchor_part h @ [?note] @ ?p @ recent_part h" "n' = Suc n"
    using assms rest by (auto simp: compact_if_needed_def Let_def)
  have mid: "length ?p \<le> length (middle_part h)" "set (middle_part h) \<subseteq> set h"
    unfolding middle_part_def by (rule length_filter_le) (auto dest: in_set_dropD in_set_takeD)
  have len: "length (middle_part h) = length h - 8" by (simp add: middle_part_def)
  have rec: "set (recent_part h) \<subseteq> set h" "length (recent_part h) = min 6 (length h)"
    by (auto simp: recent_part_def tail_from_def dest: in_set_dropD)
  have anc: "set (anchor_part h) \<subseteq> set h" "length (anchor_part h) = min 2 (length h)"
    by (auto simp: anchor_part_def dest: in_set_takeD)
  have size: "length h' = min 2 (length h) + 1 + length ?p + min 6 (length h)" by (simp add: h' anc rec)
  have "\<forall>m \<in> set h'. m \<in> set h \<or> m = ?note" using mid(2) rec(1) anc(1) by (auto simp: h')
  moreover have "prefix (take 2 h) h'" by (simp add: h' anchor_part_def)
  moreover have "suffix (tail_from 6 h) h'" by (simp add: h' recent_part_def suffix_def)
  moreover have "8 \<le> length h \<Longrightarrow> length h' \<le> Suc (length h)" using size mid(1) len by simp
  moreover have "2 \<le> length h \<Longrightarrow> length h \<le> 8 \<Longrightarrow> length h' = 3 + min 6 (length h)"
    using size mid(1) len by simp
  ultimately show ?thesis using h'(2) by blast
qed

definition short_history :: "message list" where
  "short_history = map (plain_message USER) [U ''fix the bug'', U ''in auth'', U ''please'']"

definition tiny_config :: harness_config where
  "tiny_config = default_config\<lparr>context_limit := 1\<rparr>"

lemma compaction_shape_witness:
  "\<exists>h' n'. compact_if_needed tiny_config None 0 short_history = Inr (h', n') \<and> length h' = 6 \<and> length short_history = 3"
proof -
  have f: "\<not> fits tiny_config short_history" by code_simp
  have b: "budget_chars tiny_config \<noteq> 0" by (simp add: budget_chars_def tiny_config_def)
  obtain h' n' where c: "compact_if_needed tiny_config None 0 short_history = Inr (h', n')"
    using f b by (auto simp: compact_if_needed_def Let_def)
  have l: "length short_history = 3" by (simp add: short_history_def)
  show ?thesis using compaction_shape [OF f b c] c l by simp
qed

end
