(* ===== verification/TaskMachine.thy ===== *)
theory TaskMachine
  imports PyPrelude
begin

text \<open>
  The task life cycle of the simulation layer: \<^verbatim>\<open>simulation/state_machine.py\<close>,
  \<^verbatim>\<open>event_bus.py\<close> and \<^verbatim>\<open>execution_engine.py\<close> with the governance check of
  \<^verbatim>\<open>ethos_core\<close>. A handler of the event bus is any function of the payload and an outer
  world that may raise; the engine mutates its task in place, so a run returns the task with the
  exception that stopped it. The log lists what \<^verbatim>\<open>logger\<close> is told. Python enumerates the set of
  banned keywords in an order of its own, which is an argument.
\<close>

section \<open>States and transitions\<close>

datatype task_state = QUEUED | VALIDATED | ETHICAL_CHECK | PLANNED | ASSIGNED_AGENT | EXECUTING | REVIEW
  | COMMITTED | PUBLISHED | ARCHIVED | FAILED

definition VALID_TRANSITIONS :: "(task_state, task_state list) dict" where
  "VALID_TRANSITIONS =
     [(QUEUED, [VALIDATED, FAILED]),
      (VALIDATED, [ETHICAL_CHECK, FAILED]),
      (ETHICAL_CHECK, [PLANNED, FAILED]),
      (PLANNED, [ASSIGNED_AGENT, FAILED]),
      (ASSIGNED_AGENT, [EXECUTING, FAILED]),
      (EXECUTING, [REVIEW, FAILED]),
      (REVIEW, [COMMITTED, FAILED]),
      (COMMITTED, [PUBLISHED, ARCHIVED]),
      (PUBLISHED, [ARCHIVED])]"

datatype task_error = InvalidStateTransition task_state task_state | EthicsViolation str | HandlerRaised str

definition transition :: "task_state \<Rightarrow> task_state \<Rightarrow> task_error + task_state" where
  "transition current new =
     (let allowed = (case dget VALID_TRANSITIONS current of None \<Rightarrow> [] | Some ss \<Rightarrow> ss)
      in if new \<notin> set allowed then Inl (InvalidStateTransition current new) else Inr new)"

text \<open>The paths of the state machine: the states entered by successful transitions.\<close>

inductive task_walk :: "task_state \<Rightarrow> task_state list \<Rightarrow> task_state \<Rightarrow> bool" where
  stay: "task_walk s [] s"
| move: "transition s s' = Inr s' \<Longrightarrow> task_walk s' ss t \<Longrightarrow> task_walk s (s' # ss) t"

inductive_cases walk_NilE: "task_walk s [] t"
inductive_cases walk_ConsE: "task_walk s (x # ss) t"

definition main_line :: "task_state list" where
  "main_line = [QUEUED, VALIDATED, ETHICAL_CHECK, PLANNED, ASSIGNED_AGENT, EXECUTING, REVIEW, COMMITTED, PUBLISHED]"

fun rank :: "task_state \<Rightarrow> nat" where
  "rank QUEUED = 0" | "rank VALIDATED = 1" | "rank ETHICAL_CHECK = 2" | "rank PLANNED = 3"
| "rank ASSIGNED_AGENT = 4" | "rank EXECUTING = 5" | "rank REVIEW = 6" | "rank COMMITTED = 7"
| "rank PUBLISHED = 8" | "rank ARCHIVED = 9" | "rank FAILED = 9"

lemmas transition_simps = transition_def VALID_TRANSITIONS_def dget_def Let_def

lemma transition_rank:
  assumes "transition s s' = Inr q"
  shows "q = s' \<and> rank s < rank s' \<and> (rank s' = Suc (rank s) \<or> s' \<in> {FAILED, ARCHIVED})"
  using assms by (cases s) (auto simp: transition_simps split: if_splits)

lemma rank_le: "rank s \<le> 9"
  by (cases s) auto

lemma terminal: "rank s = 9 \<Longrightarrow> transition s s' = Inl (InvalidStateTransition s s')"
  by (cases s) (auto simp: transition_simps)

lemma walk_rank: "task_walk s ss t \<Longrightarrow> rank s + length ss \<le> rank t"
  by (induction rule: task_walk.induct) (auto dest: transition_rank)

lemma main_line_rank: "s \<notin> {FAILED, ARCHIVED} \<Longrightarrow> main_line ! rank s = s \<and> rank s < 9"
  by (cases s) (auto simp: main_line_def)

lemma walk_line:
  "task_walk s ss t \<Longrightarrow> t \<notin> {FAILED, ARCHIVED} \<Longrightarrow> ss = map ((!) main_line) [Suc (rank s)..<Suc (rank t)] \<and> s \<notin> {FAILED, ARCHIVED}"
proof (induction rule: task_walk.induct)
  case (move s s' ss t)
  then have ih: "ss = map ((!) main_line) [Suc (rank s')..<Suc (rank t)]" "s' \<notin> {FAILED, ARCHIVED}" by auto
  with transition_rank [OF move(1)] have r: "rank s' = Suc (rank s)" by auto
  have "rank s' \<le> rank t" using walk_rank [OF move(2)] by simp
  then have "[Suc (rank s)..<Suc (rank t)] = rank s' # [Suc (rank s')..<Suc (rank t)]"
    using r by (simp add: upt_conv_Cons)
  moreover have "main_line ! rank s' = s'" using main_line_rank [OF ih(2)] by simp
  moreover have "s \<notin> {FAILED, ARCHIVED}" using terminal [of s s'] move(1) by (cases s) auto
  ultimately show ?case using ih(1) by simp
qed simp

section \<open>Tasks and the governance check\<close>

record task =
  tk_id :: str
  tk_name :: str
  tk_description :: str
  tk_created_at :: int
  tk_state :: task_state
  tk_agent :: "str option"

text \<open>\<^verbatim>\<open>Task(name=..., description=...)\<close>; the id and the time are drawn outside.\<close>

definition new_task :: "str \<Rightarrow> int \<Rightarrow> str \<Rightarrow> str \<Rightarrow> task" where
  "new_task uuid now name description =
     \<lparr>tk_id = uuid, tk_name = name, tk_description = description, tk_created_at = now,
      tk_state = QUEUED, tk_agent = None\<rparr>"

definition BANNED_KEYWORDS :: "str list" where
  "BANNED_KEYWORDS = [U ''malware'', U ''surveillance abuse'', U ''harmful exploitation'']"

definition task_content :: "task \<Rightarrow> str" where
  "task_content t = lower (tk_name t @ [32] @ tk_description t)"

text \<open>\<^verbatim>\<open>PolicyConstraintEngine.validate\<close>: the first keyword, in the order of the set, that occurs.\<close>

definition validate :: "str list \<Rightarrow> task \<Rightarrow> task_error + bool" where
  "validate order t =
     (case find (\<lambda>keyword. str_in keyword (task_content t)) order of
        Some keyword \<Rightarrow> Inl (EthicsViolation keyword)
      | None \<Rightarrow> Inr True)"

section \<open>The event bus\<close>

type_synonym payload = "(str, str) dict"
type_synonym 'w handler = "payload \<Rightarrow> 'w \<Rightarrow> str option \<times> 'w"
type_synonym 'w event_bus = "(str, 'w handler list) dict"

definition subscribe :: "str \<Rightarrow> 'w handler \<Rightarrow> 'w event_bus \<Rightarrow> 'w event_bus" where
  "subscribe event_type handler b =
     dset event_type ((case dget b event_type of None \<Rightarrow> [] | Some hs \<Rightarrow> hs) @ [handler]) b"

fun call_handlers :: "'w handler list \<Rightarrow> payload \<Rightarrow> 'w \<Rightarrow> str option \<times> 'w" where
  "call_handlers [] payload w = (None, w)"
| "call_handlers (h # hs) payload w =
     (case h payload w of
        (Some exc, w) \<Rightarrow> (Some exc, w)
      | (None, w) \<Rightarrow> call_handlers hs payload w)"

section \<open>The engine\<close>

record 'w execution =
  ex_sm :: task_state
  ex_task :: task
  ex_world :: 'w
  ex_log :: "(str \<times> str) list"

type_synonym 'w engine_step = "'w execution \<Rightarrow> task_error option \<times> 'w execution"

definition note_log :: "str \<Rightarrow> str \<Rightarrow> 'w execution \<Rightarrow> 'w execution" where
  "note_log event detail s = s\<lparr>ex_log := ex_log s @ [(event, detail)]\<rparr>"

definition publish :: "'w event_bus \<Rightarrow> str \<Rightarrow> 'w engine_step" where
  "publish b event_type s =
     (let s = note_log (U ''event.published'') event_type s;
          handlers = (case dget b event_type of None \<Rightarrow> [] | Some hs \<Rightarrow> hs)
      in (case call_handlers handlers [(U ''task_id'', tk_id (ex_task s))] (ex_world s) of
            (exc, w) \<Rightarrow> (map_option HandlerRaised exc, s\<lparr>ex_world := w\<rparr>)))"

definition advance :: "task_state \<Rightarrow> 'w engine_step" where
  "advance new s =
     (case transition (ex_sm s) new of
        Inl e \<Rightarrow> (Some e, s)
      | Inr q \<Rightarrow> (None, s\<lparr>ex_sm := q, ex_task := (ex_task s)\<lparr>tk_state := q\<rparr>\<rparr>))"

definition assign_agent :: "'w engine_step" where
  "assign_agent s =
     (case transition (ex_sm s) ASSIGNED_AGENT of
        Inl e \<Rightarrow> (Some e, s)
      | Inr q \<Rightarrow> (None, s\<lparr>ex_sm := q,
          ex_task := (ex_task s)\<lparr>tk_agent := Some (U ''orchestration-agent''), tk_state := q\<rparr>\<rparr>))"

definition validate_task :: "str list \<Rightarrow> 'w engine_step" where
  "validate_task order s =
     (let s = note_log (U ''governance.validation.started'') (tk_id (ex_task s)) s
      in (case validate order (ex_task s) of
            Inl e \<Rightarrow> (Some e, s)
          | Inr approved \<Rightarrow> (None, note_log (U ''governance.validation.passed'') (tk_id (ex_task s)) s)))"

definition log_task :: "str \<Rightarrow> 'w engine_step" where
  "log_task event s = (None, note_log event (tk_id (ex_task s)) s)"

fun run_steps :: "'w engine_step list \<Rightarrow> 'w engine_step" where
  "run_steps [] s = (None, s)"
| "run_steps (f # fs) s = (case f s of (Some e, s) \<Rightarrow> (Some e, s) | (None, s) \<Rightarrow> run_steps fs s)"

definition engine_run :: "'w event_bus \<Rightarrow> str list \<Rightarrow> task \<Rightarrow> 'w \<Rightarrow> task_error option \<times> 'w execution" where
  "engine_run b order t w =
     run_steps
       [log_task (U ''execution.started''),
        advance VALIDATED,
        publish b (U ''task.validated''),
        validate_task order,
        advance ETHICAL_CHECK,
        publish b (U ''task.ethics_passed''),
        advance PLANNED,
        assign_agent,
        advance EXECUTING,
        publish b (U ''task.executing''),
        advance REVIEW,
        advance COMMITTED,
        advance PUBLISHED,
        log_task (U ''execution.completed'')]
       \<lparr>ex_sm = tk_state t, ex_task = t, ex_world = w, ex_log = []\<rparr>"

text \<open>What the steps leave alone: publishing touches the world and the log only.\<close>

lemma publish_task:
  assumes "publish b e s = (r, s')"
  shows "ex_task s' = ex_task s \<and> ex_sm s' = ex_sm s \<and> (\<forall>x. r = Some x \<longrightarrow> (\<exists>m. x = HandlerRaised m)) \<and>
    ex_log s' = ex_log s @ [(U ''event.published'', e)]"
  using assms by (auto simp: publish_def note_log_def Let_def split: prod.splits)

lemma validate_None: "validate order t = Inr ok \<longleftrightarrow> ok \<and> \<not> list_ex (\<lambda>k. str_in k (task_content t)) order"
  by (auto simp: validate_def find_None_iff find_Some_iff list_ex_iff split: option.splits)

lemma validate_Inl:
  "validate order t = Inl e \<Longrightarrow> \<exists>k \<in> set order. e = EthicsViolation k \<and> str_in k (task_content t)"
  by (auto simp: validate_def find_Some_iff split: option.splits)

lemma content_state [simp]: "task_content (t\<lparr>tk_state := q\<rparr>) = task_content t"
  "task_content (t\<lparr>tk_agent := a\<rparr>) = task_content t"
  by (simp_all add: task_content_def)

lemma main_transitions:
  "transition QUEUED VALIDATED = Inr VALIDATED" "transition VALIDATED ETHICAL_CHECK = Inr ETHICAL_CHECK"
  "transition ETHICAL_CHECK PLANNED = Inr PLANNED" "transition PLANNED ASSIGNED_AGENT = Inr ASSIGNED_AGENT"
  "transition ASSIGNED_AGENT EXECUTING = Inr EXECUTING" "transition EXECUTING REVIEW = Inr REVIEW"
  "transition REVIEW COMMITTED = Inr COMMITTED" "transition COMMITTED PUBLISHED = Inr PUBLISHED"
  by (simp_all add: transition_simps)

lemma start_transition: "s \<noteq> QUEUED \<Longrightarrow> transition s VALIDATED = Inl (InvalidStateTransition s VALIDATED)"
  by (cases s) (simp_all add: transition_simps)

text \<open>A published event either stops the run or hands on an execution with the same task.\<close>

lemma run_publish:
  "run_steps (publish b e # fs) s = (r, s') \<Longrightarrow>
     (\<exists>m. r = Some (HandlerRaised m) \<and> ex_task s' = ex_task s) \<or>
     (\<exists>s1. run_steps fs s1 = (r, s') \<and> ex_task s1 = ex_task s \<and> ex_sm s1 = ex_sm s)"
  by (cases "publish b e s") (auto dest!: publish_task split: option.splits)

lemma run_advance:
  "transition (ex_sm s) q = Inr q \<Longrightarrow>
     run_steps (advance q # fs) s = run_steps fs (s\<lparr>ex_sm := q, ex_task := (ex_task s)\<lparr>tk_state := q\<rparr>\<rparr>)"
  by (simp add: advance_def)

lemma run_assign:
  "ex_sm s = PLANNED \<Longrightarrow> run_steps (assign_agent # fs) s = run_steps fs (s\<lparr>ex_sm := ASSIGNED_AGENT,
     ex_task := (ex_task s)\<lparr>tk_agent := Some (U ''orchestration-agent''), tk_state := ASSIGNED_AGENT\<rparr>\<rparr>)"
  by (simp add: assign_agent_def main_transitions)

lemma run_log: "run_steps (log_task e # fs) s = run_steps fs (note_log e (tk_id (ex_task s)) s)"
  by (simp add: log_task_def)

lemma note_log_parts [simp]:
  "ex_task (note_log e d s) = ex_task s" "ex_sm (note_log e d s) = ex_sm s" "ex_world (note_log e d s) = ex_world s"
  by (simp_all add: note_log_def)

lemma run_validate:
  "run_steps (validate_task order # fs) s = (r, s') \<Longrightarrow>
     (\<exists>k \<in> set order. r = Some (EthicsViolation k) \<and> str_in k (task_content (ex_task s)) \<and> ex_task s' = ex_task s) \<or>
     (\<exists>s1. run_steps fs s1 = (r, s') \<and> ex_task s1 = ex_task s \<and> ex_sm s1 = ex_sm s \<and>
        \<not> list_ex (\<lambda>k. str_in k (task_content (ex_task s))) order)"
  by (cases "validate order (ex_task s)") (auto simp: validate_task_def Let_def validate_None dest: validate_Inl)

definition task_at :: "task_state \<Rightarrow> bool \<Rightarrow> task \<Rightarrow> task" where
  "task_at q assigned t = t\<lparr>tk_state := q, tk_agent := (if assigned then Some (U ''orchestration-agent'') else tk_agent t)\<rparr>"

lemma task_at_simps [simp]:
  "t\<lparr>tk_state := q\<rparr> = task_at q False t" "(task_at p a t)\<lparr>tk_state := q\<rparr> = task_at q a t"
  "task_at q a (t\<lparr>tk_state := p\<rparr>) = task_at q a t" "task_content (task_at q a t) = task_content t"
  "(task_at p a t)\<lparr>tk_agent := Some (U ''orchestration-agent'')\<rparr> = task_at p True t"
  "task_at q False (task_at p a t) = task_at q a t" "task_at q True (task_at p a t) = task_at q True t"
  by (simp_all add: task_at_def)

text \<open>The three stretches of a run between its published events, from the last to the first.\<close>

lemma engine_tail:
  assumes "run_steps [advance REVIEW, advance COMMITTED, advance PUBLISHED, log_task l] s = (r, s')"
    "ex_sm s = EXECUTING" "ex_task s = task_at EXECUTING True t"
  shows "r = None \<and> ex_task s' = task_at PUBLISHED True t"
  using assms by (auto simp: run_advance run_log main_transitions simp del: run_steps.simps(2))

lemma engine_middle:
  assumes "run_steps (advance PLANNED # assign_agent # advance EXECUTING # publish b l1 #
      [advance REVIEW, advance COMMITTED, advance PUBLISHED, log_task l2]) s = (r, s')"
    "ex_sm s = ETHICAL_CHECK" "ex_task s = task_at ETHICAL_CHECK False t"
  shows "ex_task s' = task_at PUBLISHED True t \<and> r = None \<or>
    (\<exists>m. r = Some (HandlerRaised m)) \<and> ex_task s' = task_at EXECUTING True t"
proof -
  let ?tail = "[advance REVIEW, advance COMMITTED, advance PUBLISHED, log_task l2]"
  obtain s1 where "run_steps (publish b l1 # ?tail) s1 = (r, s')" "ex_sm s1 = EXECUTING"
      "ex_task s1 = task_at EXECUTING True t"
    using assms by (auto simp: run_advance run_assign main_transitions simp del: run_steps.simps(2))
  with run_publish [OF this(1)] show ?thesis using engine_tail by metis
qed

lemma engine_cases:
  assumes run: "run_steps [log_task l0, advance VALIDATED, publish b l1, validate_task order, advance ETHICAL_CHECK,
      publish b l2, advance PLANNED, assign_agent, advance EXECUTING, publish b l3,
      advance REVIEW, advance COMMITTED, advance PUBLISHED, log_task l4]
      \<lparr>ex_sm = tk_state t, ex_task = t, ex_world = w, ex_log = []\<rparr> = (e, s)"
    and q: "tk_state t = QUEUED"
  obtains (raised) m where "e = Some (HandlerRaised m)" "ex_task s = task_at VALIDATED False t"
    | (banned) k where "k \<in> set order" "e = Some (EthicsViolation k)" "str_in k (task_content t)"
        "ex_task s = task_at VALIDATED False t"
    | (passed) "\<not> list_ex (\<lambda>k. str_in k (task_content t)) order"
        "ex_task s = task_at PUBLISHED True t \<and> e = None \<or>
         (\<exists>m. e = Some (HandlerRaised m)) \<and> (ex_task s = task_at ETHICAL_CHECK False t \<or> ex_task s = task_at EXECUTING True t)"
proof -
  let ?tail = "[advance PLANNED, assign_agent, advance EXECUTING, publish b l3,
      advance REVIEW, advance COMMITTED, advance PUBLISHED, log_task l4]"
  let ?mid = "validate_task order # advance ETHICAL_CHECK # publish b l2 # ?tail"
  obtain s1 where "run_steps (publish b l1 # ?mid) s1 = (e, s)" "ex_sm s1 = VALIDATED" "ex_task s1 = task_at VALIDATED False t"
    using run q by (auto simp: run_log run_advance main_transitions simp del: run_steps.simps(2))
  with run_publish [OF this(1)] consider (stop) m where "e = Some (HandlerRaised m)" "ex_task s = task_at VALIDATED False t"
    | (go) s2 where "run_steps ?mid s2 = (e, s)" "ex_task s2 = task_at VALIDATED False t" "ex_sm s2 = VALIDATED"
    by metis
  then show ?thesis
  proof cases
    case go
    from run_validate [OF go(1)] go(2) consider (viol) k where "k \<in> set order" "e = Some (EthicsViolation k)"
        "str_in k (task_content t)" "ex_task s = task_at VALIDATED False t"
      | (ok) s3 where "run_steps (advance ETHICAL_CHECK # publish b l2 # ?tail) s3 = (e, s)"
          "ex_task s3 = task_at VALIDATED False t" "ex_sm s3 = VALIDATED" "\<not> list_ex (\<lambda>k. str_in k (task_content t)) order"
      using go(3) by auto
    then show ?thesis
    proof cases
      case ok
      obtain s4 where s4: "run_steps (publish b l2 # ?tail) s4 = (e, s)" "ex_sm s4 = ETHICAL_CHECK"
          "ex_task s4 = task_at ETHICAL_CHECK False t"
        using ok by (auto simp: run_advance main_transitions simp del: run_steps.simps(2))
      from run_publish [OF s4(1)] s4(2,3) show ?thesis
        using engine_middle passed ok(4) by metis
    qed (rule banned)
  qed (rule raised)
qed

section \<open>Properties\<close>

text \<open>the life cycle is acyclic: a task makes at most nine transitions, archived and failed tasks make
  none, and there is one way only from any state to a state before these: the main line. So a task is
  never published without the ethical check, a plan, an agent and a review.\<close>
theorem walks_follow_main_line:
  assumes "task_walk s ss t"
  shows "length ss \<le> 9 - rank s \<and>
    (t \<in> {FAILED, ARCHIVED} \<or> ss = map ((!) main_line) [Suc (rank s)..<Suc (rank t)])"
proof
  show "length ss \<le> 9 - rank s" using walk_rank [OF assms] rank_le [of t] by simp
  show "t \<in> {FAILED, ARCHIVED} \<or> ss = map ((!) main_line) [Suc (rank s)..<Suc (rank t)]"
    using walk_line [OF assms] by blast
qed

lemma walks_follow_main_line_witness:
  "task_walk QUEUED [VALIDATED, ETHICAL_CHECK] ETHICAL_CHECK \<and> length [VALIDATED, ETHICAL_CHECK] \<le> 9 - rank QUEUED"
proof -
  have w: "task_walk QUEUED [VALIDATED, ETHICAL_CHECK] ETHICAL_CHECK"
    by (intro task_walk.intros main_transitions)
  from walks_follow_main_line [OF w] w show ?thesis by blast
qed

text \<open>C30: what \<^verbatim>\<open>ExecutionEngine.run\<close> makes of a task, whatever the subscribers do: only a queued task is
  taken; it is published, with the agent, when no banned keyword occurs and no handler raises; a banned
  keyword stops it with an ethics violation. The task never reaches \<open>FAILED\<close>: a violation leaves it
  \<open>VALIDATED\<close>, an exception of a handler where it was.\<close>
theorem execution_outcome:
  assumes "set order = set BANNED_KEYWORDS" "engine_run b order t w = (e, s)"
  shows "if tk_state t \<noteq> QUEUED
    then e = Some (InvalidStateTransition (tk_state t) VALIDATED) \<and> ex_task s = t \<and> ex_world s = w
    else (case e of
        None \<Rightarrow> filter (\<lambda>k. str_in k (task_content t)) BANNED_KEYWORDS = [] \<and> ex_task s = task_at PUBLISHED True t
      | Some (EthicsViolation k) \<Rightarrow> k \<in> set (filter (\<lambda>k. str_in k (task_content t)) BANNED_KEYWORDS) \<and>
          ex_task s = task_at VALIDATED False t
      | Some (HandlerRaised m) \<Rightarrow> ex_task s = task_at VALIDATED False t \<or>
          filter (\<lambda>k. str_in k (task_content t)) BANNED_KEYWORDS = [] \<and>
            (ex_task s = task_at ETHICAL_CHECK False t \<or> ex_task s = task_at EXECUTING True t)
      | Some (InvalidStateTransition p q) \<Rightarrow> False)"
proof (cases "tk_state t = QUEUED")
  case False
  with assms(2) show ?thesis
    by (simp add: engine_run_def log_task_def advance_def start_transition note_log_def prod_eq_iff) auto
next
  case True
  have ban: "list_ex (\<lambda>k. str_in k (task_content t)) order \<longleftrightarrow> filter (\<lambda>k. str_in k (task_content t)) BANNED_KEYWORDS \<noteq> []"
    using assms(1) by (auto simp: list_ex_iff filter_empty_conv)
  from assms(2) True consider (raised) m where "e = Some (HandlerRaised m)" "ex_task s = task_at VALIDATED False t"
    | (banned) k where "k \<in> set order" "e = Some (EthicsViolation k)" "str_in k (task_content t)"
        "ex_task s = task_at VALIDATED False t"
    | (passed) "\<not> list_ex (\<lambda>k. str_in k (task_content t)) order"
        "ex_task s = task_at PUBLISHED True t \<and> e = None \<or>
         (\<exists>m. e = Some (HandlerRaised m)) \<and> (ex_task s = task_at ETHICAL_CHECK False t \<or> ex_task s = task_at EXECUTING True t)"
    unfolding engine_run_def by (rule engine_cases)
  then show ?thesis
  proof cases
    case banned
    then show ?thesis using True assms(1) by simp
  qed (use True ban in auto)
qed

definition demo_task :: task where
  "demo_task = new_task (U ''t1'') 0 (U ''Scan'') (U ''find Malware'')"

lemma execution_outcome_witness:
  "fst (engine_run [] BANNED_KEYWORDS demo_task ()) = Some (EthicsViolation (U ''malware'')) \<and>
   ex_task (snd (engine_run [] BANNED_KEYWORDS demo_task ())) = task_at VALIDATED False demo_task"
proof -
  have e: "fst (engine_run [] BANNED_KEYWORDS demo_task ()) = Some (EthicsViolation (U ''malware''))" by code_simp
  have "tk_state demo_task = QUEUED" by (simp add: demo_task_def new_task_def)
  with execution_outcome [where b = "[]" and t = demo_task and w = "()", OF refl surjective_pairing] e
  show ?thesis by simp
qed

end
