(* ===== verification/VaultStore.thy ===== *)
theory VaultStore
  imports PyWire PyBase64
begin

text \<open>
  \<^verbatim>\<open>security/vault.py\<close>, first part: the session seal that signs verdicts and the secure vault that
  keeps values XOR-obfuscated and HMAC-tagged, with an expiry. \<open>kdf\<close> stands for PBKDF2, \<open>hm\<close> for
  HMAC-SHA-256 in hexadecimal, times are microseconds with their ISO text. Locks are left out: every
  operation holds the lock of its object from start to end.
\<close>

datatype vault_error = VUnicodeEncode | VUnicodeDecode | VZeroDivision | VBadTime | VBase64 | VCompareType

section \<open>Primitives\<close>

definition derive_key :: "(bytes \<Rightarrow> bytes \<Rightarrow> nat \<Rightarrow> bytes) \<Rightarrow> str \<Rightarrow> bytes \<Rightarrow> nat \<Rightarrow> vault_error + bytes" where
  "derive_key kdf passphrase salt iterations =
     (if list_all scalar passphrase then Inr (kdf (utf8 passphrase) salt iterations) else Inl VUnicodeEncode)"

text \<open>\<^verbatim>\<open>hmac.compare_digest\<close> refuses text that is not ASCII.\<close>

definition verify_tag :: "(bytes \<Rightarrow> bytes \<Rightarrow> str) \<Rightarrow> bytes \<Rightarrow> bytes \<Rightarrow> str \<Rightarrow> vault_error + bool" where
  "verify_tag hm key data sig = (if \<not> ascii sig then Inl VCompareType else Inr (hm key data = sig))"

definition xor_obfuscate :: "bytes \<Rightarrow> bytes \<Rightarrow> vault_error + bytes" where
  "xor_obfuscate data key =
     (if key = [] then Inl VZeroDivision
      else
        (let stream = take (length data) (concat (replicate (length data div length key + 1) key))
         in Inr (map2 xor data stream)))"

text \<open>\<^verbatim>\<open>base64.b64encode\<close> and the lenient \<^verbatim>\<open>base64.b64decode\<close> of a string (the standard alphabet, with padding).\<close>

definition std_char :: "nat \<Rightarrow> nat" where
  "std_char c = (if c = 45 then 43 else if c = 95 then 47 else c)"

definition std_encode :: "bytes \<Rightarrow> str" where
  "std_encode bs = (let s = map std_char (b64encode bs) in s @ replicate ((4 - length s mod 4) mod 4) 61)"

definition std_decode :: "str \<Rightarrow> bytes option" where
  "std_decode s = (if ascii s then a2b_base64 0 0 0 (filter (\<lambda>c. c \<noteq> 45 \<and> c \<noteq> 95) s) else None)"

section \<open>Round trips of the primitives\<close>

lemma std_char_value: "b64_value (std_char c) = b64_value c" "std_char c = 61 \<longleftrightarrow> c = 61"
  by (auto simp: std_char_def b64_value_def)

lemma a2b_std: "a2b_base64 q l p (map std_char s @ t) = a2b_base64 q l p (s @ t)"
  by (induction q l p s rule: a2b_base64.induct) (auto simp: std_char_value split: option.splits)

lemma std_encode_chars: "c \<in> set (std_encode bs) \<Longrightarrow> c < 128 \<and> c \<noteq> 45 \<and> c \<noteq> 95"
  by (auto simp: std_encode_def std_char_def Let_def dest: b64encode_chars)

lemma b64_char_colon: "b64_char v \<noteq> 58"
  by (auto simp: b64_char_def)

lemma b64encode_colon: "58 \<notin> set (b64encode bs)"
  by (induction bs rule: b64encode.induct) (auto simp: b64_char_colon dest: sym)

lemma std_encode_colon: "58 \<notin> set (std_encode bs)"
  using b64encode_colon by (auto simp: std_encode_def std_char_def Let_def)

lemma std_roundtrip:
  assumes "list_all (\<lambda>b. b < 256) bs"
  shows "std_decode (std_encode bs) = Some bs"
proof -
  have "filter (\<lambda>c. c \<noteq> 45 \<and> c \<noteq> 95) (std_encode bs) = std_encode bs" "ascii (std_encode bs)"
    using std_encode_chars by (auto simp: ascii_def list_all_iff intro: filter_True)
  with b64_roundtrip_aux [OF assms] show ?thesis
    by (simp add: std_decode_def std_encode_def a2b_std Let_def)
qed

lemma xor_byte: "a < 256 \<Longrightarrow> b < 256 \<Longrightarrow> xor a b < (256 :: nat)"
proof -
  assume "a < 256" "b < 256"
  then have "take_bit 8 a = a" "take_bit 8 b = b" by (simp_all add: take_bit_nat_eq_self_iff)
  then have "take_bit 8 (xor a b) = xor a b" by (simp add: take_bit_xor)
  then have "xor a b < 2 ^ 8" by (simp only: take_bit_nat_eq_self_iff)
  then show "xor a b < 256" by simp
qed

lemma xor_cancel: "xor (xor a b) b = (a :: nat)"
  by (simp add: xor.assoc)

lemma stream_length:
  assumes "key \<noteq> []"
  shows "n \<le> length (concat (replicate (n div length key + 1) key))"
proof -
  have "n < (n div length key + 1) * length key"
    using assms dividend_less_div_times [of "length key" n] by simp
  then show ?thesis by (simp add: length_concat sum_list_replicate)
qed

lemma xor_obfuscate_parts:
  assumes "xor_obfuscate data key = Inr obf"
  shows "length obf = length data" "xor_obfuscate obf key = Inr data"
    "list_all (\<lambda>b. b < 256) data \<Longrightarrow> list_all (\<lambda>b. b < 256) key \<Longrightarrow> list_all (\<lambda>b. b < 256) obf"
proof -
  let ?s = "take (length data) (concat (replicate (length data div length key + 1) key))"
  have k: "key \<noteq> []" and obf: "obf = map2 xor data ?s"
    using assms by (auto simp: xor_obfuscate_def Let_def split: if_splits)
  have l: "length ?s = length data" using stream_length [OF k, of "length data"] by (simp only: length_take min_absorb2)
  show len: "length obf = length data" unfolding obf length_map length_zip l by simp
  have "map2 xor obf ?s = data"
    by (rule nth_equalityI) (use l obf in \<open>auto simp: xor_cancel\<close>)
  then show "xor_obfuscate obf key = Inr data" using k len by (simp add: xor_obfuscate_def Let_def)
  show "list_all (\<lambda>b. b < 256) obf" if "list_all (\<lambda>b. b < 256) data" "list_all (\<lambda>b. b < 256) key"
  proof -
    have "b < 256" if "b \<in> set obf" for b
    proof -
      from that obtain x y where xy: "(x, y) \<in> set (zip data ?s)" "b = xor x y" unfolding obf by auto
      have "x \<in> set data" using xy(1) by (rule set_zip_leftD)
      moreover have "y \<in> set key" using set_zip_rightD [OF xy(1)] by (auto dest!: in_set_takeD split: if_splits)
      ultimately show ?thesis using xy(2) that xor_byte \<open>list_all (\<lambda>b. b < 256) data\<close> \<open>list_all (\<lambda>b. b < 256) key\<close>
        by (simp add: list_all_iff)
    qed
    then show ?thesis by (simp add: list_all_iff)
  qed
qed

lemma utf8_cp_bytes: "c < 0x110000 \<Longrightarrow> b \<in> set (utf8_cp c) \<Longrightarrow> b < 256"
  by (auto simp: utf8_cp_def split: if_splits)

lemma utf8_bytes: "list_all scalar s \<Longrightarrow> list_all (\<lambda>b. b < 256) (utf8 s)"
  by (auto simp: utf8_def list_all_iff scalar_def dest!: utf8_cp_bytes [rotated])

lemma base64_digits: "\<exists>x y. c = x * 64 + y \<and> y < (64 :: nat)"
  by (rule exI [of _ "c div 64"], rule exI [of _ "c mod 64"]) simp

lemma utf8_decode_cp:
  assumes "scalar c"
  shows "utf8_decode (utf8_cp c @ r) = map_option (Cons c) (utf8_decode r)"
proof -
  obtain x1 x0 where c1: "c = x1 * 64 + x0" "x0 < 64" using base64_digits by blast
  obtain y2 y1 where c2: "x1 = y2 * 64 + y1" "y1 < 64" using base64_digits by blast
  obtain z3 z2 where c3: "y2 = z3 * 64 + z2" "z2 < 64" using base64_digits by blast
  have d1: "c div 64 = x1" "c mod 64 = x0" using c1 by simp_all
  have d2: "c div 4096 = y2" "x1 mod 64 = y1"
    using c2 d1 div_mult2_eq [of c 64 64] by simp_all
  have d3: "c div 262144 = z3" "y2 mod 64 = z2"
    using c3 d2 div_mult2_eq [of c 4096 64] by simp_all
  consider "c < 0x80" | "0x80 \<le> c" "c < 0x800" | "0x800 \<le> c" "c < 0x10000" | "0x10000 \<le> c" "c < 0x110000"
    using assms by (force simp: scalar_def)
  then show ?thesis
  proof cases
    case 2
    then have u: "utf8_cp c = [192 + x1, 128 + x0]" by (simp add: utf8_cp_def d1)
    from 2 c1 have "2 \<le> x1" "x1 < 32" by auto
    then show ?thesis unfolding u using c1 by (simp add: utf8_tail_def)
  next
    case 3
    then have u: "utf8_cp c = [224 + y2, 128 + y1, 128 + x0]" by (simp add: utf8_cp_def d1 d2)
    have c: "c = y2 * 4096 + y1 * 64 + x0" using c1 c2 by simp
    with 3 have "y2 < 16" by auto
    then show ?thesis unfolding u using 3 c c1(2) c2(2) assms by (auto simp: utf8_tail_def Let_def scalar_def)
  next
    case 4
    then have u: "utf8_cp c = [240 + z3, 128 + z2, 128 + y1, 128 + x0]" by (simp add: utf8_cp_def d1 d2 d3)
    have c: "c = z3 * 262144 + z2 * 4096 + y1 * 64 + x0" using c1 c2 c3 by simp
    with 4 have "z3 < 5" by auto
    then show ?thesis unfolding u using 4 c c1(2) c2(2) c3(2) by (simp add: utf8_tail_def Let_def)
  qed (simp add: utf8_cp_def)
qed

lemma utf8_decode_utf8: "list_all scalar s \<Longrightarrow> utf8_decode (utf8 s) = Some s"
proof (induction s)
  case (Cons c s)
  then show ?case using utf8_decode_cp [of c "utf8 s"] by (simp add: utf8_def)
qed (simp add: utf8_def)

lemma utf8_inj: "list_all scalar s \<Longrightarrow> list_all scalar t \<Longrightarrow> utf8 s = utf8 t \<Longrightarrow> s = t"
  using utf8_decode_utf8 by (metis option.inject)

section \<open>The session seal\<close>

record session_seal =
  ss_session_id :: str
  ss_created_at :: str
  ss_signing_key :: bytes
  ss_verdicts_signed :: nat

definition bool_text :: "bool \<Rightarrow> str" where
  "bool_text b = (if b then U ''True'' else U ''False'')"

definition seal_text :: "session_seal \<Rightarrow> str \<Rightarrow> str \<Rightarrow> bool \<Rightarrow> str" where
  "seal_text s payload_hash depth condemned =
     ss_session_id s @ [58] @ payload_hash @ [58] @ depth @ [58] @ bool_text condemned"

definition seal_sign ::
  "(bytes \<Rightarrow> bytes \<Rightarrow> str) \<Rightarrow> str \<Rightarrow> str \<Rightarrow> bool \<Rightarrow> session_seal \<Rightarrow> (vault_error + str) \<times> session_seal" where
  "seal_sign hm payload_hash depth condemned s =
     (let t = seal_text s payload_hash depth condemned
      in if \<not> list_all scalar t then (Inl VUnicodeEncode, s)
         else (Inr (hm (ss_signing_key s) (utf8 t)), s\<lparr>ss_verdicts_signed := ss_verdicts_signed s + 1\<rparr>))"

definition seal_verify ::
  "(bytes \<Rightarrow> bytes \<Rightarrow> str) \<Rightarrow> str \<Rightarrow> str \<Rightarrow> bool \<Rightarrow> str \<Rightarrow> session_seal \<Rightarrow> vault_error + bool" where
  "seal_verify hm payload_hash depth condemned sig s =
     (let t = seal_text s payload_hash depth condemned
      in if \<not> list_all scalar t then Inl VUnicodeEncode else verify_tag hm (ss_signing_key s) (utf8 t) sig)"

definition fingerprint :: "session_seal \<Rightarrow> str" where
  "fingerprint s = take 12 (ss_session_id s)"

section \<open>The vault\<close>

record vault_record =
  vr_data :: str
  vr_tag :: str
  vr_stored_at :: str
  vr_ttl :: "int option"

record secure_vault =
  sv_salt :: bytes
  sv_sign_key :: bytes
  sv_obfusc_key :: bytes
  sv_store :: "(str, vault_record) dict"
  sv_accesses :: nat

text \<open>\<^verbatim>\<open>passphrase or secrets.token_hex(32)\<close>: an empty passphrase is replaced, too.\<close>

definition new_vault ::
  "(bytes \<Rightarrow> bytes \<Rightarrow> nat \<Rightarrow> bytes) \<Rightarrow> bytes \<Rightarrow> str \<Rightarrow> str option \<Rightarrow> vault_error + secure_vault" where
  "new_vault kdf salt random_hex passphrase =
     (let pp = (case passphrase of Some (c # p) \<Rightarrow> c # p | _ \<Rightarrow> random_hex)
      in (case derive_key kdf pp salt 100000 of
            Inl e \<Rightarrow> Inl e
          | Inr sign_key \<Rightarrow>
              (case derive_key kdf (pp @ U ''_obfusc'') salt 50000 of
                 Inl e \<Rightarrow> Inl e
               | Inr obfusc_key \<Rightarrow>
                   Inr \<lparr>sv_salt = salt, sv_sign_key = sign_key, sv_obfusc_key = obfusc_key, sv_store = [],
                        sv_accesses = 0\<rparr>)))"

definition tag_text :: "str \<Rightarrow> str \<Rightarrow> str" where
  "tag_text key data = key @ [58] @ data"

definition vault_store ::
  "(bytes \<Rightarrow> bytes \<Rightarrow> str) \<Rightarrow> (int \<Rightarrow> str) \<Rightarrow> str \<Rightarrow> str \<Rightarrow> int option \<Rightarrow> int \<Rightarrow> secure_vault
     \<Rightarrow> vault_error option \<times> secure_vault" where
  "vault_store hm isofmt key val ttl now v =
     (if \<not> list_all scalar val then (Some VUnicodeEncode, v)
      else
        (case xor_obfuscate (utf8 val) (sv_obfusc_key v) of
           Inl e \<Rightarrow> (Some e, v)
         | Inr obf \<Rightarrow>
             (let encoded = std_encode obf
              in if \<not> list_all scalar (tag_text key encoded) then (Some VUnicodeEncode, v)
                 else (None, v\<lparr>sv_store := dset key
                   \<lparr>vr_data = encoded, vr_tag = hm (sv_sign_key v) (utf8 (tag_text key encoded)),
                    vr_stored_at = isofmt now, vr_ttl = ttl\<rparr> (sv_store v)\<rparr>))))"

text \<open>Opening a record that has not expired: the integrity check, then the two decodings.\<close>

definition open_record ::
  "(bytes \<Rightarrow> bytes \<Rightarrow> str) \<Rightarrow> secure_vault \<Rightarrow> str \<Rightarrow> vault_record \<Rightarrow> vault_error + str option" where
  "open_record hm v key r =
     (if \<not> list_all scalar (tag_text key (vr_data r)) then Inl VUnicodeEncode
      else
        (case verify_tag hm (sv_sign_key v) (utf8 (tag_text key (vr_data r))) (vr_tag r) of
           Inl e \<Rightarrow> Inl e
         | Inr False \<Rightarrow> Inr None
         | Inr True \<Rightarrow>
             (case std_decode (vr_data r) of
                None \<Rightarrow> Inl VBase64
              | Some obf \<Rightarrow>
                  (case xor_obfuscate obf (sv_obfusc_key v) of
                     Inl e \<Rightarrow> Inl e
                   | Inr raw \<Rightarrow> (case utf8_decode raw of None \<Rightarrow> Inl VUnicodeDecode | Some t \<Rightarrow> Inr (Some t))))))"

definition vault_retrieve ::
  "(bytes \<Rightarrow> bytes \<Rightarrow> str) \<Rightarrow> (str \<Rightarrow> int option) \<Rightarrow> str \<Rightarrow> int \<Rightarrow> secure_vault
     \<Rightarrow> (vault_error + str option) \<times> secure_vault" where
  "vault_retrieve hm parse_time key now v =
     (let v = v\<lparr>sv_accesses := sv_accesses v + 1\<rparr>
      in (case dget (sv_store v) key of
            None \<Rightarrow> (Inr None, v)
          | Some r \<Rightarrow>
              (case vr_ttl r of
                 None \<Rightarrow> (open_record hm v key r, v)
               | Some ttl \<Rightarrow>
                   (case parse_time (vr_stored_at r) of
                      None \<Rightarrow> (Inl VBadTime, v)
                    | Some stored \<Rightarrow>
                        (if ttl * 1000000 < now - stored then (Inr None, v\<lparr>sv_store := dpop key (sv_store v)\<rparr>)
                         else (open_record hm v key r, v))))))"

definition vault_remove :: "str \<Rightarrow> secure_vault \<Rightarrow> bool \<times> secure_vault" where
  "vault_remove key v = (din key (sv_store v), v\<lparr>sv_store := dpop key (sv_store v)\<rparr>)"

definition vault_has ::
  "(bytes \<Rightarrow> bytes \<Rightarrow> str) \<Rightarrow> (str \<Rightarrow> int option) \<Rightarrow> str \<Rightarrow> int \<Rightarrow> secure_vault
     \<Rightarrow> (vault_error + bool) \<times> secure_vault" where
  "vault_has hm parse_time key now v =
     (case vault_retrieve hm parse_time key now v of
        (Inl e, v) \<Rightarrow> (Inl e, v)
      | (Inr r, v) \<Rightarrow> (Inr (r \<noteq> None), v))"

definition vault_codex :: "secure_vault \<Rightarrow> str list \<times> nat \<times> nat" where
  "vault_codex v = (dkeys (sv_store v), length (sv_store v), sv_accesses v)"

section \<open>What the vault keeps\<close>

datatype vault_op = StoreV str str "int option" int | RetrieveV str int | HasV str int | RemoveV str

fun vault_step ::
  "(bytes \<Rightarrow> bytes \<Rightarrow> str) \<Rightarrow> (int \<Rightarrow> str) \<Rightarrow> (str \<Rightarrow> int option) \<Rightarrow> vault_op \<Rightarrow> secure_vault \<Rightarrow> secure_vault" where
  "vault_step hm isofmt parse_time (StoreV key val ttl now) v = snd (vault_store hm isofmt key val ttl now v)"
| "vault_step hm isofmt parse_time (RetrieveV key now) v = snd (vault_retrieve hm parse_time key now v)"
| "vault_step hm isofmt parse_time (HasV key now) v = snd (vault_has hm parse_time key now v)"
| "vault_step hm isofmt parse_time (RemoveV key) v = snd (vault_remove key v)"

text \<open>An operation of another key, or a look at this key no later than a given time.\<close>

fun harmless_op :: "str \<Rightarrow> int \<Rightarrow> vault_op \<Rightarrow> bool" where
  "harmless_op key now (StoreV k val ttl t) \<longleftrightarrow> k \<noteq> key"
| "harmless_op key now (RetrieveV k t) \<longleftrightarrow> k \<noteq> key \<or> t \<le> now"
| "harmless_op key now (HasV k t) \<longleftrightarrow> k \<noteq> key \<or> t \<le> now"
| "harmless_op key now (RemoveV k) \<longleftrightarrow> k \<noteq> key"

definition expired :: "int option \<Rightarrow> int \<Rightarrow> int \<Rightarrow> bool" where
  "expired ttl stored now = (case ttl of None \<Rightarrow> False | Some s \<Rightarrow> s * 1000000 < now - stored)"

definition keys_ok :: "secure_vault \<Rightarrow> bool" where
  "keys_ok v \<longleftrightarrow> list_all (\<lambda>b. b < 256) (sv_obfusc_key v)"

definition same_keys :: "secure_vault \<Rightarrow> secure_vault \<Rightarrow> bool" where
  "same_keys v w \<longleftrightarrow> sv_sign_key w = sv_sign_key v \<and> sv_obfusc_key w = sv_obfusc_key v"

lemma same_keys_step: "same_keys v (vault_step hm isofmt parse_time op v)"
  by (cases op) (auto simp: same_keys_def vault_store_def vault_retrieve_def vault_has_def vault_remove_def Let_def
      split: sum.splits option.splits)

lemma open_same_keys:
  assumes "same_keys v w"
  shows "open_record hm w key r = open_record hm v key r"
proof -
  have "sv_sign_key w = sv_sign_key v" "sv_obfusc_key w = sv_obfusc_key v" using assms by (simp_all add: same_keys_def)
  then show ?thesis by (simp only: open_record_def)
qed

lemma take_to_colon: "58 \<notin> set x \<Longrightarrow> takeWhile (\<lambda>c. c \<noteq> 58) (x @ 58 # y) = x"
  by (induction x) auto

lemma last_colon:
  assumes "58 \<notin> set x" "58 \<notin> set y" "k @ 58 # x = l @ 58 # (y :: str)"
  shows "k = l \<and> x = y"
proof -
  have "rev x @ 58 # rev k = rev y @ 58 # rev l" using arg_cong [OF assms(3), of rev] by simp
  moreover from this have "rev x = rev y"
    using take_to_colon [of "rev x" "rev k"] take_to_colon [of "rev y" "rev l"] assms(1,2) by simp
  ultimately show ?thesis by simp
qed

lemma vault_store_None:
  assumes "vault_store hm isofmt key val ttl now v = (None, w)"
  obtains obf where "list_all scalar val" "xor_obfuscate (utf8 val) (sv_obfusc_key v) = Inr obf" "same_keys v w"
    "list_all scalar (tag_text key (std_encode obf))"
    "dget (sv_store w) key = Some \<lparr>vr_data = std_encode obf,
       vr_tag = hm (sv_sign_key v) (utf8 (tag_text key (std_encode obf))), vr_stored_at = isofmt now, vr_ttl = ttl\<rparr>"
  using assms by (auto simp: vault_store_def same_keys_def Let_def split: if_splits sum.splits)

lemma open_stored:
  assumes "vault_store hm isofmt key val ttl t0 v = (None, w)" "keys_ok v" "hex_hmac hm" "dget (sv_store w) key = Some r"
  shows "open_record hm w key r = Inr (Some val) \<and> vr_stored_at r = isofmt t0 \<and> vr_ttl r = ttl"
proof -
  from assms(1) obtain obf where s: "list_all scalar val" and x: "xor_obfuscate (utf8 val) (sv_obfusc_key v) = Inr obf"
    and w: "same_keys v w" "list_all scalar (tag_text key (std_encode obf))"
      "dget (sv_store w) key = Some \<lparr>vr_data = std_encode obf,
       vr_tag = hm (sv_sign_key v) (utf8 (tag_text key (std_encode obf))), vr_stored_at = isofmt t0, vr_ttl = ttl\<rparr>"
    by (rule vault_store_None)
  have "std_decode (std_encode obf) = Some obf"
    using xor_obfuscate_parts(3) [OF x utf8_bytes [OF s]] assms(2) by (simp add: std_roundtrip keys_ok_def)
  moreover have "ascii (hm k m)" for k m
    using assms(3) hex_char_plain [of "hm k m"] by (simp add: hex_hmac_def)
  ultimately show ?thesis
    using w assms(4) xor_obfuscate_parts(2) [OF x] utf8_decode_utf8 [OF s]
    unfolding open_same_keys [OF w(1)] by (auto simp: open_record_def verify_tag_def)
qed

lemma vault_retrieve_dget:
  "dget (sv_store (snd (vault_retrieve hm parse_time k t v))) key =
     (if k = key \<and> (\<exists>r s ttl. dget (sv_store v) key = Some r \<and> vr_ttl r = Some ttl \<and>
          parse_time (vr_stored_at r) = Some s \<and> ttl * 1000000 < t - s) then None
      else dget (sv_store v) key)"
  by (auto simp: vault_retrieve_def Let_def split: option.splits)

lemma vault_has_snd: "snd (vault_has hm parse_time key now v) = snd (vault_retrieve hm parse_time key now v)"
  by (auto simp: vault_has_def split: prod.splits sum.splits)

lemma step_keeps_record:
  assumes "harmless_op key now op" "parse_time (vr_stored_at r) = Some t0"
    and "dget (sv_store v) key = Some r \<or> dget (sv_store v) key = None \<and> expired (vr_ttl r) t0 now"
  shows "dget (sv_store (vault_step hm isofmt parse_time op v)) key = Some r \<or>
    dget (sv_store (vault_step hm isofmt parse_time op v)) key = None \<and> expired (vr_ttl r) t0 now"
  using assms
  by (cases op) (auto simp: vault_has_snd vault_retrieve_dget vault_store_def vault_remove_def expired_def Let_def
      split: sum.splits option.splits)

lemma run_keeps_record:
  assumes "list_all (harmless_op key now) ops" "parse_time (vr_stored_at r) = Some t0" "dget (sv_store v) key = Some r"
  shows "let w = fold (vault_step hm isofmt parse_time) ops v
    in same_keys v w \<and> (dget (sv_store w) key = Some r \<or> dget (sv_store w) key = None \<and> expired (vr_ttl r) t0 now)"
  using assms(1)
proof (induction ops rule: rev_induct)
  case (snoc op ops)
  then show ?case using step_keeps_record [of key now op parse_time r t0, OF _ assms(2)] same_keys_step
    by (auto simp: Let_def same_keys_def)
qed (simp add: assms(3) same_keys_def)

section \<open>Properties\<close>

text \<open>C31: what was stored is retrieved: after any operations that do not store or remove the same key and
  do not look at it later than now, a stored text comes back as it was, decoded from its obfuscated Base64
  form, and once its lifetime has passed nothing does.\<close>
theorem vault_returns_stored:
  assumes "hex_hmac hm" "time_text isofmt parse_time" "keys_ok v"
    and "vault_store hm isofmt key val ttl t0 v = (None, v1)" "list_all (harmless_op key now) ops"
  shows "fst (vault_retrieve hm parse_time key now (fold (vault_step hm isofmt parse_time) ops v1)) =
    Inr (if expired ttl t0 now then None else Some val)"
proof -
  let ?w = "fold (vault_step hm isofmt parse_time) ops v1"
  obtain r where r: "dget (sv_store v1) key = Some r" using vault_store_None [OF assms(4)] by metis
  note op = open_stored [OF assms(4,3,1) r]
  have t: "parse_time (vr_stored_at r) = Some t0" using op assms(2) by (simp add: time_text_def)
  from run_keeps_record [where hm = hm and isofmt = isofmt and parse_time = parse_time, OF assms(5) t r]
  have k: "same_keys v1 ?w" and d: "dget (sv_store ?w) key = Some r \<or> dget (sv_store ?w) key = None \<and> expired ttl t0 now"
    using op by (auto simp: Let_def)
  have "open_record hm (?w\<lparr>sv_accesses := n\<rparr>) key r = Inr (Some val)" for n
    using op open_same_keys [of v1 "?w\<lparr>sv_accesses := n\<rparr>" hm key r] k by (simp add: same_keys_def)
  then show ?thesis using d op t
    by (auto simp: vault_retrieve_def expired_def Let_def split: option.splits)
qed


text \<open>the one way around the tag: it covers the key and the data joined by a colon, so for a key that holds
  one the boundary can be moved. The record of \<^verbatim>\<open>a:b\<close> with its data extended by \<^verbatim>\<open>b:\<close> passes the
  integrity check under the key \<^verbatim>\<open>a\<close>: the vault never answers that it was tampered with.\<close>
theorem colon_key_confused:
  assumes "hex_hmac hm" "vault_store hm isofmt (a @ 58 # b) val ttl t0 v = (None, v1)"
    and "dget (sv_store v1) (a @ 58 # b) = Some r"
  shows "fst (vault_retrieve hm parse_time a now
      (v1\<lparr>sv_store := dset a (r\<lparr>vr_data := b @ 58 # vr_data r, vr_ttl := None\<rparr>) (sv_store v1)\<rparr>)) \<noteq> Inr None"
proof -
  from assms(2) obtain obf where k: "same_keys v v1" "list_all scalar (tag_text (a @ 58 # b) (std_encode obf))"
    "dget (sv_store v1) (a @ 58 # b) = Some \<lparr>vr_data = std_encode obf,
       vr_tag = hm (sv_sign_key v) (utf8 (tag_text (a @ 58 # b) (std_encode obf))), vr_stored_at = isofmt t0, vr_ttl = ttl\<rparr>"
    by (rule vault_store_None)
  have t: "tag_text (a @ 58 # b) d = tag_text a (b @ 58 # d)" for d by (simp add: tag_text_def)
  have h: "ascii (hm q m)" for q m using assms(1) hex_char_plain [of "hm q m"] by (simp add: hex_hmac_def)
  from k assms(3) show ?thesis
    by (auto simp: vault_retrieve_def open_record_def verify_tag_def same_keys_def t h Let_def
        split: option.splits sum.splits)
qed

section \<open>Witnesses\<close>

definition demo_vault :: secure_vault where
  "demo_vault = \<lparr>sv_salt = [], sv_sign_key = [1], sv_obfusc_key = [7, 9], sv_store = [], sv_accesses = 0\<rparr>"

definition demo_record :: vault_record where
  "demo_record = \<lparr>vr_data = U ''b2I='', vr_tag = flat_hmac [1] [], vr_stored_at = U ''0'', vr_ttl = Some 60\<rparr>"

definition stored_vault :: "str \<Rightarrow> secure_vault" where
  "stored_vault key = demo_vault\<lparr>sv_store := [(key, demo_record)]\<rparr>"

lemma demo_bytes: "utf8 [104, 107] = [104, 107]"
  by (simp add: utf8_def utf8_cp_def)

lemma demo_xor: "xor_obfuscate [104, 107] [7, 9] = Inr [111, 98]"
  by code_simp

lemma int_zero: "int_str 0 = [48]"
  by (simp add: int_str_def nat_str_def nat_digits.simps)

lemma demo_store:
  "vault_store flat_hmac int_str (U ''k'') (U ''hk'') (Some 60) 0 demo_vault = (None, stored_vault (U ''k''))"
  "vault_store flat_hmac int_str (U ''a'' @ 58 # U ''b'') (U ''hk'') (Some 60) 0 demo_vault =
     (None, stored_vault (U ''a'' @ 58 # U ''b''))"
  using int_zero by (simp_all add: vault_store_def demo_bytes demo_xor tag_text_def demo_vault_def stored_vault_def
      demo_record_def flat_hmac_def std_encode_def b64_char_def std_char_def dset_def scalar_def U_def Let_def)

lemma demo_keys: "keys_ok demo_vault" "dget (sv_store (stored_vault k)) k = Some demo_record"
  by (simp_all add: keys_ok_def demo_vault_def stored_vault_def dget_def)

theorem vault_returns_stored_witness:
  "fst (vault_retrieve flat_hmac read_time (U ''k'') 9000000
     (fold (vault_step flat_hmac int_str read_time) [HasV (U ''k'') 5, RemoveV (U ''x'')] (stored_vault (U ''k''))))
   = Inr (Some (U ''hk''))"
proof -
  have "fst (vault_retrieve flat_hmac read_time (U ''k'') 9000000
     (fold (vault_step flat_hmac int_str read_time) [HasV (U ''k'') 5, RemoveV (U ''x'')] (stored_vault (U ''k''))))
   = Inr (if expired (Some 60) 0 9000000 then None else Some (U ''hk''))"
    by (rule vault_returns_stored [OF flat_hmac_hex _ demo_keys(1) demo_store(1)]) (simp_all add: read_time_text)
  then show ?thesis by (simp add: expired_def)
qed

lemma demo_retrieve:
  "fst (vault_retrieve flat_hmac read_time (U ''k'') 0 (stored_vault (U ''k''))) = Inr (Some (U ''hk''))"
proof -
  have "open_record flat_hmac (stored_vault (U ''k'')) (U ''k'') demo_record = Inr (Some (U ''hk''))"
    using open_stored [OF demo_store(1) demo_keys(1) flat_hmac_hex demo_keys(2)] by simp
  then have "open_record flat_hmac (stored_vault (U ''k'')\<lparr>sv_accesses := n\<rparr>) (U ''k'') demo_record = Inr (Some (U ''hk''))" for n
    using open_same_keys [of "stored_vault (U ''k'')" "stored_vault (U ''k'')\<lparr>sv_accesses := n\<rparr>"] by (simp add: same_keys_def)
  moreover have "vr_ttl demo_record = Some 60" "read_time (vr_stored_at demo_record) = Some 0"
    using read_time_text int_zero by (simp_all add: demo_record_def time_text_def U_def) (metis int_zero)
  ultimately show ?thesis using demo_keys(2) [of "U ''k''"] by (simp add: vault_retrieve_def Let_def)
qed


theorem colon_key_confused_witness:
  "fst (vault_retrieve flat_hmac read_time (U ''a'') 0 (stored_vault (U ''a'' @ 58 # U ''b'')\<lparr>sv_store :=
     dset (U ''a'') (demo_record\<lparr>vr_data := U ''b'' @ 58 # vr_data demo_record, vr_ttl := None\<rparr>)
       (sv_store (stored_vault (U ''a'' @ 58 # U ''b'')))\<rparr>)) \<noteq> Inr None"
  by (rule colon_key_confused [OF flat_hmac_hex demo_store(2) demo_keys(2)])

end
