(* ===== verification/VaultLedger.thy ===== *)
theory VaultLedger
  imports VaultStore PyJsonKeep HashChain
begin

text \<open>
  \<^verbatim>\<open>security/vault.py\<close>, second part: the audit ledger with its file of JSON lines, the threat archive
  and the integrity verifier. An entry read from a file may hold any JSON value in any field, so the
  fields are Python values. \<open>sha\<close> and \<open>hm\<close> stand for SHA-256 and HMAC-SHA-256 in hexadecimal; whether
  a write to the disk succeeds is an argument.
\<close>

section \<open>Entries\<close>

record ledger_entry =
  le_sequence :: pyval
  le_timestamp :: pyval
  le_event_type :: pyval
  le_session_id :: pyval
  le_payload_hash :: pyval
  le_depth :: pyval
  le_maligna_count :: pyval
  le_condemned :: pyval
  le_verdict_sig :: pyval
  le_prev_hash :: pyval
  le_entry_hash :: pyval

definition entry_texts :: "(pyval \<Rightarrow> str) \<Rightarrow> ledger_entry \<Rightarrow> str list" where
  "entry_texts fr e = map (py_str fr) [le_sequence e, le_timestamp e, le_event_type e, le_session_id e,
     le_payload_hash e, le_depth e, le_maligna_count e, le_condemned e, le_verdict_sig e, le_prev_hash e]"

definition entry_canonical :: "(pyval \<Rightarrow> str) \<Rightarrow> ledger_entry \<Rightarrow> str" where
  "entry_canonical fr e = join [124] (entry_texts fr e)"

text \<open>\<^verbatim>\<open>asdict(e)\<close> and \<^verbatim>\<open>LedgerEntry(**d)\<close>: every field but the last is required, no other is allowed.\<close>

definition entry_dict :: "ledger_entry \<Rightarrow> (str \<times> pyval) list" where
  "entry_dict e = [(U ''sequence'', le_sequence e), (U ''timestamp'', le_timestamp e), (U ''event_type'', le_event_type e),
     (U ''session_id'', le_session_id e), (U ''payload_hash'', le_payload_hash e), (U ''depth'', le_depth e),
     (U ''maligna_count'', le_maligna_count e), (U ''condemned'', le_condemned e), (U ''verdict_sig'', le_verdict_sig e),
     (U ''prev_hash'', le_prev_hash e), (U ''entry_hash'', le_entry_hash e)]"

definition entry_fields :: "str list" where
  "entry_fields = [U ''sequence'', U ''timestamp'', U ''event_type'', U ''session_id'', U ''payload_hash'', U ''depth'',
     U ''maligna_count'', U ''condemned'', U ''verdict_sig'', U ''prev_hash'']"

definition entry_of :: "pyval \<Rightarrow> ledger_entry option" where
  "entry_of v =
     (case v of
        PDict d \<Rightarrow>
          (if list_all (\<lambda>f. dget d f \<noteq> None) entry_fields \<and> set (dkeys d) \<subseteq> set (entry_fields @ [U ''entry_hash''])
           then (let fld = (\<lambda>f. case dget d (U f) of Some x \<Rightarrow> x | None \<Rightarrow> PStr [])
                 in Some \<lparr>le_sequence = fld ''sequence'', le_timestamp = fld ''timestamp'', le_event_type = fld ''event_type'',
                   le_session_id = fld ''session_id'', le_payload_hash = fld ''payload_hash'', le_depth = fld ''depth'',
                   le_maligna_count = fld ''maligna_count'', le_condemned = fld ''condemned'',
                   le_verdict_sig = fld ''verdict_sig'', le_prev_hash = fld ''prev_hash'', le_entry_hash = fld ''entry_hash''\<rparr>)
           else None)
      | _ \<Rightarrow> None)"

section \<open>The ledger\<close>

definition GENESIS :: pyval where
  "GENESIS = PStr (replicate 64 48)"

record vault_ledger =
  vl_seal :: session_seal
  vl_entries :: "ledger_entry list"
  vl_seq :: pyval
  vl_has_path :: bool
  vl_file :: "str option"

definition py_num :: "pyval \<Rightarrow> pyfloat option" where
  "py_num v = (case v of PInt n \<Rightarrow> Some (of_int n) | PBool b \<Rightarrow> Some (if b then 1 else 0) | PFloat x \<Rightarrow> Some x | _ \<Rightarrow> None)"

definition py_succ :: "pyval \<Rightarrow> pyval" where
  "py_succ v = (case v of PInt n \<Rightarrow> PInt (n + 1) | PBool b \<Rightarrow> PInt (if b then 2 else 1) | PFloat x \<Rightarrow> PFloat (fl (x + 1)) | _ \<Rightarrow> v)"

text \<open>\<^verbatim>\<open>record\<close>; \<open>ts\<close> is the time text. A failing write is logged only.\<close>

definition write_entry :: "(pyval \<Rightarrow> str) \<Rightarrow> bool \<Rightarrow> ledger_entry \<Rightarrow> vault_ledger \<Rightarrow> vault_ledger" where
  "write_entry fr write_ok e l =
     (if vl_has_path l \<and> write_ok
      then l\<lparr>vl_file := Some ((case vl_file l of None \<Rightarrow> [] | Some t \<Rightarrow> t) @ dumps_flat fr (PDict (entry_dict e)) @ [10])\<rparr>
      else l)"

definition ledger_record ::
  "(bytes \<Rightarrow> str) \<Rightarrow> (bytes \<Rightarrow> bytes \<Rightarrow> str) \<Rightarrow> (pyval \<Rightarrow> str) \<Rightarrow> str \<Rightarrow> bool \<Rightarrow> str \<Rightarrow> str \<Rightarrow> str \<Rightarrow> int \<Rightarrow> bool
     \<Rightarrow> vault_ledger \<Rightarrow> (vault_error + ledger_entry) \<times> vault_ledger" where
  "ledger_record sha hm fr ts write_ok event payload depth maligna condemned l =
     (if \<not> list_all scalar payload then (Inl VUnicodeEncode, l)
      else
        (let ph = sha (utf8 payload)
         in (case seal_sign hm ph depth condemned (vl_seal l) of
               (Inl e, seal) \<Rightarrow> (Inl e, l\<lparr>vl_seal := seal\<rparr>)
             | (Inr sig, seal) \<Rightarrow>
                 (let prev = (if vl_entries l = [] then GENESIS else le_entry_hash (last (vl_entries l)));
                      l = l\<lparr>vl_seal := seal, vl_seq := py_succ (vl_seq l)\<rparr>;
                      e = \<lparr>le_sequence = vl_seq l, le_timestamp = PStr ts, le_event_type = PStr event,
                           le_session_id = PStr (fingerprint (vl_seal l)), le_payload_hash = PStr ph,
                           le_depth = PStr depth, le_maligna_count = PInt maligna, le_condemned = PBool condemned,
                           le_verdict_sig = PStr sig, le_prev_hash = prev, le_entry_hash = PStr []\<rparr>
                  in if \<not> list_all scalar (entry_canonical fr e) then (Inl VUnicodeEncode, l)
                     else
                       (let e = e\<lparr>le_entry_hash := PStr (sha (utf8 (entry_canonical fr e)))\<rparr>
                        in (Inr e, write_entry fr write_ok e (l\<lparr>vl_entries := vl_entries l @ [e]\<rparr>)))))))"

text \<open>The loop of \<^verbatim>\<open>verify_chain\<close>: the verdict, how far it came, and the message.\<close>

fun chain_loop ::
  "(bytes \<Rightarrow> str) \<Rightarrow> (pyval \<Rightarrow> str) \<Rightarrow> pyval \<Rightarrow> nat \<Rightarrow> ledger_entry list \<Rightarrow> vault_error + bool \<times> nat \<times> str" where
  "chain_loop sha fr prev i [] = Inr (True, i, U ''Chain intact '' @ [0x2014] @ U '' '' @ nat_str i @ U '' entries verified'')"
| "chain_loop sha fr prev i (e # es) =
     (if le_prev_hash e \<noteq> prev
      then Inr (False, i, U ''Chain broken at entry '' @ py_str fr (le_sequence e) @ U '': prev_hash mismatch'')
      else if \<not> list_all scalar (entry_canonical fr e) then Inl VUnicodeEncode
      else if PStr (sha (utf8 (entry_canonical fr e))) \<noteq> le_entry_hash e
      then Inr (False, i, U ''Entry '' @ py_str fr (le_sequence e) @ U '' content tampered'')
      else chain_loop sha fr (le_entry_hash e) (Suc i) es)"

definition verify_chain :: "(bytes \<Rightarrow> str) \<Rightarrow> (pyval \<Rightarrow> str) \<Rightarrow> vault_ledger \<Rightarrow> vault_error + bool \<times> nat \<times> str" where
  "verify_chain sha fr l =
     (if vl_entries l = [] then Inr (True, 0, U ''Empty ledger'') else chain_loop sha fr GENESIS 0 (vl_entries l))"

text \<open>
  \<^verbatim>\<open>_load\<close>: a line that is no JSON, no entry or has no number as its sequence ends the loading, and what was
  read so far stays; an entry whose sequence cannot be compared stays, too.
\<close>

fun load_entries ::
  "(str \<Rightarrow> pyfloat) \<Rightarrow> str list \<Rightarrow> ledger_entry list \<Rightarrow> pyval \<Rightarrow> ledger_entry list \<times> pyval" where
  "load_entries fp [] es seq = (es, seq)"
| "load_entries fp (l # ls) es seq =
     (let line = strip l
      in if line = [] then load_entries fp ls es seq
         else (case Option.bind (json_loads fp line) entry_of of
                 None \<Rightarrow> (es, seq)
               | Some e \<Rightarrow>
                   (case (py_num seq, py_num (le_sequence e)) of
                      (Some a, Some b) \<Rightarrow> load_entries fp ls (es @ [e]) (if a < b then le_sequence e else seq)
                    | _ \<Rightarrow> (es @ [e], seq))))"

definition open_vault_ledger :: "(str \<Rightarrow> pyfloat) \<Rightarrow> session_seal \<Rightarrow> bool \<Rightarrow> str option \<Rightarrow> vault_ledger" where
  "open_vault_ledger fp seal has_path file =
     (let (es, seq) = (case (has_path, file) of
           (True, Some t) \<Rightarrow> load_entries fp (file_lines t) [] (PInt 0)
         | _ \<Rightarrow> ([], PInt 0))
      in \<lparr>vl_seal = seal, vl_entries = es, vl_seq = seq, vl_has_path = has_path, vl_file = file\<rparr>)"

definition ledger_depth :: "vault_ledger \<Rightarrow> nat" where
  "ledger_depth l = length (vl_entries l)"

section \<open>The ledger is a hash chain\<close>

definition entry_sealed :: "(bytes \<Rightarrow> str) \<Rightarrow> (pyval \<Rightarrow> str) \<Rightarrow> ledger_entry \<Rightarrow> bool" where
  "entry_sealed sha fr e \<longleftrightarrow> list_all scalar (entry_canonical fr e) \<and>
     le_entry_hash e = PStr (sha (utf8 (entry_canonical fr e)))"

definition chain_intact :: "(bytes \<Rightarrow> str) \<Rightarrow> (pyval \<Rightarrow> str) \<Rightarrow> pyval \<Rightarrow> ledger_entry list \<Rightarrow> bool" where
  "chain_intact sha fr prev es = (\<exists>n m. chain_loop sha fr prev 0 es = Inr (True, n, m))"

lemma chain_loop_shift:
  "(\<exists>n m. chain_loop sha fr prev i es = Inr (True, n, m)) = (\<exists>n m. chain_loop sha fr prev j es = Inr (True, n, m))"
  by (induction es arbitrary: prev i j) auto

lemma chain_loop_count: "chain_loop sha fr prev i es = Inr (True, n, m) \<Longrightarrow> n = i + length es"
  by (induction es arbitrary: prev i) (fastforce split: if_splits)+

interpretation vault: hash_chain le_prev_hash le_entry_hash "entry_sealed sha fr" "chain_intact sha fr" for sha fr
proof
  fix p e es
  show "chain_intact sha fr p (e # es) = (le_prev_hash e = p \<and> entry_sealed sha fr e \<and> chain_intact sha fr (le_entry_hash e) es)"
    using chain_loop_shift [of sha fr "le_entry_hash e" "Suc 0" es 0] by (auto simp: chain_intact_def entry_sealed_def)
qed (simp add: chain_intact_def)

lemma verify_chain_intact: "(\<exists>n m. verify_chain sha fr l = Inr (True, n, m)) = chain_intact sha fr GENESIS (vl_entries l)"
  by (simp add: verify_chain_def chain_intact_def)

lemma verify_chain_count: "verify_chain sha fr l = Inr (True, n, m) \<Longrightarrow> n = length (vl_entries l)"
  by (auto simp: verify_chain_def split: if_splits dest: chain_loop_count)

text \<open>
  The canonical text is the fields joined by bars, so it determines the entry when no field holds one: the
  entries that \<^verbatim>\<open>record\<close> makes for such events.
\<close>

definition entry_shape :: "ledger_entry \<Rightarrow> bool" where
  "entry_shape e \<longleftrightarrow> (\<exists>seq ts ev sid ph d m c sig p h. e = \<lparr>le_sequence = PInt seq, le_timestamp = PStr ts, le_event_type = PStr ev,
     le_session_id = PStr sid, le_payload_hash = PStr ph, le_depth = PStr d, le_maligna_count = PInt m, le_condemned = PBool c,
     le_verdict_sig = PStr sig, le_prev_hash = PStr p, le_entry_hash = PStr h\<rparr> \<and>
     list_all (\<lambda>s. 124 \<notin> set s) [ts, ev, sid, ph, d, sig, p])"

lemma int_str_bar: "124 \<notin> set (int_str n)"
  using int_str_num [of 124 n] by (auto simp: num_char_def)

lemma canonical_inj:
  assumes "entry_shape e" "entry_shape f" "entry_canonical fr e = entry_canonical fr f" "le_entry_hash e = le_entry_hash f"
  shows "e = f"
proof -
  have no_bar: "\<forall>t \<in> set (entry_texts fr e). 124 \<notin> set t" if "entry_shape e" for e
    using that int_str_bar by (auto simp: entry_shape_def entry_texts_def py_str_def U_def split: if_splits)
  have "entry_texts fr e \<noteq> []" for e by (simp add: entry_texts_def)
  then have "entry_texts fr e = entry_texts fr f"
    using assms(1-3) no_bar split_on_join by (metis entry_canonical_def)
  then show ?thesis using assms(1,2,4)
    by (auto simp: entry_shape_def entry_texts_def py_str_def int_str_inj split: if_splits)
qed

interpretation vault: binding_chain le_prev_hash le_entry_hash "entry_sealed sha fr" "chain_intact sha fr"
  "\<lambda>e. utf8 (entry_canonical fr e)" "\<lambda>b. PStr (sha b)" entry_shape for sha fr
proof
  fix e f
  assume e: "entry_sealed sha fr e" "entry_sealed sha fr f" "entry_shape e" "entry_shape f"
    and "utf8 (entry_canonical fr e) = utf8 (entry_canonical fr f)"
  then have "entry_canonical fr e = entry_canonical fr f" using utf8_inj by (auto simp: entry_sealed_def)
  moreover from this e have "le_entry_hash e = le_entry_hash f" by (simp add: entry_sealed_def)
  ultimately show "e = f" using canonical_inj e by blast
qed (simp add: entry_sealed_def)

section \<open>Histories of one ledger\<close>

text \<open>An event: time text, whether the write succeeds, event type, payload, depth, count and verdict.\<close>

type_synonym ledger_event = "str \<times> bool \<times> str \<times> str \<times> str \<times> int \<times> bool"

definition record_event ::
  "(bytes \<Rightarrow> str) \<Rightarrow> (bytes \<Rightarrow> bytes \<Rightarrow> str) \<Rightarrow> (pyval \<Rightarrow> str) \<Rightarrow> ledger_event \<Rightarrow> vault_ledger \<Rightarrow> vault_ledger" where
  "record_event sha hm fr = (\<lambda>(ts, ok, ev, payload, d, n, c) l. snd (ledger_record sha hm fr ts ok ev payload d n c l))"

definition record_all ::
  "(bytes \<Rightarrow> str) \<Rightarrow> (bytes \<Rightarrow> bytes \<Rightarrow> str) \<Rightarrow> (pyval \<Rightarrow> str) \<Rightarrow> ledger_event list \<Rightarrow> vault_ledger \<Rightarrow> vault_ledger" where
  "record_all sha hm fr evs l = fold (record_event sha hm fr) evs l"

lemma record_Inr:
  assumes "ledger_record sha hm fr ts ok ev payload d n c l = (Inr e, l')"
  shows "vl_entries l' = vl_entries l @ [e]" "entry_sealed sha fr e" "vl_has_path l' = vl_has_path l"
    "vl_file l' = (if vl_has_path l \<and> ok then Some ((case vl_file l of None \<Rightarrow> [] | Some t \<Rightarrow> t) @ json_lines fr [entry_dict e])
       else vl_file l)"
    "vl_seq l' = py_succ (vl_seq l)" "le_prev_hash e = chain_head le_entry_hash GENESIS (vl_entries l)"
    "\<exists>sig q h. e = \<lparr>le_sequence = vl_seq l', le_timestamp = PStr ts, le_event_type = PStr ev,
       le_session_id = PStr (fingerprint (vl_seal l)), le_payload_hash = PStr (sha (utf8 payload)), le_depth = PStr d,
       le_maligna_count = PInt n, le_condemned = PBool c, le_verdict_sig = PStr sig, le_prev_hash = q, le_entry_hash = PStr h\<rparr> \<and>
       sig = hm (ss_signing_key (vl_seal l)) (utf8 (seal_text (vl_seal l) (sha (utf8 payload)) d c))"
    "vl_seal l' = (vl_seal l)\<lparr>ss_verdicts_signed := ss_verdicts_signed (vl_seal l) + 1\<rparr>"
  using assms
  by (auto simp: ledger_record_def seal_sign_def write_entry_def entry_sealed_def json_lines_def chain_head_def
      fingerprint_def entry_canonical_def entry_texts_def Let_def split: if_splits sum.splits prod.splits)

lemma record_Inl:
  assumes "ledger_record sha hm fr ts ok ev payload d n c l = (Inl e, l')"
  shows "vl_entries l' = vl_entries l" "vl_file l' = vl_file l" "vl_has_path l' = vl_has_path l"
    "vl_seq l' = vl_seq l \<or> vl_seq l' = py_succ (vl_seq l)"
    "ss_session_id (vl_seal l') = ss_session_id (vl_seal l)" "ss_signing_key (vl_seal l') = ss_signing_key (vl_seal l)"
  using assms
  by (auto simp: ledger_record_def seal_sign_def Let_def split: if_splits sum.splits prod.splits)

section \<open>What the file holds\<close>

text \<open>The shape of an entry that this ledger made.\<close>

definition made_entry :: "ledger_entry \<Rightarrow> bool" where
  "made_entry e \<longleftrightarrow> (\<exists>k ts ev sid ph d m c sig p h. e = \<lparr>le_sequence = PInt k, le_timestamp = PStr ts, le_event_type = PStr ev,
     le_session_id = PStr sid, le_payload_hash = PStr ph, le_depth = PStr d, le_maligna_count = PInt m, le_condemned = PBool c,
     le_verdict_sig = PStr sig, le_prev_hash = PStr p, le_entry_hash = PStr h\<rparr> \<and> 0 < k \<and>
     list_all (list_all scalar) [ts, ev, sid, ph, d, sig, p, h])"

definition seq_of :: "ledger_entry \<Rightarrow> int" where
  "seq_of e = (case le_sequence e of PInt k \<Rightarrow> k | _ \<Rightarrow> 0)"

definition ledger_inv :: "(bytes \<Rightarrow> str) \<Rightarrow> (pyval \<Rightarrow> str) \<Rightarrow> vault_ledger \<Rightarrow> bool" where
  "ledger_inv sha fr l \<longleftrightarrow> vl_has_path l \<and> list_all made_entry (vl_entries l) \<and>
     (case vl_file l of None \<Rightarrow> [] | Some t \<Rightarrow> t) = json_lines fr (map entry_dict (vl_entries l)) \<and>
     (\<exists>n \<ge> 0. vl_seq l = PInt n \<and> sorted_wrt (<) (map seq_of (vl_entries l)) \<and> (\<forall>e \<in> set (vl_entries l). seq_of e \<le> n)) \<and>
     chain_intact sha fr GENESIS (vl_entries l)"

lemma join_all: "list_all P (join sep xs) \<Longrightarrow> x \<in> set xs \<Longrightarrow> list_all P x"
  by (induction xs rule: induct_list012) auto

lemma hex_scalar: "hex_sha sha \<Longrightarrow> list_all scalar (sha m)"
  using hex_char_plain [of "sha m"] ascii_scalar by (auto simp: hex_sha_def)

lemma head_text:
  "list_all made_entry es \<Longrightarrow> \<exists>p. chain_head le_entry_hash GENESIS es = PStr p \<and> list_all scalar p"
  by (cases es rule: rev_cases) (auto simp: made_entry_def GENESIS_def scalar_def list_all_iff)

lemma made_recorded:
  assumes "ledger_record sha hm fr ts ok ev payload d n c l = (Inr e, l')" "hex_sha sha" "ledger_inv sha fr l"
  shows "made_entry e \<and> (\<forall>f \<in> set (vl_entries l). seq_of f < seq_of e) \<and> vl_seq l' = PInt (seq_of e)"
proof -
  note r = record_Inr [OF assms(1)]
  obtain k where k: "0 \<le> k" "vl_seq l = PInt k" "\<forall>f \<in> set (vl_entries l). seq_of f \<le> k"
    using assms(3) by (auto simp: ledger_inv_def)
  obtain p where p: "chain_head le_entry_hash GENESIS (vl_entries l) = PStr p" "list_all scalar p"
    using head_text assms(3) by (auto simp: ledger_inv_def)
  obtain sig q h where e: "e = \<lparr>le_sequence = vl_seq l', le_timestamp = PStr ts, le_event_type = PStr ev,
       le_session_id = PStr (fingerprint (vl_seal l)), le_payload_hash = PStr (sha (utf8 payload)), le_depth = PStr d,
       le_maligna_count = PInt n, le_condemned = PBool c, le_verdict_sig = PStr sig, le_prev_hash = q, le_entry_hash = PStr h\<rparr>"
    using r(7) by blast
  have s: "vl_seq l' = PInt (k + 1)" using r(5) k(2) by (simp add: py_succ_def)
  have q: "q = PStr p" using e r(6) p(1) by simp
  have "le_entry_hash e = PStr h" using e by simp
  with r(2) have "h = sha (utf8 (entry_canonical fr e))" by (simp add: entry_sealed_def)
  then have h: "list_all scalar h" using hex_scalar [OF assms(2)] by simp
  have sc: "list_all scalar (join [124] (entry_texts fr e))" using r(2) by (simp add: entry_sealed_def entry_canonical_def)
  have "list_all scalar t" if "t \<in> set (entry_texts fr e)" for t using join_all [OF sc that] .
  then have "list_all (list_all scalar) [ts, ev, fingerprint (vl_seal l), sha (utf8 payload), d, sig, p, h]"
    using e q h by (simp add: entry_texts_def py_str_def)
  then have "made_entry e" unfolding made_entry_def e s q using k(1) by fastforce
  moreover have "seq_of e = k + 1" using e s by (simp add: seq_of_def)
  ultimately show ?thesis using k(3) s by auto
qed

lemma inv_record_event:
  assumes "ledger_inv sha fr l" "hex_sha sha" "fst (snd ev)"
  shows "ledger_inv sha fr (record_event sha hm fr ev l)"
proof -
  obtain ts ok event payload d n c where ev: "ev = (ts, ok, event, payload, d, n, c)" by (cases ev) auto
  obtain r l' where run: "ledger_record sha hm fr ts ok event payload d n c l = (r, l')" by force
  have "ledger_inv sha fr l'"
  proof (cases r)
    case (Inl e)
    note f = record_Inl [OF run [unfolded Inl]]
    obtain k where k: "0 \<le> k" "vl_seq l = PInt k" "\<forall>f \<in> set (vl_entries l). seq_of f \<le> k"
      using assms(1) by (auto simp: ledger_inv_def)
    have up: "\<forall>f \<in> set (vl_entries l). seq_of f \<le> k + 1" using k(3) by (meson add_increasing2 zero_le_one)
    from f(4) k(2) consider "vl_seq l' = PInt k" | "vl_seq l' = PInt (k + 1)" by (auto simp: py_succ_def)
    then have "\<exists>n \<ge> 0. vl_seq l' = PInt n \<and> (\<forall>e \<in> set (vl_entries l). seq_of e \<le> n)"
    proof cases
      case 2
      then show ?thesis using up k(1) by (intro exI [of _ "k + 1"]) simp
    qed (use k in auto)
    then show ?thesis using assms(1) f by (auto simp: ledger_inv_def)
  next
    case (Inr e)
    note f = record_Inr [OF run [unfolded Inr]]
    note m = made_recorded [OF run [unfolded Inr] assms(2,1)]
    have "0 \<le> seq_of e" using m by (auto simp: made_entry_def seq_of_def)
    moreover have "chain_intact sha fr GENESIS (vl_entries l @ [e])"
      using assms(1) f(2,6) by (simp add: vault.chain_snoc ledger_inv_def)
    ultimately show ?thesis using assms(1,3) f(1,3,4) m ev
      by (auto simp: ledger_inv_def sorted_wrt_append intro!: exI [of _ "seq_of e"] less_imp_le)
  qed
  then show ?thesis by (simp add: record_event_def ev run)
qed

lemma inv_record_all:
  "ledger_inv sha fr l \<Longrightarrow> hex_sha sha \<Longrightarrow> list_all (\<lambda>ev. fst (snd ev)) evs \<Longrightarrow> ledger_inv sha fr (record_all sha hm fr evs l)"
  unfolding record_all_def by (induction evs arbitrary: l) (auto intro: inv_record_event)

lemma made_dict:
  assumes "made_entry e"
  shows "plain (PDict (entry_dict e))" "keep_norm (PDict (entry_dict e)) = PDict (entry_dict e)"
    "entry_of (PDict (entry_dict e)) = Some e" "le_sequence e = PInt (seq_of e)" "0 < seq_of e" "entry_dict e \<noteq> []"
proof -
  show "entry_of (PDict (entry_dict e)) = Some e"
    by (simp add: entry_of_def entry_dict_def entry_fields_def dget_def dkeys_def)
qed (use assms in \<open>auto simp: made_entry_def entry_dict_def seq_of_def\<close>)

lemma load_made:
  assumes "float_reads fr fp"
  shows "list_all made_entry xs \<Longrightarrow>
    load_entries fp (map (\<lambda>e. dumps_flat fr (PDict (entry_dict e))) xs @ [[]]) es (PInt a) =
      (es @ xs, PInt (fold max (map seq_of xs) a))"
proof (induction xs arbitrary: es a)
  case Nil
  then show ?case by (simp add: strip_def lstrip_def rstrip_by_def)
next
  case (Cons e xs)
  then have m: "made_entry e" by simp
  have "json_loads fp (dumps_flat fr (PDict (entry_dict e))) = Some (PDict (entry_dict e))"
    using loads_flat [OF assms made_dict(1) [OF m]] made_dict(2) [OF m] by simp
  moreover have "(if (of_int a :: pyfloat) < of_int (seq_of e) then PInt (seq_of e) else PInt a) = PInt (max (seq_of e) a)"
    by auto
  ultimately show ?case using Cons made_dict(3,4,6) [OF m]
    by (simp add: strip_dict py_num_def)
qed

lemma fold_max_le: "a \<le> b \<Longrightarrow> \<forall>x \<in> set xs. x \<le> b \<Longrightarrow> fold max xs a \<le> (b :: int)"
  by (induction xs arbitrary: a) auto

lemma fold_max_sorted:
  assumes "sorted_wrt (<) xs" "\<forall>x \<in> set xs. 0 < x"
  shows "fold max xs 0 = (if xs = [] then 0 else last xs :: int)"
proof (cases xs rule: rev_cases)
  case (snoc ys y)
  then have "fold max ys 0 \<le> y" using assms by (intro fold_max_le) (auto simp: sorted_wrt_append less_imp_le)
  then show ?thesis by (simp add: snoc)
qed simp

text \<open>Sealing a list of entries anew, as anybody can who knows the format.\<close>

fun reseal :: "(bytes \<Rightarrow> str) \<Rightarrow> (pyval \<Rightarrow> str) \<Rightarrow> pyval \<Rightarrow> ledger_entry list \<Rightarrow> ledger_entry list" where
  "reseal sha fr p [] = []"
| "reseal sha fr p (e # es) =
     (let e = e\<lparr>le_prev_hash := p\<rparr>; h = PStr (sha (utf8 (entry_canonical fr e)))
      in e\<lparr>le_entry_hash := h\<rparr> # reseal sha fr h es)"

definition without_hash :: "ledger_entry \<Rightarrow> ledger_entry" where
  "without_hash e = e\<lparr>le_prev_hash := GENESIS, le_entry_hash := GENESIS\<rparr>"

lemma reseal_contents: "map without_hash (reseal sha fr p es) = map without_hash es"
  by (induction es arbitrary: p) (simp_all add: without_hash_def Let_def)

lemma canonical_hash [simp]: "entry_canonical fr (e\<lparr>le_entry_hash := h\<rparr>) = entry_canonical fr e"
  by (simp add: entry_canonical_def entry_texts_def)

lemma join_scalar: "list_all (list_all scalar) xs \<Longrightarrow> list_all scalar (join [124] xs)"
  by (induction xs rule: induct_list012) (auto simp: scalar_def)

lemma reseal_intact:
  assumes "hex_sha sha" "list_all (\<lambda>e. list_all scalar (entry_canonical fr (without_hash e))) es" "list_all scalar p"
  shows "chain_intact sha fr (PStr p) (reseal sha fr (PStr p) es)"
  using assms(2,3)
proof (induction es arbitrary: p)
  case Nil
  then show ?case by (simp add: vault.chain_Nil)
next
  case (Cons e es)
  let ?e = "e\<lparr>le_prev_hash := PStr p\<rparr>"
  let ?h = "sha (utf8 (entry_canonical fr ?e))"
  have "list_all scalar (join [124] (entry_texts fr (without_hash e)))" using Cons.prems(1) by (simp add: entry_canonical_def)
  then have "list_all scalar t" if "t \<in> set (entry_texts fr (without_hash e))" for t using join_all that by blast
  then have "list_all (list_all scalar) (entry_texts fr ?e)"
    using Cons.prems(2) by (auto simp: entry_texts_def without_hash_def py_str_def)
  then have "list_all scalar (entry_canonical fr ?e)" unfolding entry_canonical_def by (rule join_scalar)
  moreover have "chain_intact sha fr (PStr ?h) (reseal sha fr (PStr ?h) es)"
    by (rule Cons.IH) (use Cons.prems(1) hex_scalar [OF assms(1)] in auto)
  ultimately show ?case by (simp add: vault.chain_Cons entry_sealed_def Let_def)
qed

text \<open>
  A bar in the event type makes the canonical text ambiguous: every field can be read as its left neighbour.
\<close>

definition shifted :: "str \<Rightarrow> str \<Rightarrow> (pyval \<Rightarrow> str) \<Rightarrow> ledger_entry \<Rightarrow> ledger_entry" where
  "shifted a b fr e = e\<lparr>le_event_type := PStr a, le_session_id := PStr b, le_payload_hash := le_session_id e,
     le_depth := le_payload_hash e, le_maligna_count := le_depth e, le_condemned := le_maligna_count e,
     le_verdict_sig := PStr (py_str fr (le_condemned e) @ 124 # py_str fr (le_verdict_sig e))\<rparr>"

lemma bar_shift:
  assumes "le_event_type e = PStr (a @ 124 # b)" "entry_sealed sha fr e"
  shows "entry_sealed sha fr (shifted a b fr e) \<and> le_prev_hash (shifted a b fr e) = le_prev_hash e \<and>
    le_entry_hash (shifted a b fr e) = le_entry_hash e \<and> shifted a b fr e \<noteq> e"
proof -
  have "entry_canonical fr (shifted a b fr e) = entry_canonical fr e"
    by (simp add: entry_canonical_def entry_texts_def shifted_def assms(1) py_str_def)
  moreover have "le_event_type (shifted a b fr e) \<noteq> le_event_type e" using assms(1) by (simp add: shifted_def)
  ultimately show ?thesis using assms(2) by (auto simp: entry_sealed_def) (simp_all add: shifted_def)
qed

section \<open>The threat archive\<close>

record threat_archive =
  ta_fingerprint :: str
  ta_signing_key :: bytes
  ta_count :: nat
  ta_file :: "str option"

text \<open>\<^verbatim>\<open>archive\<close>: the tag covers the record with sorted keys; a failed write answers with an empty tag.\<close>

definition archive ::
  "(bytes \<Rightarrow> bytes \<Rightarrow> str) \<Rightarrow> (pyval \<Rightarrow> str) \<Rightarrow> str \<Rightarrow> bool \<Rightarrow> (str \<times> pyval) list \<Rightarrow> threat_archive \<Rightarrow> str \<times> threat_archive" where
  "archive hm fr ts write_ok malignum_data a =
     (let rec = [(U ''session'', PStr (ta_fingerprint a)), (U ''archived_at'', PStr ts),
                 (U ''sequence'', PInt (int (ta_count a))), (U ''malignum'', PDict malignum_data)];
          tag = hm (ta_signing_key a) (json_default fr (PDict rec));
          rec = rec @ [(U ''integrity_tag'', PStr tag)];
          a = a\<lparr>ta_count := ta_count a + 1\<rparr>
      in if write_ok
         then (tag, a\<lparr>ta_file := Some ((case ta_file a of None \<Rightarrow> [] | Some t \<Rightarrow> t) @ dumps_flat fr (PDict rec) @ [10])\<rparr>)
         else ([], a))"

datatype seed_error = SeedAttribute | SeedType

definition field_or :: "(str \<times> pyval) list \<Rightarrow> string \<Rightarrow> pyval \<Rightarrow> pyval" where
  "field_or d k v = (case dget d (U k) of Some x \<Rightarrow> x | None \<Rightarrow> v)"

fun seed_lines :: "(str \<Rightarrow> pyfloat) \<Rightarrow> int \<Rightarrow> str list \<Rightarrow> (str \<times> pyval) list list \<Rightarrow> seed_error + (str \<times> pyval) list list" where
  "seed_lines fp min_depth [] seeds = Inr seeds"
| "seed_lines fp min_depth (l # ls) seeds =
     (case json_loads fp (strip l) of
        None \<Rightarrow> seed_lines fp min_depth ls seeds
      | Some (PDict rec) \<Rightarrow>
          (case field_or rec ''malignum'' (PDict []) of
             PDict m \<Rightarrow>
               (case py_num (field_or m ''depth_value'' (PInt 0)) of
                  None \<Rightarrow> Inl SeedType
                | Some d \<Rightarrow> seed_lines fp min_depth ls (if of_int min_depth \<le> d then seeds @ [m] else seeds))
           | _ \<Rightarrow> Inl SeedAttribute)
      | Some _ \<Rightarrow> Inl SeedAttribute)"

definition load_seeds :: "(str \<Rightarrow> pyfloat) \<Rightarrow> int \<Rightarrow> threat_archive \<Rightarrow> seed_error + (str \<times> pyval) list list" where
  "load_seeds fp min_depth a =
     (case ta_file a of None \<Rightarrow> Inr [] | Some t \<Rightarrow> seed_lines fp min_depth (file_lines t) [])"

section \<open>The integrity verifier\<close>

type_synonym file_tree = "(str, bytes) dict"

definition register_file :: "(bytes \<Rightarrow> str) \<Rightarrow> file_tree \<Rightarrow> str \<Rightarrow> (str, str) dict \<Rightarrow> str \<times> (str, str) dict" where
  "register_file sha fs path refs =
     (case dget fs path of
        None \<Rightarrow> ([], refs)
      | Some content \<Rightarrow> (sha content, dset path (sha content) refs))"

text \<open>\<^verbatim>\<open>register_package\<close>; \<open>found\<close> is the sorted list of files that \<^verbatim>\<open>rglob\<close> finds.\<close>

definition register_package :: "(bytes \<Rightarrow> str) \<Rightarrow> file_tree \<Rightarrow> str list \<Rightarrow> (str, str) dict \<Rightarrow> nat \<times> (str, str) dict" where
  "register_package sha fs found refs = (length found, fold (\<lambda>p r. snd (register_file sha fs p r)) found refs)"

definition file_name :: "str \<Rightarrow> str" where
  "file_name p = last (split_on 47 p)"

definition verify_files :: "(bytes \<Rightarrow> str) \<Rightarrow> file_tree \<Rightarrow> (str, str) dict \<Rightarrow> bool \<times> str list" where
  "verify_files sha fs refs =
     (let violations = concat (map (\<lambda>(path, ref).
            (case dget fs path of
               None \<Rightarrow> [U ''MISSING: '' @ file_name path]
             | Some content \<Rightarrow>
                 (if sha content \<noteq> ref
                  then [U ''TAMPERED: '' @ file_name path @ U '' (expected '' @ take 16 ref @ U ''... got ''
                          @ take 16 (sha content) @ U ''...)'']
                  else []))) refs)
      in (violations = [], violations))"

section \<open>Properties\<close>

text \<open>a ledger survives a restart: whatever events were recorded into a fresh file (some may have failed to
  encode), reading the file back, under another session, gives the same entries, an intact chain that counts
  them all, and a numbering that goes on after the last of them.\<close>
theorem vault_ledger_reload:
  assumes "float_io fr fp" "hex_sha sha" "list_all (\<lambda>ev. fst (snd ev)) evs"
  shows "let l = record_all sha hm fr evs (open_vault_ledger fp seal True None);
             l' = open_vault_ledger fp seal' True (vl_file l)
    in vl_entries l' = vl_entries l \<and>
       (\<exists>m. verify_chain sha fr l' = Inr (True, length (vl_entries l), m)) \<and>
       vl_seq l' = (if vl_entries l = [] then PInt 0 else le_sequence (last (vl_entries l)))"
proof -
  let ?l0 = "open_vault_ledger fp seal True None"
  define l where "l = record_all sha hm fr evs ?l0"
  have "ledger_inv sha fr ?l0"
    by (simp add: ledger_inv_def open_vault_ledger_def json_lines_def vault.chain_Nil)
  then have inv: "ledger_inv sha fr l" using inv_record_all assms(2,3) by (simp add: l_def)
  then have made: "list_all made_entry (vl_entries l)" by (simp add: ledger_inv_def)
  have fr: "float_text fr" "float_reads fr fp" using assms(1) by (simp_all add: float_io_def)
  let ?xs = "map seq_of (vl_entries l)"
  have srt: "sorted_wrt (<) ?xs" "\<forall>x \<in> set ?xs. 0 < x"
    using inv made made_dict(5) by (auto simp: ledger_inv_def list_all_iff)
  have pl: "list_all (\<lambda>d. plain (PDict d)) (map entry_dict (vl_entries l))"
    using made made_dict(1) by (auto simp: list_all_iff simp del: plain.simps)
  have "load_entries fp (map (\<lambda>e. dumps_flat fr (PDict (entry_dict e))) (vl_entries l) @ [[]]) [] (PInt 0) =
      (vl_entries l, PInt (if vl_entries l = [] then 0 else last ?xs))"
    using load_made [OF fr(2) made, of "[]" 0] fold_max_sorted [OF srt] by simp
  moreover have "vl_file l = None \<longrightarrow> vl_entries l = []" "\<forall>t. vl_file l = Some t \<longrightarrow> t = json_lines fr (map entry_dict (vl_entries l))"
    using inv by (auto simp: ledger_inv_def json_lines_def)
  ultimately have o: "open_vault_ledger fp seal' True (vl_file l) = \<lparr>vl_seal = seal', vl_entries = vl_entries l,
      vl_seq = PInt (if vl_entries l = [] then 0 else last ?xs), vl_has_path = True, vl_file = vl_file l\<rparr>"
    using file_lines_json [OF fr(1) pl] by (cases "vl_file l") (simp_all add: open_vault_ledger_def comp_def)
  have q: "vl_entries l \<noteq> [] \<Longrightarrow> le_sequence (last (vl_entries l)) = PInt (last ?xs)"
    using made made_dict(4) [of "last (vl_entries l)"] by (simp add: last_map list_all_iff)
  have "chain_intact sha fr GENESIS (vl_entries l)" using inv by (simp add: ledger_inv_def)
  then obtain n m where v: "verify_chain sha fr (open_vault_ledger fp seal' True (vl_file l)) = Inr (True, n, m)"
    using verify_chain_intact [of sha fr "open_vault_ledger fp seal' True (vl_file l)"] o by auto
  then have "n = length (vl_entries l)" using verify_chain_count [OF v] o by simp
  with v o q show ?thesis by (auto simp: Let_def l_def [symmetric])
qed

text \<open>tamper evidence of the vault's ledger: two chains that verify and end in the same hash have the same
  entries, unless two different entries have the same SHA-256 or one hashes to the genesis value; provided no
  text in them holds a bar, the separator of the hashed form.\<close>
theorem vault_chains_agree:
  assumes "verify_chain sha fr l = Inr (True, n, m)" "verify_chain sha fr l' = Inr (True, n', m')"
    and "list_all entry_shape (vl_entries l @ vl_entries l')"
    and "chain_head le_entry_hash GENESIS (vl_entries l) = chain_head le_entry_hash GENESIS (vl_entries l')"
  shows "vl_entries l = vl_entries l' \<or>
    (\<exists>e \<in> set (vl_entries l). \<exists>f \<in> set (vl_entries l'). utf8 (entry_canonical fr e) \<noteq> utf8 (entry_canonical fr f) \<and>
       sha (utf8 (entry_canonical fr e)) = sha (utf8 (entry_canonical fr f))) \<or>
    (\<exists>e \<in> set (vl_entries l) \<union> set (vl_entries l'). PStr (sha (utf8 (entry_canonical fr e))) = GENESIS)"
proof -
  have "chain_intact sha fr GENESIS (vl_entries l)" "chain_intact sha fr GENESIS (vl_entries l')"
    using assms(1,2) verify_chain_intact by metis+
  from vault.head_binds [OF this _ assms(4)] assms(3) show ?thesis by (auto simp: list_all_iff)
qed

text \<open>the chain alone proves nothing about who wrote it: any contents whatever, with any verdicts, counts and
  signatures, can be sealed into a chain that verifies, without a key. The signature of the session is stored in
  every entry and never checked.\<close>
theorem chain_forged_without_key:
  assumes "hex_sha sha" "list_all (\<lambda>e. list_all scalar (entry_canonical fr (without_hash e))) es"
  shows "map without_hash (reseal sha fr GENESIS es) = map without_hash es \<and>
    (\<exists>m. verify_chain sha fr (l\<lparr>vl_entries := reseal sha fr GENESIS es\<rparr>) = Inr (True, length es, m))"
proof -
  let ?l = "l\<lparr>vl_entries := reseal sha fr GENESIS es\<rparr>"
  have "chain_intact sha fr GENESIS (reseal sha fr GENESIS es)"
    unfolding GENESIS_def by (rule reseal_intact [OF assms]) (simp add: list_all_iff scalar_def)
  then obtain n m where v: "verify_chain sha fr ?l = Inr (True, n, m)" using verify_chain_intact [of sha fr ?l] by auto
  have "length (reseal sha fr GENESIS es) = length es"
    using arg_cong [OF reseal_contents [of sha fr GENESIS es], of length] by simp
  with v verify_chain_count [OF v] reseal_contents show ?thesis by auto
qed

section \<open>Witnesses\<close>

definition demo_seal :: session_seal where
  "demo_seal = \<lparr>ss_session_id = U ''ab'', ss_created_at = U ''t'', ss_signing_key = [1], ss_verdicts_signed = 0\<rparr>"

definition demo_events :: "ledger_event list" where
  "demo_events = [(U ''t1'', True, U ''adjudication'', U ''hi'', U ''VOID'', 0, False),
     (U ''t2'', True, U ''storm'', U ''rm -rf'', U ''GRAVE'', 2, True)]"

definition demo_entry :: ledger_entry where
  "demo_entry = \<lparr>le_sequence = PInt 1, le_timestamp = PStr (U ''t''), le_event_type = PStr (U ''e''),
     le_session_id = PStr (U ''s''), le_payload_hash = PStr (U ''p''), le_depth = PStr (U ''VOID''),
     le_maligna_count = PInt 0, le_condemned = PBool False, le_verdict_sig = PStr (U ''x''),
     le_prev_hash = GENESIS, le_entry_hash = GENESIS\<rparr>"

definition demo_ledger :: vault_ledger where
  "demo_ledger = \<lparr>vl_seal = demo_seal, vl_entries = [demo_entry], vl_seq = PInt 1, vl_has_path = False, vl_file = None\<rparr>"

lemma demo_canonical: "list_all scalar (entry_canonical ratio_text demo_entry)"
  by (simp add: entry_canonical_def entry_texts_def demo_entry_def py_str_def GENESIS_def int_str_def nat_str_def
      nat_digits.simps scalar_def U_def list_all_iff)

lemma demo_verifies: "\<exists>m. verify_chain flat_sha ratio_text demo_ledger = Inr (True, 1, m)"
  using demo_canonical by (simp add: verify_chain_def demo_ledger_def) (simp add: demo_entry_def GENESIS_def flat_sha_def)

theorem vault_ledger_reload_witness:
  "let l = record_all flat_sha flat_hmac ratio_text demo_events (open_vault_ledger ratio_read demo_seal True None);
       l' = open_vault_ledger ratio_read demo_seal True (vl_file l)
    in vl_entries l' = vl_entries l \<and>
       (\<exists>m. verify_chain flat_sha ratio_text l' = Inr (True, length (vl_entries l), m)) \<and>
       vl_seq l' = (if vl_entries l = [] then PInt 0 else le_sequence (last (vl_entries l)))"
  by (rule vault_ledger_reload [OF ratio_io flat_sha_hex]) (simp add: demo_events_def)

theorem vault_chains_agree_witness:
  "vl_entries demo_ledger = vl_entries demo_ledger \<or>
    (\<exists>e \<in> set (vl_entries demo_ledger). \<exists>f \<in> set (vl_entries demo_ledger).
       utf8 (entry_canonical ratio_text e) \<noteq> utf8 (entry_canonical ratio_text f) \<and>
       flat_sha (utf8 (entry_canonical ratio_text e)) = flat_sha (utf8 (entry_canonical ratio_text f))) \<or>
    (\<exists>e \<in> set (vl_entries demo_ledger) \<union> set (vl_entries demo_ledger).
       PStr (flat_sha (utf8 (entry_canonical ratio_text e))) = GENESIS)"
proof -
  obtain m where v: "verify_chain flat_sha ratio_text demo_ledger = Inr (True, 1, m)" using demo_verifies by blast
  have "entry_shape demo_entry"
    by (simp add: entry_shape_def demo_entry_def GENESIS_def U_def) (rule exI [where x = False], simp)
  then have "list_all entry_shape (vl_entries demo_ledger @ vl_entries demo_ledger)" by (simp add: demo_ledger_def)
  from vault_chains_agree [OF v v this refl] show ?thesis .
qed

theorem chain_forged_without_key_witness:
  "\<exists>m. verify_chain flat_sha ratio_text
     (demo_ledger\<lparr>vl_entries := reseal flat_sha ratio_text GENESIS [demo_entry, demo_entry\<lparr>le_condemned := PBool True\<rparr>]\<rparr>)
   = Inr (True, 2, m)"
proof -
  have "list_all (\<lambda>e. list_all scalar (entry_canonical ratio_text (without_hash e))) [demo_entry, demo_entry\<lparr>le_condemned := PBool True\<rparr>]"
    by (simp add: entry_canonical_def entry_texts_def demo_entry_def without_hash_def py_str_def GENESIS_def int_str_def nat_str_def
      nat_digits.simps scalar_def U_def list_all_iff)
  from chain_forged_without_key [OF flat_sha_hex this, of demo_ledger] show ?thesis
    by (simp del: reseal.simps add: numeral_2_eq_2)
qed

end
