(* ===== verification/VitalityGate.thy ===== *)
theory VitalityGate
  imports AegisSession
begin

text \<open>
  \<^verbatim>\<open>vitality/protocol.py\<close>: the baseline that normalises a payload, the stress buffer (token bucket,
  circuit breaker, throttle), the boost, the monitor and \<^verbatim>\<open>adjudicate_with_vitality\<close>, which puts
  them around a guard. The guard is an argument: a function from its state, a payload and a context to a
  verdict and a state, so that what is shown holds with and without the nutrient packs; \<open>aegis_core\<close> is
  the plain one. \<open>nfc\<close> stands for Unicode normalisation, \<open>fp\<close> for \<^verbatim>\<open>float\<close> of a text, \<open>now\<close> for the
  monotonic clock. Times and rates are floats. Sleeping is left out.
\<close>

section \<open>ProbiomicBaseline\<close>

definition newline_run :: rx where "newline_run = RRep True 4 None (RSet False [CRange 10 10])"
definition blank_run :: rx where "blank_run = RRep True 10 None (RSet False [CRange 32 32, CRange 9 9])"

definition control_char :: "nat \<Rightarrow> bool" where
  "control_char c \<longleftrightarrow> c \<le> 8 \<or> c = 11 \<or> c = 12 \<or> (14 \<le> c \<and> c \<le> 31) \<or> c = 127"

definition probiome :: "(str \<Rightarrow> str) \<Rightarrow> str \<Rightarrow> str \<times> str list" where
  "probiome nfc payload =
     (let p1 = nfc payload;
          o1 = (if p1 \<noteq> payload then [U ''charset_normalization: NFC normalization applied''] else []);
          n = length p1;
          o2 = (if 100000 < n then [U ''length_enforcement: HARD LIMIT exceeded ('' @ commas n @ U '' chars) '' @ [0x2014] @ U '' truncated'']
                else if 10000 < n then [U ''length_enforcement: soft limit exceeded ('' @ commas n @ U '' chars)'']
                else []);
          p2 = take 100000 p1;
          p3 = rx_sub blank_run [32, 32, 32] (rx_sub newline_run [10, 10, 10] p2);
          o3 = (if length p3 \<noteq> length p2
                then [U ''whitespace_sanitization: reduced by '' @ nat_str (length p2 - length p3) @ U '' chars''] else []);
          words = split_ws p3;
          unique_ratio = fdiv (of_nat (length (remdups words))) (of_nat (length words));
          o4 = (if 20 < length words \<and> unique_ratio < fl (1/4)
                then [U ''repetition_prefilter: low lexical diversity '' @ percent1 unique_ratio @ U '' '' @ [0x2014]
                        @ U '' downstream cells alerted''] else []);
          p4 = filter (\<lambda>c. \<not> control_char c) p3;
          o5 = (if length p4 \<noteq> length p3
                then [U ''control_char_strip: '' @ nat_str (length p3 - length p4) @ U '' control chars removed''] else [])
      in (p4, o1 @ o2 @ o3 @ o4 @ o5))"

section \<open>NeuroStressBuffer\<close>

record stress_buffer =
  sb_rate_limit :: pyfloat
  sb_bucket_capacity :: nat
  sb_bucket_tokens :: pyfloat
  sb_last_refill :: pyfloat
  sb_circuit_open :: bool
  sb_circuit_pct :: pyfloat
  sb_latency_ceiling :: pyfloat
  sb_recent_latencies :: "pyfloat list"
  sb_recent_threats :: "nat list"
  sb_threat_window :: nat
  sb_total_throttled :: nat
  sb_total_blocked :: nat

definition new_buffer :: "pyfloat \<Rightarrow> nat \<Rightarrow> pyfloat \<Rightarrow> pyfloat \<Rightarrow> nat \<Rightarrow> pyfloat \<Rightarrow> stress_buffer" where
  "new_buffer rate burst pct latency window now =
     \<lparr>sb_rate_limit = rate, sb_bucket_capacity = burst, sb_bucket_tokens = fl (of_nat burst), sb_last_refill = now,
      sb_circuit_open = False, sb_circuit_pct = pct, sb_latency_ceiling = latency, sb_recent_latencies = [],
      sb_recent_threats = [], sb_threat_window = window * 10, sb_total_throttled = 0, sb_total_blocked = 0\<rparr>"

definition default_buffer :: "pyfloat \<Rightarrow> stress_buffer" where
  "default_buffer now = new_buffer 100 200 (fl (8/10)) 50 60 now"

text \<open>\<^verbatim>\<open>deque(maxlen=n).append\<close>.\<close>

definition push :: "nat \<Rightarrow> 'a \<Rightarrow> 'a list \<Rightarrow> 'a list" where
  "push n x xs = tail_from n (xs @ [x])"

definition refill_bucket :: "pyfloat \<Rightarrow> stress_buffer \<Rightarrow> stress_buffer" where
  "refill_bucket now b =
     (let elapsed = fsub now (sb_last_refill b);
          refill = fmul elapsed (sb_rate_limit b)
      in b\<lparr>sb_bucket_tokens := min (of_nat (sb_bucket_capacity b)) (fadd (sb_bucket_tokens b) refill),
           sb_last_refill := now\<rparr>)"

text \<open>\<^verbatim>\<open>statistics.mean\<close> of floats is the exact mean, rounded once.\<close>

definition float_mean :: "pyfloat list \<Rightarrow> pyfloat" where
  "float_mean xs = fl (sum_list xs / of_nat (length xs))"

definition throttle_delay :: "stress_buffer \<Rightarrow> pyfloat" where
  "throttle_delay b =
     (if sb_recent_latencies b = [] then 0
      else
        (let avg_ms = float_mean (sb_recent_latencies b)
         in if sb_latency_ceiling b < avg_ms
            then (let excess_ratio = fdiv (fsub avg_ms (sb_latency_ceiling b)) (sb_latency_ceiling b)
                  in min (fl (1/10)) (fmul excess_ratio (fl (5/100))))
            else 0))"

definition acquire :: "pyfloat \<Rightarrow> stress_buffer \<Rightarrow> (bool \<times> pyfloat) \<times> stress_buffer" where
  "acquire now b =
     (let b = refill_bucket now b
      in if sb_circuit_open b then ((False, 0), b\<lparr>sb_total_blocked := sb_total_blocked b + 1\<rparr>)
         else if 1 \<le> sb_bucket_tokens b
         then (let b = b\<lparr>sb_bucket_tokens := fsub (sb_bucket_tokens b) 1\<rparr>;
                   delay = throttle_delay b
               in ((True, delay), if 0 < delay then b\<lparr>sb_total_throttled := sb_total_throttled b + 1\<rparr> else b))
         else ((False, fdiv (fsub 1 (sb_bucket_tokens b)) (sb_rate_limit b)),
               b\<lparr>sb_total_blocked := sb_total_blocked b + 1\<rparr>))"

definition update_circuit :: "stress_buffer \<Rightarrow> stress_buffer" where
  "update_circuit b =
     (if length (sb_recent_threats b) < 10 then b
      else
        (let threat_rate = fdiv (of_nat (sum_list (sb_recent_threats b))) (of_nat (length (sb_recent_threats b)))
         in if sb_circuit_pct b \<le> threat_rate then b\<lparr>sb_circuit_open := True\<rparr>
            else if threat_rate < fmul (sb_circuit_pct b) (fl (1/2)) then b\<lparr>sb_circuit_open := False\<rparr>
            else b))"

definition record_result :: "aegis_verdict \<Rightarrow> stress_buffer \<Rightarrow> stress_buffer" where
  "record_result v b =
     update_circuit (b\<lparr>sb_recent_latencies := push 50 (fmul (adjudication_time v) 1000) (sb_recent_latencies b),
       sb_recent_threats := push (sb_threat_window b) (if is_sanctified v then 0 else 1) (sb_recent_threats b)\<rparr>)"

definition stress_load_pct :: "stress_buffer \<Rightarrow> pyfloat" where
  "stress_load_pct b =
     (let used = fsub (of_nat (sb_bucket_capacity b)) (sb_bucket_tokens b)
      in round1 (fmul (fdiv used (of_nat (sb_bucket_capacity b))) 100))"

definition is_under_stress :: "stress_buffer \<Rightarrow> bool" where
  "is_under_stress b \<longleftrightarrow> sb_circuit_open b \<or> 80 < stress_load_pct b"

section \<open>HematopoieticBoost and VitalityMonitor\<close>

text \<open>
  The spawned cells are put into the registry under new names; no stage of the pipeline looks these up, so
  only the names are kept here.
\<close>

record hemato_boost =
  hb_active :: bool
  hb_keys :: "str list"
  hb_count :: nat

definition assess_leukopenia :: "(str \<Rightarrow> pyfloat) \<Rightarrow> str \<times> nat \<Rightarrow> stress_buffer \<Rightarrow> pyfloat option \<Rightarrow> bool" where
  "assess_leukopenia fp cdx b fitness =
     (let stress = is_under_stress b;
          unfit = (case fitness of None \<Rightarrow> False | Some f \<Rightarrow> f < 70);
          encounter_rate = fp (filter (\<lambda>c. c \<noteq> 37) (fst cdx));
          threatened = (40 < encounter_rate \<and> snd cdx < 50)
      in 2 \<le> length (filter (\<lambda>i. i) [stress, unfit, threatened]))"

definition activate_boost :: "nat \<Rightarrow> hemato_boost \<Rightarrow> nat \<times> hemato_boost" where
  "activate_boost boost_factor hb =
     (if hb_active hb then (0, hb)
      else
        (let probes = map (\<lambda>i. U ''vanguard_probe_boost_'' @ nat_str (hb_count hb) @ [95] @ nat_str i) [0..<min 3 boost_factor];
             beacon = U ''taint_beacon_boost_'' @ nat_str (hb_count hb)
         in (length probes + 1,
             \<lparr>hb_active = True, hb_keys = hb_keys hb @ probes @ [beacon], hb_count = hb_count hb + 1\<rparr>)))"

definition release_boost :: "hemato_boost \<Rightarrow> nat \<times> hemato_boost" where
  "release_boost hb =
     (if \<not> hb_active hb then (0, hb)
      else (length (remdups (hb_keys hb)), hb\<lparr>hb_keys := [], hb_active := False\<rparr>))"

record telemetry =
  tm_sanctified :: bool
  tm_condemned :: bool
  tm_depth :: nat
  tm_latency_ms :: pyfloat
  tm_count :: nat

definition monitor_record :: "aegis_verdict \<Rightarrow> telemetry list \<Rightarrow> telemetry list" where
  "monitor_record v w = push 1000 \<lparr>tm_sanctified = is_sanctified v, tm_condemned = is_condemned v,
     tm_depth = depth_value (sovereignty_depth v), tm_latency_ms = fmul (adjudication_time v) 1000,
     tm_count = length (maligna_found v)\<rparr> w"

section \<open>AegisVitality\<close>

type_synonym 'a core = "'a \<Rightarrow> str \<Rightarrow> ctx \<Rightarrow> aegis_verdict \<times> 'a"

record 'a vitality =
  vt_core :: 'a
  vt_buffer :: stress_buffer
  vt_boost :: hemato_boost
  vt_monitor :: "telemetry list"
  vt_fitness :: "pyfloat option"

definition new_vitality :: "'a \<Rightarrow> pyfloat \<Rightarrow> 'a vitality" where
  "new_vitality a now = \<lparr>vt_core = a, vt_buffer = default_buffer now,
     vt_boost = \<lparr>hb_active = False, hb_keys = [], hb_count = 0\<rparr>, vt_monitor = [], vt_fitness = None\<rparr>"

definition blocked_verdict :: aegis_verdict where
  "blocked_verdict = \<lparr>is_sanctified = False, is_condemned = True, sovereignty_depth = CONDEMNED, maligna_found = [],
     purified_payload = None,
     axiological_report = U ''REQUEST BLOCKED '' @ [0x2014] @ U '' NeuroStressBuffer circuit active.'',
     sentinel_chronicle = [U ''NeuroStressBuffer: rate limit exceeded''], adjudication_time = 0\<rparr>"

definition adjudicate_with_vitality ::
  "(str \<Rightarrow> str) \<Rightarrow> (str \<Rightarrow> pyfloat) \<Rightarrow> 'a core \<Rightarrow> ('a \<Rightarrow> str \<times> nat) \<Rightarrow> pyfloat \<Rightarrow> str \<Rightarrow> ctx option \<Rightarrow> 'a vitality
     \<Rightarrow> (aegis_verdict \<times> str list) \<times> 'a vitality" where
  "adjudicate_with_vitality nfc fp g codex_of now payload given v =
     (let context = (case given of None \<Rightarrow> [] | Some c \<Rightarrow> c);
          (processed, observations) = probiome nfc payload;
          context = (if observations = [] then context else dset (U ''probiome_observations'') (CtxStrs observations) context);
          ((permitted, delay), b) = acquire now (vt_buffer v)
      in if \<not> permitted then ((blocked_verdict, observations), v\<lparr>vt_buffer := b\<rparr>)
         else
           (let (verdict, a) = g (vt_core v) processed context;
                b = record_result verdict b;
                hb = (if assess_leukopenia fp (codex_of a) b (vt_fitness v) \<and> \<not> hb_active (vt_boost v)
                      then snd (activate_boost 3 (vt_boost v)) else vt_boost v)
            in ((verdict, observations),
                v\<lparr>vt_core := a, vt_buffer := b, vt_boost := hb, vt_monitor := monitor_record verdict (vt_monitor v)\<rparr>)))"

text \<open>The plain guard, and what the boost reads of its codex.\<close>

definition aegis_core :: "(bytes \<Rightarrow> str) \<Rightarrow> str \<Rightarrow> pyfloat \<Rightarrow> aegis core" where
  "aegis_core sha stamp elapsed a p cx = (let (v, a', _) = adjudicate sha stamp elapsed a p (Some cx) in (v, a'))"

definition aegis_codex_of :: "aegis \<Rightarrow> str \<times> nat" where
  "aegis_codex_of a = (threat_encounter_rate (codex a), antibody_vault_depth (codex a))"

section \<open>Requests in a row\<close>

type_synonym request = "pyfloat \<times> str \<times> ctx option"

definition vitality_step ::
  "(str \<Rightarrow> str) \<Rightarrow> (str \<Rightarrow> pyfloat) \<Rightarrow> 'a core \<Rightarrow> ('a \<Rightarrow> str \<times> nat) \<Rightarrow> request \<Rightarrow> 'a vitality \<Rightarrow> 'a vitality" where
  "vitality_step nfc fp g codex_of = (\<lambda>(now, p, given) v. snd (adjudicate_with_vitality nfc fp g codex_of now p given v))"

lemma acquire_open:
  "sb_circuit_open b \<Longrightarrow> fst (fst (acquire now b)) = False \<and> sb_circuit_open (snd (acquire now b))"
  by (simp add: acquire_def refill_bucket_def Let_def)

lemma vitality_open:
  assumes "sb_circuit_open (vt_buffer v)"
  shows "fst (fst (adjudicate_with_vitality nfc fp g codex_of now p given v)) = blocked_verdict"
    "vt_core (snd (adjudicate_with_vitality nfc fp g codex_of now p given v)) = vt_core v"
    "sb_circuit_open (vt_buffer (snd (adjudicate_with_vitality nfc fp g codex_of now p given v)))"
  using acquire_open [OF assms, of now]
  by (auto simp: adjudicate_with_vitality_def Let_def split: prod.splits)

lemma requests_open:
  assumes "sb_circuit_open (vt_buffer v)"
  shows "vt_core (fold (vitality_step nfc fp g codex_of) rs v) = vt_core v \<and>
    sb_circuit_open (vt_buffer (fold (vitality_step nfc fp g codex_of) rs v))"
  using assms
proof (induction rs arbitrary: v)
  case (Cons r rs)
  obtain now p given where r: "r = (now, p, given)" by (cases r)
  from vitality_open(2,3) [OF Cons.prems, where now = now and p = p and given = given]
  show ?case using Cons.IH [of "vitality_step nfc fp g codex_of r v"] by (simp add: r vitality_step_def)
qed simp

section \<open>How the circuit opens\<close>

text \<open>The buffer of a fresh orchestrator after \<open>n\<close> threats in a row, the last at time \<open>t\<close>.\<close>

definition threatened :: "nat \<Rightarrow> pyfloat \<Rightarrow> stress_buffer \<Rightarrow> bool" where
  "threatened n t b \<longleftrightarrow> sb_rate_limit b = 100 \<and> sb_bucket_capacity b = 200 \<and> of_nat (200 - n) \<le> sb_bucket_tokens b \<and>
     sb_last_refill b = t \<and> (sb_circuit_open b \<longleftrightarrow> n = 10) \<and> sb_circuit_pct b = fl (8/10) \<and>
     sb_recent_threats b = replicate n 1 \<and> sb_threat_window b = 600"

lemma fl_of_nat: "n < 2 ^ 53 \<Longrightarrow> fl (of_nat n) = of_nat n"
  using fl_int [of "int n"] by (cases "n = 0") simp_all

lemma fl_ge_nat: "n < 2 ^ 53 \<Longrightarrow> of_nat n \<le> x \<Longrightarrow> of_nat n \<le> fl x"
  using fl_mono [of "of_nat n" x] fl_of_nat [of n] by simp

lemma threatened_new: "threatened 0 t (default_buffer t)"
  using fl_of_nat [of 200] by (simp add: threatened_def default_buffer_def new_buffer_def)

lemma acquire_threatened:
  assumes "threatened n t b" "n < 10" "t \<le> now"
  shows "fst (fst (acquire now b)) \<and> sb_recent_threats (snd (acquire now b)) = replicate n 1 \<and>
    sb_rate_limit (snd (acquire now b)) = 100 \<and> sb_bucket_capacity (snd (acquire now b)) = 200 \<and>
    of_nat (200 - Suc n) \<le> sb_bucket_tokens (snd (acquire now b)) \<and> sb_last_refill (snd (acquire now b)) = now \<and>
    \<not> sb_circuit_open (snd (acquire now b)) \<and> sb_circuit_pct (snd (acquire now b)) = fl (8/10) \<and>
    sb_threat_window (snd (acquire now b)) = 600"
proof -
  let ?r = "fmul (fsub now t) 100"
  have "0 \<le> ?r" using assms(3) by (simp add: fmul_def fsub_def fl_nonneg)
  then have "of_nat (200 - n) \<le> sb_bucket_tokens b + ?r" using assms(1) by (simp add: threatened_def)
  then have "of_nat (200 - n) \<le> fadd (sb_bucket_tokens b) ?r" unfolding fadd_def by (intro fl_ge_nat) auto
  then have tok: "of_nat (200 - n) \<le> min (200 :: pyfloat) (fadd (sb_bucket_tokens b) ?r)" by simp
  have "of_nat (200 - n) = (of_nat (200 - Suc n) + 1 :: pyfloat)" using assms(2) by (simp add: of_nat_diff)
  with tok have "of_nat (200 - Suc n) \<le> min (200 :: pyfloat) (fadd (sb_bucket_tokens b) ?r) - 1" by linarith
  then have "of_nat (200 - Suc n) \<le> fsub (min 200 (fadd (sb_bucket_tokens b) ?r)) 1"
    unfolding fsub_def by (intro fl_ge_nat) auto
  moreover have "1 \<le> min (200 :: pyfloat) (fadd (sb_bucket_tokens b) ?r)"
    using tok assms(2) of_nat_mono [of 1 "200 - n", where 'a = pyfloat] by linarith
  ultimately show ?thesis using assms
    by (simp add: acquire_def refill_bucket_def threatened_def Let_def)
qed

lemma push_replicate: "n < 600 \<Longrightarrow> push 600 x (replicate n x) = replicate (Suc n) x"
  by (simp add: push_def tail_from_def replicate_append_same)

lemma record_threat:
  assumes "\<not> is_sanctified v" "sb_recent_threats b = replicate n 1" "n < 10" "sb_rate_limit b = 100" "sb_bucket_capacity b = 200"
    "of_nat (200 - Suc n) \<le> sb_bucket_tokens b" "sb_last_refill b = t" "\<not> sb_circuit_open b" "sb_circuit_pct b = fl (8/10)"
    "sb_threat_window b = 600"
  shows "threatened (Suc n) t (record_result v b)"
proof -
  define b' where "b' = b\<lparr>sb_recent_latencies := push 50 (fmul (adjudication_time v) 1000) (sb_recent_latencies b),
    sb_recent_threats := replicate (Suc n) 1\<rparr>"
  have r: "record_result v b = update_circuit b'"
    using assms(1-3,10) push_replicate [of n "1 :: nat"] by (simp add: record_result_def b'_def)
  have "fdiv (of_nat (sum_list (sb_recent_threats b'))) (of_nat (length (sb_recent_threats b'))) = 1"
    by (simp add: b'_def sum_list_replicate fdiv_def del: replicate_Suc)
  moreover have "sb_circuit_pct b' \<le> 1" using assms(9) fl_le_1 [of "8/10"] by (simp add: b'_def)
  ultimately have "update_circuit b' = (if Suc n < 10 then b' else b'\<lparr>sb_circuit_open := True\<rparr>)"
    by (simp add: update_circuit_def Let_def) (simp add: b'_def)
  then show ?thesis using assms by (auto simp: r threatened_def b'_def)
qed

lemma step_threatened:
  assumes "threatened n t (vt_buffer v)" "n < 10" "t \<le> now"
    and "\<And>cx. \<not> is_sanctified (fst (g (vt_core v) (fst (probiome nfc p)) cx))"
  shows "threatened (Suc n) now (vt_buffer (vitality_step nfc fp g codex_of (now, p, given) v)) \<and>
    (\<exists>cx. vt_core (vitality_step nfc fp g codex_of (now, p, given) v) = snd (g (vt_core v) (fst (probiome nfc p)) cx))"
proof -
  obtain q obs where q: "probiome nfc p = (q, obs)" by (cases "probiome nfc p")
  obtain pd b where b: "acquire now (vt_buffer v) = (pd, b)" by (cases "acquire now (vt_buffer v)")
  note a = acquire_threatened [OF assms(1-3), unfolded b]
  have "threatened (Suc n) now (record_result (fst (g (vt_core v) q cx)) b)" for cx
    by (rule record_threat) (use a assms(2,4) q in auto)
  moreover define cx where "cx = (let context = (case given of None \<Rightarrow> [] | Some c \<Rightarrow> c)
    in if obs = [] then context else dset (U ''probiome_observations'') (CtxStrs obs) context)"
  have "vt_buffer (vitality_step nfc fp g codex_of (now, p, given) v) = record_result (fst (g (vt_core v) q cx)) b"
    "vt_core (vitality_step nfc fp g codex_of (now, p, given) v) = snd (g (vt_core v) q cx)"
    using a by (simp_all add: vitality_step_def adjudicate_with_vitality_def q b cx_def split_beta Let_def)
  ultimately show ?thesis using q by auto
qed

lemma threats_open:
  assumes core: "\<And>a cx p. P a \<Longrightarrow> P (snd (g a p cx))"
    and threat: "\<And>a cx p. P a \<Longrightarrow> bad p \<Longrightarrow> \<not> is_sanctified (fst (g a p cx))"
  shows "P (vt_core v) \<Longrightarrow> threatened n t (vt_buffer v) \<Longrightarrow> n + length rs \<le> 10 \<Longrightarrow>
    sorted (t # map fst rs) \<Longrightarrow> list_all (\<lambda>(now, p, given). bad (fst (probiome nfc p))) rs \<Longrightarrow>
    \<exists>t'. threatened (n + length rs) t' (vt_buffer (fold (vitality_step nfc fp g codex_of) rs v))"
proof (induction rs arbitrary: v n t)
  case (Cons r rs)
  obtain now p given where r: "r = (now, p, given)" by (cases r)
  have n: "n < 10" and t: "t \<le> now" using Cons.prems(3,4) r by auto
  have bad: "\<not> is_sanctified (fst (g (vt_core v) (fst (probiome nfc p)) cx))" for cx
    using threat Cons.prems(1,5) r by simp
  note step = step_threatened [where g = g and nfc = nfc and p = p and fp = fp and codex_of = codex_of and given = given,
      OF Cons.prems(2) n t bad]
  have "threatened (Suc n) now (vt_buffer (vitality_step nfc fp g codex_of r v))" "P (vt_core (vitality_step nfc fp g codex_of r v))"
    using step core [OF Cons.prems(1)] r by auto
  from Cons.IH [OF this(2,1)] Cons.prems(3-5) r show ?case by auto
qed auto

section \<open>Properties\<close>

text \<open>the circuit breaker never recovers: it closes only when results are recorded, and no result is recorded
  while it is open, because every request is then refused before the guard sees it. Whatever requests follow,
  at whatever times, the guard is not consulted again and every answer is the same condemnation.\<close>
theorem open_circuit_is_final:
  assumes "sb_circuit_open (vt_buffer v)"
  shows "let w = fold (vitality_step nfc fp g codex_of) rs v
    in sb_circuit_open (vt_buffer w) \<and> vt_core w = vt_core v \<and>
       fst (fst (adjudicate_with_vitality nfc fp g codex_of now p given w)) = blocked_verdict"
  using requests_open [OF assms, of nfc fp g codex_of rs] by (simp add: Let_def vitality_open(1))


definition tripped :: "aegis vitality" where
  "tripped = new_vitality new_aegis 0\<lparr>vt_buffer := (default_buffer 0)\<lparr>sb_circuit_open := True\<rparr>\<rparr>"

theorem open_circuit_is_final_witness:
  "let w = fold (vitality_step id (\<lambda>_. 0) (aegis_core (\<lambda>_. []) [] 0) aegis_codex_of) [(1, U ''hello'', None)] tripped
    in sb_circuit_open (vt_buffer w) \<and> vt_core w = vt_core tripped \<and>
       fst (fst (adjudicate_with_vitality id (\<lambda>_. 0) (aegis_core (\<lambda>_. []) [] 0) aegis_codex_of 3600 (U ''hello'') None w)) = blocked_verdict"
  by (rule open_circuit_is_final) (simp add: tripped_def)

lemma hack_normal: "fst (probiome id hack_probe) = hack_probe"
proof -
  have s: "rx_sub newline_run [10, 10, 10] hack_probe = hack_probe" "rx_sub blank_run [32, 32, 32] hack_probe = hack_probe"
    by (simp_all add: rx_sub_def hack_probe_def U_def newline_run_def blank_run_def match_len_def set_has_def
        rep_exact.simps(2) [of _ 3, simplified] rep_exact.simps(2) [of _ 9, simplified] rep_exact.simps(2) [of _ 8, simplified])
  have "filter (\<lambda>c. \<not> control_char c) hack_probe = hack_probe" "take 100000 hack_probe = hack_probe"
    by (simp_all add: hack_probe_def U_def control_char_def)
  with s show ?thesis by (simp add: probiome_def Let_def)
qed


end
