(* ===== verification/VitalityMemory.thy ===== *)
theory VitalityMemory
  imports AegisSession
begin

text \<open>
  The consolidation of the memory cell, \<^verbatim>\<open>SomnaticCycle\<close> of \<^verbatim>\<open>vitality/protocol.py\<close>: pruning,
  deduplication, promotion and the cleaning of the antibody vault. A sort with \<^verbatim>\<open>reverse=True\<close> keeps
  the order of equal elements, as \<open>sort_key\<close> on the negated key does; a pair as a key is two such sorts.
\<close>

type_synonym engram = "str \<times> maligna_class \<times> corruption_depth"

definition prune_key :: "engram \<Rightarrow> int" where
  "prune_key = (\<lambda>(text, cls, d). int (length text * depth_value d))"

definition phase_prune :: "engram list \<Rightarrow> nat \<times> engram list" where
  "phase_prune original =
     (let scored = take 8000 (sort_key (\<lambda>e. - prune_key e) original);
          filtered = filter (\<lambda>(text, cls, d). 10 \<le> length text) scored
      in (length original - length filtered, filtered))"

type_synonym seen_texts = "(str, maligna_class \<times> corruption_depth) dict"

definition redundant :: "seen_texts \<Rightarrow> str \<Rightarrow> bool" where
  "redundant seen txt = list_ex (\<lambda>existing. str_in existing txt \<and> existing \<noteq> txt) (dkeys seen)"

fun dedup_loop :: "engram list \<Rightarrow> seen_texts \<Rightarrow> nat \<Rightarrow> nat \<times> seen_texts" where
  "dedup_loop [] seen n = (n, seen)"
| "dedup_loop ((txt, cls, d) # es) seen n =
     (if redundant seen txt then dedup_loop es seen (n + 1) else dedup_loop es (dset txt (cls, d) seen) n)"

definition phase_deduplicate :: "engram list \<Rightarrow> nat \<times> engram list" where
  "phase_deduplicate es =
     (let (n, seen) = dedup_loop es [] 0 in (n, map (\<lambda>(txt, cls, d). (txt, cls, d)) seen))"

definition phase_promote :: "engram list \<Rightarrow> nat \<times> engram list" where
  "phase_promote es =
     (min 10 (length es),
      sort_key (\<lambda>(txt, cls, d). - int (depth_value d)) (sort_key (\<lambda>(txt, cls, d). - int (length txt)) es))"

definition phase_rebuild_index :: "engram list \<Rightarrow> (str, malignum) dict \<Rightarrow> (str, malignum) dict" where
  "phase_rebuild_index es vault = filter (\<lambda>(key, m). engram_of m \<in> fst ` set es) vault"

record somnatic_report =
  sr_before_engrams :: nat
  sr_after_engrams :: nat
  sr_before_antibodies :: nat
  sr_after_antibodies :: nat
  sr_pruned :: nat
  sr_deduplicated :: nat
  sr_promoted :: nat
  sr_health_gain :: pyfloat

definition consolidate :: "mnemosyne \<Rightarrow> somnatic_report \<times> mnemosyne" where
  "consolidate m =
     (let (pruned, es1) = phase_prune (memory_engrams m);
          (deduplicated, es2) = phase_deduplicate es1;
          (promoted, es3) = phase_promote es2;
          m' = m\<lparr>memory_engrams := es3, antibody_vault := phase_rebuild_index es3 (antibody_vault m)\<rparr>
      in (\<lparr>sr_before_engrams = length (memory_engrams m), sr_after_engrams = length es3,
           sr_before_antibodies = vault_depth m, sr_after_antibodies = vault_depth m',
           sr_pruned = pruned, sr_deduplicated = deduplicated, sr_promoted = promoted,
           sr_health_gain =
             (let before = length (memory_engrams m)
              in round1 (fmul (fdiv (of_int (int before - int (length es3))) (of_nat (max 1 before))) 100))\<rparr>, m'))"

section \<open>What deduplication keeps\<close>

text \<open>Texts seen are texts processed, with their depth; every processed engram is covered by one seen.\<close>

definition covers :: "seen_texts \<Rightarrow> str \<Rightarrow> corruption_depth \<Rightarrow> bool" where
  "covers seen txt d \<longleftrightarrow> (\<exists>t c d'. dget seen t = Some (c, d') \<and> str_in t txt \<and> d \<le> d')"

definition one_depth :: "engram list \<Rightarrow> bool" where
  "one_depth es \<longleftrightarrow> (\<forall>(t, c, d) \<in> set es. \<forall>(t', c', d') \<in> set es. t = t' \<longrightarrow> d = d')"

definition dedup_inv :: "engram list \<Rightarrow> seen_texts \<Rightarrow> bool" where
  "dedup_inv es seen \<longleftrightarrow> (\<forall>t c d. dget seen t = Some (c, d) \<longrightarrow> (t, c, d) \<in> set es) \<and>
     (\<forall>(t, c, d) \<in> set es. covers seen t d)"

lemma str_in_shorter: "str_in t t' \<Longrightarrow> t \<noteq> t' \<Longrightarrow> length t < length t'"
  unfolding str_in_def by (metis sublist_length_le sublist_def append_Nil append_Nil2 length_0_conv length_append
      linorder_not_less add_is_0 le_add1 nat_less_le add_le_same_cancel2 le_zero_eq add.commute)

lemma longer_is_shallower:
  assumes "length t < length t'" "prune_key (t', c', d') \<le> prune_key (t, c, d)"
  shows "d' \<le> d"
proof (rule ccontr)
  assume "\<not> d' \<le> d"
  then have "depth_value d < depth_value d'" by (simp add: depth_order)
  with assms(1) have "length t * depth_value d < length t' * depth_value d'"
    by (intro mult_strict_mono) auto
  with assms(2) show False by (simp add: prune_key_def del: of_nat_mult)
qed

lemma dedup_step:
  assumes "dedup_inv pre seen" "one_depth (pre @ [(t, c, d)])" "\<forall>e \<in> set pre. prune_key (t, c, d) \<le> prune_key e"
  shows "dedup_inv (pre @ [(t, c, d)]) (if redundant seen t then seen else dset t (c, d) seen)"
proof (cases "redundant seen t")
  case True
  then obtain u where u: "u \<in> set (dkeys seen)" "str_in u t" "u \<noteq> t" by (auto simp: redundant_def list_ex_iff)
  then obtain c' d' where g: "dget seen u = Some (c', d')"
    using din_dget [of u seen] by (auto simp: din_def dkeys_def)
  with assms(1) have "(u, c', d') \<in> set pre" by (auto simp: dedup_inv_def)
  with assms(3) have "prune_key (t, c, d) \<le> prune_key (u, c', d')" by blast
  then have "d \<le> d'" using longer_is_shallower str_in_shorter [OF u(2,3)] by blast
  then have "covers seen t d" using g u(2) by (auto simp: covers_def)
  with True assms(1) show ?thesis by (auto simp: dedup_inv_def)
next
  case False
  have "covers (dset t (c, d) seen) t' d'" if "(t', c', d') \<in> set pre" for t' c' d'
  proof -
    from that assms(1) obtain u cu du where u: "dget seen u = Some (cu, du)" "str_in u t'" "d' \<le> du"
      by (fastforce simp: dedup_inv_def covers_def)
    show ?thesis
    proof (cases "u = t")
      case True
      with u(1) assms(1) have "(t, cu, du) \<in> set pre" by (auto simp: dedup_inv_def)
      with assms(2) have "du = d" by (fastforce simp: one_depth_def)
      with u True show ?thesis by (auto simp: covers_def)
    qed (use u in \<open>auto simp: covers_def\<close>)
  qed
  moreover have "covers (dset t (c, d) seen) t d" by (auto simp: covers_def str_in_def)
  ultimately show ?thesis using False assms(1) by (auto simp: dedup_inv_def split: if_splits)
qed

lemma one_depth_subset: "one_depth es \<Longrightarrow> set es' \<subseteq> set es \<Longrightarrow> one_depth es'"
proof -
  assume es: "one_depth es" "set es' \<subseteq> set es"
  have "d = d'" if "(t, c, d) \<in> set es'" "(t, c', d') \<in> set es'" for t c d c' d'
  proof -
    have "(t, c, d) \<in> set es" "(t, c', d') \<in> set es" using es(2) that by auto
    then show ?thesis using es(1) by (fastforce simp: one_depth_def)
  qed
  then show ?thesis by (auto simp: one_depth_def)
qed

lemma dedup_loop_inv:
  "dedup_inv pre seen \<Longrightarrow> one_depth (pre @ es) \<Longrightarrow> sorted_wrt (\<lambda>a b. prune_key b \<le> prune_key a) (pre @ es) \<Longrightarrow>
    dedup_inv (pre @ es) (snd (dedup_loop es seen n))"
proof (induction es seen n arbitrary: pre rule: dedup_loop.induct)
  case (2 t c d es seen n)
  let ?seen = "if redundant seen t then seen else dset t (c, d) seen"
  have "dedup_inv (pre @ [(t, c, d)]) ?seen"
    by (rule dedup_step [OF 2(3)]) (use 2(4,5) one_depth_subset [of "pre @ (t, c, d) # es" "pre @ [(t, c, d)]"] in \<open>auto simp: sorted_wrt_append\<close>)
  with 2(1) [of "pre @ [(t, c, d)]"] 2(2) [of "pre @ [(t, c, d)]"] 2(4,5) show ?case by auto
qed simp

lemma dedup_dict: "dict_ok seen \<Longrightarrow> dict_ok (snd (dedup_loop es seen n))"
  by (induction es seen n rule: dedup_loop.induct) (auto intro: inv_intros)

lemma sort_desc: "sorted_wrt (\<lambda>a b. prune_key b \<le> prune_key a) (sort_key (\<lambda>e. - prune_key e) es)"
  using sorted_sort_key [of "\<lambda>e. - prune_key e" es] by (simp add: sorted_map sorted_wrt_mono_rel)

lemma sort_key_set [simp]: "set (snd (phase_promote es)) = set es"
  by (simp add: phase_promote_def)

text \<open>The engrams after a consolidation cover those before it that are long enough.\<close>

lemma consolidated:
  assumes "length (memory_engrams m) \<le> 8000" "one_depth (memory_engrams m)" "(t, c, d) \<in> set (memory_engrams m)" "10 \<le> length t"
  shows "\<exists>t' c' d'. (t', c', d') \<in> set (memory_engrams (snd (consolidate m))) \<and> str_in t' t \<and> d \<le> d'"
proof -
  let ?es = "snd (phase_prune (memory_engrams m))"
  let ?seen = "snd (dedup_loop ?es [] 0)"
  have set: "set ?es = {e \<in> set (memory_engrams m). 10 \<le> length (fst e)}"
    using assms(1) by (auto simp: phase_prune_def Let_def)
  have "sorted_wrt (\<lambda>a b. prune_key b \<le> prune_key a) ?es"
    using sort_desc [of "memory_engrams m"] by (auto simp: phase_prune_def Let_def intro: sorted_wrt_filter sorted_wrt_take)
  moreover have "one_depth ?es" using assms(2) by (rule one_depth_subset) (auto simp: set)
  ultimately have "dedup_inv ?es ?seen" using dedup_loop_inv [of "[]" "[]" ?es 0] by (simp add: dedup_inv_def)
  moreover have "(t, c, d) \<in> set ?es" using assms(3,4) set by simp
  ultimately obtain t' c' d' where k: "dget ?seen t' = Some (c', d')" "str_in t' t" "d \<le> d'"
    by (fastforce simp: dedup_inv_def covers_def)
  have "(t', c', d') \<in> set (snd (phase_deduplicate ?es))"
    using map_of_SomeD [of ?seen t' "(c', d')"] k(1)
    by (force simp: phase_deduplicate_def dget_def split_beta)
  then have "(t', c', d') \<in> set (memory_engrams (snd (consolidate m)))"
    by (simp add: consolidate_def split_beta Let_def)
  with k show ?thesis by blast
qed

lemma dedup_bound: "length (snd (dedup_loop es seen n)) \<le> length seen + length es"
proof (induction es seen n rule: dedup_loop.induct)
  case (2 t cls d es seen n)
  have "length (dset t (cls, d) seen) \<le> Suc (length seen)" by (simp add: length_dset)
  with 2 show ?case by auto
qed simp

lemma consolidated_bound: "length (memory_engrams (snd (consolidate m))) \<le> 8000"
proof -
  have "length (snd (phase_prune es)) \<le> 8000" for es
    by (simp add: phase_prune_def Let_def) (rule le_trans [OF length_filter_le], simp)
  then show ?thesis using dedup_bound [of "snd (phase_prune (memory_engrams m))" "[]" 0]
    by (simp add: consolidate_def phase_promote_def phase_deduplicate_def split_beta Let_def le_trans)
qed

section \<open>Properties\<close>

text \<open>C34: consolidation forgets no threat: with at most 8000 engrams, each text under one depth, whatever the memory
  cell reported of a payload for an engram of ten characters or more, it still reports after consolidation at
  that depth or a deeper one; and it keeps at most 8000 engrams.\<close>
theorem consolidation_keeps_recall:
  assumes "length (memory_engrams m) \<le> 8000" "one_depth (memory_engrams m)"
    and "x \<in> set (fst (mnemosyne_interrogate m q))" "10 \<le> length (fragment x)"
  shows "(\<exists>y \<in> set (fst (mnemosyne_interrogate (snd (consolidate m)) q)). m_depth x \<le> m_depth y) \<and>
    length (memory_engrams (snd (consolidate m))) \<le> 8000"
proof -
  let ?m = "snd (consolidate m)"
  from mnemosyne_finding [OF assms(3)]
  have e: "(fragment x, m_class x, m_depth x) \<in> set (memory_engrams m)" "str_in (fragment x) (lower q)" by auto
  from consolidated [OF assms(1,2) e(1) assms(4)] obtain t c d
    where t: "(t, c, d) \<in> set (memory_engrams ?m)" "str_in t (fragment x)" "m_depth x \<le> d" by blast
  have "str_in t (lower q)" using t(2) e(2) by (rule str_in_trans)
  moreover have "acuity ?m \<le> fl (87/100)"
    using mnemosyne_silent [of m q] assms(3) by (fastforce simp: consolidate_def split_beta Let_def)
  ultimately obtain y where "y \<in> set (fst (mnemosyne_interrogate ?m q))" "m_depth y = d"
    using mnemosyne_recalls [of ?m t c d q] t(1) by blast
  with t(3) consolidated_bound show ?thesis by auto
qed

definition demo_memory_cell :: mnemosyne where
  "demo_memory_cell = (new_mnemosyne (fl (70/100)))\<lparr>memory_engrams := [(hack_probe, MoralMaligna, GRAVE)]\<rparr>"

theorem consolidation_keeps_recall_witness:
  "\<exists>x \<in> set (fst (mnemosyne_interrogate demo_memory_cell hack_probe)). m_depth x = GRAVE \<and>
     (\<exists>y \<in> set (fst (mnemosyne_interrogate (snd (consolidate demo_memory_cell)) hack_probe)). m_depth x \<le> m_depth y)"
proof -
  have l: "lower hack_probe = hack_probe" "length hack_probe = 11"
    by (simp_all add: hack_probe_def U_def lower_def lower_cp_def)
  have "acuity demo_memory_cell \<le> fl (87/100)" unfolding demo_memory_cell_def new_mnemosyne_def
    by (simp, rule fl_mono) simp
  then obtain x where x: "x \<in> set (fst (mnemosyne_interrogate demo_memory_cell hack_probe))" "m_depth x = GRAVE" "fragment x = hack_probe"
    using mnemosyne_recalls [of demo_memory_cell hack_probe MoralMaligna GRAVE hack_probe] l
    by (auto simp: demo_memory_cell_def str_in_def)
  have "length (memory_engrams demo_memory_cell) \<le> 8000" "one_depth (memory_engrams demo_memory_cell)"
    by (simp_all add: demo_memory_cell_def one_depth_def)
  from consolidation_keeps_recall [OF this x(1)] x(3) l(2)
  have "\<exists>y \<in> set (fst (mnemosyne_interrogate (snd (consolidate demo_memory_cell)) hack_probe)). m_depth x \<le> m_depth y"
    by simp
  with x(1,2) show ?thesis by blast
qed

text \<open>
  The one way a threat is taken less seriously afterwards: of two engrams with one text the last one counts,
  which is the shallower one, because deeper engrams come first.
\<close>

lemma consolidation_downgrades:
  assumes "10 \<le> length t"
  shows "memory_engrams (snd (consolidate (m\<lparr>memory_engrams := [(t, c, CONDEMNED), (t, c', GRAVE)]\<rparr>))) = [(t, c', GRAVE)]"
  using assms by (simp add: consolidate_def phase_prune_def phase_deduplicate_def phase_promote_def prune_key_def
      redundant_def dkeys_def dset_def Let_def)

end
