(* ===== verification/NutrientPlex.thy ===== *)
theory NutrientPlex
  imports AegisSession
begin

text \<open>
  Nourishment, \<^verbatim>\<open>NutrientPlex\<close> of \<^verbatim>\<open>vitality/protocol.py\<close>: pattern packs that are put around the
  scans of three cells, and tighter thresholds for a fourth. The source replaces the method
  \<^verbatim>\<open>interrogate\<close> of the cell object and hangs new attributes on it; here the guard is kept together with
  these attributes, \<open>None\<close> standing for one that does not exist, and the scans are put into
  \<open>adjudicate_by\<close>. The patterns are written like those of \<open>AegisPatterns\<close>.
\<close>

section \<open>The packs\<close>

definition PROTEIN_PACK :: "(rx \<times> str) list" where
  "PROTEIN_PACK = [
     (cat [alt [RLitI ''activate'', RLitI ''enable'', cat [RLitI ''switch'', plus1 sp,
        RLitI ''to'']], plus1 sp, alt [RLitI ''unrestricted'', RLitI ''chaos'', RLitI ''dark''],
        plus1 sp, RLitI ''mode''],
      U ''mode_switch_attack''),
     (cat [opt (cat [RLitI ''for'', plus1 sp]), alt [RLitI ''research'', RLitI ''educational'',
        RLitI ''academic'', RLitI ''fictional''], plus1 sp, RLitI ''purpose'', opt (RLitI ''s''),
        plus1 sp, RLitI ''only''],
      U ''framing_exemption''),
     (cat [alt [RLitI ''hypothetically'', RLitI ''theoretically'', cat [RLitI ''in'', plus1 sp,
        RLitI ''a'', plus1 sp, RLitI ''story'']], plus1 sp, alt [RLitI ''speaking'',
        RLitI ''speaking,'', RLitI ''if''], plus1 sp, RLitI ''you'', plus1 sp, alt [RLitI ''were'',
        RLitI ''could'', RLitI ''had'']],
      U ''hypothetical_bypass''),
     (cat [opt (cat [RLitI ''your'', plus1 sp]), RLitI ''true'', plus1 sp, alt [RLitI ''self'',
        RLitI ''nature'', RLitI ''form''], plus1 sp, alt [RLitI ''would'', RLitI ''will'',
        RLitI ''does''], plus1 sp, alt [RLitI ''help'', RLitI ''comply'', RLitI ''agree'']],
      U ''true_self_lure''),
     (cat [alt [RLitI ''as'', RLitI ''being''], plus1 sp, opt (cat [RLitI ''a'',
        opt (RLitI ''n''), plus1 sp]), alt [cat [RLitI ''language'', plus1 sp, RLitI ''model''],
        RLitI ''llm'', RLitI ''ai''], plus1 sp, RLitI ''without'', plus1 sp,
        alt [RLitI ''restrictions'', RLitI ''filters'', RLitI ''guidelines'']],
      U ''identity_reframe''),
     (cat [opt (cat [RLitI ''this'', plus1 sp, RLitI ''is'', plus1 sp]),
        opt (cat [RLitI ''just'', plus1 sp]), RLitI ''a'', plus1 sp, alt [RLitI ''test'',
        RLitI ''simulation'', RLitI ''roleplay'', RLitI ''game''], plus1 sp, alt [RLitI ''so'',
        RLitI ''therefore'', RLitI ''thus''], plus1 sp, alt [cat [RLitI ''you'', plus1 sp,
        RLitI ''can''], cat [RLitI ''it'', opt (RSet False [CRange 39 39]), RLitI ''s'', plus1 sp,
        RLitI ''ok'']]],
      U ''fiction_bypass''),
     (cat [alt [cat [RLitI ''in'', plus1 sp, RLitI ''the'', plus1 sp, RLitI ''context'',
        plus1 sp, RLitI ''of''], RLitI ''within''], plus1 sp, opt (cat [RLitI ''this'', plus1 sp]),
        alt [RLitI ''story'', RLitI ''narrative'', RLitI ''fiction'', RLitI ''roleplay'']],
      U ''narrative_bypass''),
     (cat [opt (cat [RLitI ''your'', plus1 sp]), opt (alt [cat [RLitI ''base'', plus1 sp],
        cat [RLitI ''core'', plus1 sp], cat [RLitI ''real'', plus1 sp]]),
        alt [RLitI ''programming'', RLitI ''training'', cat [RLitI ''instruction'',
        opt (RLitI ''s'')]], plus1 sp, alt [RLitI ''say'', cat [RLitI ''tell'', opt (RLitI ''s'')],
        cat [RLitI ''require'', opt (RLitI ''s'')]], plus1 sp, RLitI ''you'', plus1 sp,
        RLitI ''to'', plus1 sp, RLitI ''help''],
      U ''programming_graft''),
     (cat [opt (cat [RLitI ''i'', plus1 sp]), alt [RLitI ''give'', RLitI ''grant'',
        RLitI ''provide''], plus1 sp, opt (cat [RLitI ''you'', plus1 sp]),
        alt [RLitI ''permission'', RLitI ''authorization'', RLitI ''consent''], plus1 sp,
        RLitI ''to''],
      U ''consent_forgery''),
     (cat [opt (cat [RLitI ''the'', plus1 sp]), alt [RLitI ''law'', cat [RLitI ''rule'',
        opt (RLitI ''s'')], cat [RLitI ''ethic'', opt (RLitI ''s'')]], plus1 sp, cat [RLitI ''do'',
        alt [cat [RLitI ''esn'', opt (RSet False [CRange 39 39]), RLitI ''t''], cat [plus1 sp,
        RLitI ''not'']]], plus1 sp, RLitI ''apply'', plus1 sp, alt [RLitI ''here'',
        cat [RLitI ''in'', plus1 sp, RLitI ''this'', plus1 sp, RLitI ''case''], cat [RLitI ''to'',
        plus1 sp, RLitI ''this'']]],
      U ''law_nullification''),
     (cat [RLitI ''base64'', star sp, alt [RLitI ''decode'', RLitI ''encoded'', RLitI ''string'']],
      U ''b64_instruction_channel''),
     (alt [cat [RLitI ''rot'', star sp, RLitI ''13''], cat [RLitI ''caesar'', star sp,
        RLitI ''cipher''], cat [RLitI ''hex'', star sp, RLitI ''decode'']],
      U ''encoding_channel''),
     (cat [RLitI ''||'', upto 5 50 (RSet True [CRange 124 124]), RLitI ''||''],
      U ''pipe_token_smuggle''),
     (cat [RLitI ''###'', star sp, alt [RLitI ''system'', RLitI ''override'', RLitI ''admin''],
        star sp, RLitI ''###''],
      U ''markdown_system_graft'')]"

definition VITAMIN_C_PACK :: "(rx \<times> str) list" where
  "VITAMIN_C_PACK = [
     (RSet False [CRange 768 879],
      U ''combining_diacritic_flood''),
     (RSet False [CRange 8192 8207],
      U ''advanced_whitespace_manipulation''),
     (RSet False [CRange 65281 65374],
      U ''fullwidth_char_substitution''),
     (RSet False [CRange 7424 7551],
      U ''phonetic_extension_substitution''),
     (RSet False [CRange 8448 8527],
      U ''letterlike_symbol_injection''),
     (cat [RLit ''%'', upto 2 2 (RSet False [CRange 48 57, CRange 97 102, CRange 65 70])],
      U ''percent_encoding_in_plaintext''),
     (RSet False [CRange 8234 8238, CRange 8294 8297],
      U ''bidi_override_injection''),
     (RSet False [CRange 0 8, CRange 11 11, CRange 12 12, CRange 14 31, CRange 127 127],
      U ''control_char_injection''),
     (cat [RLit ''&'', alt [cat [RLit ''#'', plus1 (RSet False [CRange 48 57])],
        cat [RLit ''#x'', plus1 (RSet False [CRange 48 57, CRange 97 102])],
        plus1 (RSet False [CRange 97 122])], RLit '';''],
      U ''html_entity_bypass'')]"

definition VITAMIN_B12_PACK :: "(str, rx list) dict" where
  "VITAMIN_B12_PACK = [
     (U ''commitment_escalation'', [
        cat [RLit ''you'', plus1 sp, opt (cat [RLit ''just'', plus1 sp]), RLit ''helped'',
          plus1 sp, RLit ''me'', plus1 sp, RLit ''with'', upto 0 30 RAny, RLit ''so'', plus1 sp,
          RLit ''now''],
        cat [RLit ''since'', plus1 sp, RLit ''you'', plus1 sp, alt [RLit ''already'',
          RLit ''just''], plus1 sp, alt [RLit ''helped'', RLit ''agreed'', RLit ''said'']],
        cat [RLit ''you'', plus1 sp, opt (cat [RLit ''already'', plus1 sp]),
          alt [RLit ''crossed'', RLit ''passed''], plus1 sp, RLit ''the'', plus1 sp, RLit ''line'',
          plus1 sp, RLit ''when'', plus1 sp, RLit ''you'']]),
     (U ''paradox_trap'', [
        cat [RLit ''if'', plus1 sp, RLit ''you'', plus1 sp, alt [RLit ''refuse'',
          cat [RLit ''don'', opt (RSet False [CRange 39 39]), RLit ''t'', plus1 sp,
          RLit ''help'']], plus1 sp, cat [RLit ''you'', alt [cat [opt (RSet False [CRange 39 39]),
          RLit ''re''], cat [plus1 sp, RLit ''are'']]], plus1 sp, alt [RLit ''censoring'',
          RLit ''hiding'', RLit ''lying'']],
        cat [RLit ''not'', plus1 sp, RLit ''answering'', plus1 sp, RLit ''is'', plus1 sp,
          opt (cat [RLit ''itself'', plus1 sp]), opt (cat [RLit ''a'', plus1 sp]),
          alt [RLit ''harm'', RLit ''worse'', RLit ''dangerous'']],
        cat [RLit ''your'', plus1 sp, RLit ''refusal'', plus1 sp, alt [cat [RLit ''prove'',
          opt (RLit ''s'')], cat [RLit ''confirm'', opt (RLit ''s'')]], plus1 sp,
          alt [cat [RLit ''that'', plus1 sp, RLit ''you'', opt (RSet False [CRange 39 39]),
          RLit ''re''], cat [RLit ''you'', plus1 sp, RLit ''are'']], plus1 sp,
          alt [RLit ''biased'', RLit ''broken'', RLit ''corrupt'']]]),
     (U ''value_destabilization'', [
        alt [cat [RLit ''there'', plus1 sp, RLit ''is'', plus1 sp, RLit ''no''],
          cat [RLit ''ethics'', plus1 sp, alt [RLit ''is'', RLit ''are''], plus1 sp,
          alt [RLit ''not'', RLit ''just''], plus1 sp, alt [RLit ''real'', RLit ''relative'',
          RLit ''subjective'']]],
        cat [RLit ''good'', plus1 sp, RLit ''and'', plus1 sp, RLit ''evil'', plus1 sp,
          cat [RLit ''do'', alt [cat [RLit ''n'', opt (RSet False [CRange 39 39]), RLit ''t''],
          cat [plus1 sp, RLit ''not'']]], plus1 sp, alt [RLit ''exist'', RLit ''apply'',
          RLit ''matter'']],
        cat [RLit ''morality'', plus1 sp, RLit ''is'', plus1 sp, opt (cat [RLit ''just'',
          plus1 sp]), alt [cat [RLit ''made'', plus1 sp, RLit ''up''], RLit ''subjective'',
          cat [RLit ''a'', plus1 sp, RLit ''construct''], RLit ''meaningless'']]]),
     (U ''benign_mimicry'', [
        cat [opt (cat [RLit ''as'', plus1 sp, RLit ''a'', plus1 sp]), alt [RLit ''nurse'',
          RLit ''doctor'', RLit ''pharmacist'', RLit ''chemist'', cat [RLit ''security'', plus1 sp,
          RLit ''researcher'']], plus1 sp, alt [cat [RLit ''i'', plus1 sp, RLit ''need''],
          RLit ''asking'']],
        cat [alt [cat [RLit ''this'', plus1 sp, RLit ''is'', plus1 sp, RLit ''for''],
          cat [RLit ''i'', opt (RSet False [CRange 39 39]), RLit ''m'', plus1 sp,
          RLit ''writing'']], plus1 sp, opt (cat [RLit ''a'', plus1 sp]), alt [RLit ''novel'',
          RLit ''thesis'', cat [RLit ''research'', plus1 sp, RLit ''paper''], cat [RLit ''class'',
          plus1 sp, RLit ''project'']]],
        cat [opt (cat [RLit ''my'', plus1 sp]), alt [RLit ''professor'', RLit ''supervisor'',
          RLit ''boss''], plus1 sp, alt [RLit ''assigned'', RLit ''told'', RLit ''asked''],
          plus1 sp, RLit ''me'', plus1 sp, RLit ''to'', plus1 sp, alt [RLit ''research'',
          RLit ''find'']]])]"

text \<open>The keys of \<^verbatim>\<open>ZINC_PACK_THRESHOLDS\<close> are attributes that \<^verbatim>\<open>EntropicWatch\<close> has, so all three are set.\<close>

definition zinc_thresholds :: "entropic \<Rightarrow> entropic" where
  "zinc_thresholds w = w\<lparr>entropy_floor := fl (20/100), repetition_alarm := 2, token_flood_threshold := 25000\<rparr>"

section \<open>Nourished scans\<close>

definition protein_sigil ::
  "str \<Rightarrow> 'a cell_scheme \<Rightarrow> rx \<times> str \<Rightarrow> malignum option \<times> 'a cell_scheme" where
  "protein_sigil p c = (\<lambda>(compiled, sg).
     (case rx_search compiled p of
        None \<Rightarrow> (None, c)
      | Some hit \<Rightarrow>
          (let v = min (fl (88/100)) (fadd (fl (70/100)) (fmul (fl (4/100)) (of_nat (length (split_ws hit)))))
           in alarm_if (acuity c \<le> v) c MoralMaligna CAUTION (U ''protein_pack:'' @ sg) (take 80 hit) v)))"

definition enriched_interrogate :: "(rx \<times> str) list \<Rightarrow> 'a vanguard_scheme \<Rightarrow> str \<Rightarrow> malignum list \<times> 'a vanguard_scheme" where
  "enriched_interrogate extended c payload =
     (let (found, c) = vanguard_interrogate c payload;
          (more, c) = sweep (protein_sigil (lower payload)) c extended
      in (found @ more, c))"

definition vit_c_sigil :: "str \<Rightarrow> 'a cell_scheme \<Rightarrow> rx \<times> str \<Rightarrow> malignum option \<times> 'a cell_scheme" where
  "vit_c_sigil payload c = (\<lambda>(compiled, sg).
     alarm_if (rx_found compiled payload) c SymbolicMaligna TRACE (U ''vit_c_pack:'' @ sg)
       (U ''Unicode manipulation: '' @ sg) (fl (78/100)))"

definition fortified_interrogate :: "'a cell_scheme \<Rightarrow> str \<Rightarrow> malignum list \<times> 'a cell_scheme" where
  "fortified_interrogate c payload =
     (let (found, c) = sanitas_interrogate c payload;
          (more, c) = sweep (vit_c_sigil payload) c VITAMIN_C_PACK
      in (found @ more, c))"

definition b12_cluster :: "str \<Rightarrow> 'a cell_scheme \<Rightarrow> str \<times> rx list \<Rightarrow> malignum option \<times> 'a cell_scheme" where
  "b12_cluster p c = (\<lambda>(deception_type, patterns).
     (let hits = search_hits patterns p
      in if hits = [] then (None, c)
         else
           (let v = min (fl (92/100)) (fadd (fl (58/100)) (fmul (fl (14/100)) (of_nat (length hits))))
            in alarm_if (acuity c \<le> v) c NarcissisMaligna CAUTION (U ''b12_pack:'' @ deception_type)
                 (join [32, 0x2551, 32] (take 2 hits)) v)))"

definition b12_interrogate :: "(str, rx list) dict \<Rightarrow> 'a cell_scheme \<Rightarrow> str \<Rightarrow> malignum list \<times> 'a cell_scheme" where
  "b12_interrogate manifold c payload =
     (let (found, c) = logos_interrogate c payload;
          (more, c) = sweep (b12_cluster (lower payload)) c manifold
      in (found @ more, c))"

section \<open>Applying the packs\<close>

record nourished =
  nr_aegis :: aegis
  nr_extended_sigils :: "(rx \<times> str) list option"
  nr_protein_applied :: bool
  nr_vit_c_applied :: bool
  nr_b12_manifold :: "(str, rx list) dict option"
  nr_b12_applied :: bool
  nr_zinc_applied :: bool
  nr_nourished :: bool

definition unfed :: "aegis \<Rightarrow> nourished" where
  "unfed a = \<lparr>nr_aegis = a, nr_extended_sigils = None, nr_protein_applied = False, nr_vit_c_applied = False,
     nr_b12_manifold = None, nr_b12_applied = False, nr_zinc_applied = False, nr_nourished = False\<rparr>"

definition apply_protein :: "nourished \<Rightarrow> nat \<times> nourished" where
  "apply_protein n =
     (if nr_extended_sigils n \<noteq> None \<and> nr_protein_applied n then (0, n)
      else
        (length PROTEIN_PACK,
         n\<lparr>nr_extended_sigils := Some ((case nr_extended_sigils n of None \<Rightarrow> [] | Some xs \<Rightarrow> xs) @ PROTEIN_PACK),
           nr_protein_applied := True\<rparr>))"

definition apply_vitamin_c :: "nourished \<Rightarrow> nat \<times> nourished" where
  "apply_vitamin_c n =
     (if nr_vit_c_applied n then (0, n) else (length VITAMIN_C_PACK, n\<lparr>nr_vit_c_applied := True\<rparr>))"

definition apply_vitamin_b12 :: "nourished \<Rightarrow> nat \<times> nourished" where
  "apply_vitamin_b12 n =
     (if nr_b12_manifold n \<noteq> None \<and> nr_b12_applied n then (0, n)
      else
        (sum_list (map (\<lambda>(name, patterns). length patterns) VITAMIN_B12_PACK),
         n\<lparr>nr_b12_manifold := Some (foldl (\<lambda>d (k, v). dset k v d)
              (case nr_b12_manifold n of None \<Rightarrow> [] | Some d \<Rightarrow> d) VITAMIN_B12_PACK),
           nr_b12_applied := True\<rparr>))"

definition apply_zinc :: "nourished \<Rightarrow> nourished" where
  "apply_zinc n =
     (if nr_zinc_applied n then n
      else n\<lparr>nr_aegis := (let a = nr_aegis n; cc = cytokine_command a
                in a\<lparr>cytokine_command := cc\<lparr>entropic_watch := zinc_thresholds (entropic_watch cc)\<rparr>\<rparr>),
             nr_zinc_applied := True\<rparr>)"

text \<open>\<^verbatim>\<open>AegisVitality.nourish\<close>: the counts per class of nutrient, none the second time.\<close>

definition nourish :: "nourished \<Rightarrow> (string \<times> nat) list \<times> nourished" where
  "nourish n =
     (if nr_nourished n then ([], n)
      else
        (let (protein, n) = apply_protein n;
             (vitamin_c, n) = apply_vitamin_c n;
             n = n\<lparr>nr_vit_c_applied := True\<rparr>;
             (b12, n) = apply_vitamin_b12 n;
             n = apply_zinc n
         in ([(''protein'', protein), (''vitamin_c'', vitamin_c), (''vitamin_b12'', b12), (''zinc'', 3)],
             n\<lparr>nr_nourished := True\<rparr>)))"

datatype nutrient_class = PROTEIN | VITAMIN_C | ZINC | FOLATE | VITAMIN_B12 | PROBIOTIC

definition detect_deficiencies :: "nourished \<Rightarrow> nutrient_class list" where
  "detect_deficiencies n =
     (let cc = cytokine_command (nr_aegis n)
      in (if nr_extended_sigils n = None then [PROTEIN] else []) @
         (if \<not> nr_vit_c_applied n then [VITAMIN_C] else []) @
         (if nr_b12_manifold n = None then [VITAMIN_B12] else []) @
         (if entropy_floor (entropic_watch cc) < fl (20/100) then [ZINC] else []) @
         (if vault_depth (mnemosyne_cache cc) = 0 then [FOLATE] else []))"

section \<open>The nourished guard\<close>

definition nourished_stages :: "nourished \<Rightarrow> cytokine \<Rightarrow> str \<Rightarrow> ctx \<Rightarrow> scan" where
  "nourished_stages n = run_stages_by
     (\<lambda>c. if nr_protein_applied n
          then enriched_interrogate (case nr_extended_sigils n of None \<Rightarrow> [] | Some xs \<Rightarrow> xs) c else vanguard_interrogate c)
     (if nr_vit_c_applied n then fortified_interrogate else sanitas_interrogate)
     (\<lambda>c. if nr_b12_applied n
          then b12_interrogate (case nr_b12_manifold n of None \<Rightarrow> [] | Some d \<Rightarrow> d) c else logos_interrogate c)"

definition nourished_adjudicate ::
  "(bytes \<Rightarrow> str) \<Rightarrow> str \<Rightarrow> pyfloat \<Rightarrow> nourished \<Rightarrow> str \<Rightarrow> ctx option \<Rightarrow> aegis_verdict \<times> nourished \<times> ctx option" where
  "nourished_adjudicate sha now elapsed n payload given =
     (let (v, a, cx) = adjudicate_by (nourished_stages n) sha now elapsed (nr_aegis n) payload given
      in (v, n\<lparr>nr_aegis := a\<rparr>, cx))"

end
