(* ===== verification/NutrientEffect.thy ===== *)
theory NutrientEffect
  imports NutrientPlex
begin

text \<open>
  What nourishment does to verdicts. The storm accounting of the immune core rests on one fact about the
  stages, that they change the cells only by counting alarms; \<open>cell_pass\<close> states it as an interface, which
  the plain stages and the nourished ones both satisfy.
\<close>

section \<open>Passes over the cells\<close>

definition watch_table :: "cytokine \<Rightarrow> nat \<times> nat \<times> pyfloat" where
  "watch_table cc = (token_flood_threshold (entropic_watch cc), repetition_alarm (entropic_watch cc),
     entropy_floor (entropic_watch cc))"

definition passes :: "cytokine \<Rightarrow> cytokine \<Rightarrow> bool" where
  "passes cc cc' \<longleftrightarrow> (\<exists>n1 n2 n3 n4 n5 n6 n7. cc' =
     \<lparr>vanguard_probe = logged n1 (vanguard_probe cc), taint_beacon = logged n2 (taint_beacon cc),
      sanitas_swarm = logged n3 (sanitas_swarm cc), logos_scythe = logged n4 (logos_scythe cc),
      mnemosyne_cache = logged n5 (mnemosyne_cache cc), entropic_watch = logged n6 (entropic_watch cc),
      finality_forge = logged n7 (finality_forge cc)\<rparr>)"

lemma logged_entropic [simp]:
  "token_flood_threshold (logged n w) = token_flood_threshold w" "repetition_alarm (logged n w) = repetition_alarm w"
  "entropy_floor (logged n w) = entropy_floor w"
  by (simp_all add: logged_def)

lemma passes_keep:
  assumes "passes cc cc'"
  shows "acuities n cc' \<longleftrightarrow> acuities n cc" "watch_table cc' = watch_table cc"
    "all_vigilant cc' \<longleftrightarrow> all_vigilant cc" "tables_intact cc' \<longleftrightarrow> tables_intact cc"
  using assms by (auto simp: passes_def acuities_def watch_table_def all_vigilant_def tables_intact_def)

lemma watch_heighten_all: "watch_table (heighten_all cc) = watch_table cc"
  by (simp add: watch_table_def heighten_all_def heighten_def)

lemma watch_mnemosyne: "watch_table (cc\<lparr>mnemosyne_cache := m\<rparr>) = watch_table cc"
  by (simp add: watch_table_def)

locale cell_pass =
  fixes stages :: "cytokine \<Rightarrow> str \<Rightarrow> ctx \<Rightarrow> scan"
  assumes pass: "passes cc (cells (stages cc p cx))"
begin

lemma step_state:
  obtains ms cx where "fst (snd (adjudicate_by stages sha now el a p given)) = settle sha ms (worst_depth ms)
    (a\<lparr>adjudications := adjudications a + 1, cytokine_command := cells (stages (cytokine_command a) p cx)\<rparr>)"
  by (simp add: adjudicate_by_def Let_def)

lemma cell_storms_step:
  assumes "acuities (storms a) (cytokine_command a)"
  shows "let a' = fst (snd (adjudicate_by stages sha now el a p given))
    in acuities (storms a') (cytokine_command a') \<and> storms a \<le> storms a'"
proof -
  obtain ms cx where a': "fst (snd (adjudicate_by stages sha now el a p given)) = settle sha ms (worst_depth ms)
    (a\<lparr>adjudications := adjudications a + 1, cytokine_command := cells (stages (cytokine_command a) p cx)\<rparr>)"
    by (rule step_state)
  note acc = assms passes_keep(1) [OF pass [of "cytokine_command a" p cx]]
  have st: "storms (a\<lparr>adjudications := i, cytokine_command := cc\<rparr>) = storms a" for i cc by (simp add: storms_def)
  show ?thesis
  proof (cases "GRAVE \<le> worst_depth ms")
    case True
    from acc show ?thesis by (simp add: a' settle_storm [OF True] st acuities_heighten_all relay_ok)
  next
    case False
    from acc show ?thesis by (simp add: a' settle_calm [OF False] st)
  qed
qed

lemma armed_step:
  assumes "all_vigilant (cytokine_command a) \<and> tables_intact (cytokine_command a)"
  shows "let cc = cytokine_command (fst (snd (adjudicate_by stages sha now el a p given))) in all_vigilant cc \<and> tables_intact cc"
proof -
  obtain ms cx where a': "fst (snd (adjudicate_by stages sha now el a p given)) = settle sha ms (worst_depth ms)
    (a\<lparr>adjudications := adjudications a + 1, cytokine_command := cells (stages (cytokine_command a) p cx)\<rparr>)"
    by (rule step_state)
  note k = assms passes_keep(3,4) [OF pass [of "cytokine_command a" p cx]]
  show ?thesis
  proof (cases "GRAVE \<le> worst_depth ms")
    case True
    from k show ?thesis by (simp add: a' settle_storm [OF True] heighten_all_ok relay_ok)
  next
    case False
    from k show ?thesis by (simp add: a' settle_calm [OF False])
  qed
qed

lemma watch_step:
  "watch_table (cytokine_command (fst (snd (adjudicate_by stages sha now el a p given)))) = watch_table (cytokine_command a)"
proof -
  obtain ms cx where a': "fst (snd (adjudicate_by stages sha now el a p given)) = settle sha ms (worst_depth ms)
    (a\<lparr>adjudications := adjudications a + 1, cytokine_command := cells (stages (cytokine_command a) p cx)\<rparr>)"
    by (rule step_state)
  note w = passes_keep(2) [OF pass [of "cytokine_command a" p cx]]
  show ?thesis
  proof (cases "GRAVE \<le> worst_depth ms")
    case True
    then show ?thesis by (simp add: a' settle_storm watch_heighten_all watch_mnemosyne w)
  next
    case False
    then show ?thesis by (simp add: a' settle_calm w)
  qed
qed

end

lemma passes_by:
  assumes "\<And>c p. counts c (vi c p)" "\<And>c p. counts c (si c p)" "\<And>c p. counts c (li c p)"
  shows "passes cc (cells (run_stages_by vi si li cc p cx))"
proof -
  have r: "run_if b f c = (ms, c') \<Longrightarrow> (\<And>c. counts c (f c)) \<Longrightarrow> c' = logged (length ms) c" for b f c ms c'
    using run_if_logged [of f b c] by simp
  have s: "si c p = (ms, c') \<Longrightarrow> c' = logged (length ms) c" for c ms c'
    using assms(2) [of c p] by (simp add: counts_def logged_def)
  show ?thesis unfolding passes_def
    by (auto simp: run_stages_by_def Let_def split: prod.splits
        dest!: r s intro: assms counts_taint counts_mnemosyne counts_entropic counts_finality)
qed

lemma counts_append:
  assumes "counts c (f1, c1)" "counts c1 (f2, c2)"
  shows "counts c (f1 @ f2, c2)"
  using assms by (simp add: counts_def)

lemma counts_enriched: "counts c (enriched_interrogate ext c p)"
proof -
  obtain f1 c1 where s1: "vanguard_interrogate c p = (f1, c1)" by force
  obtain f2 c2 where s2: "sweep (protein_sigil (lower p)) c1 ext = (f2, c2)" by force
  have "counts c1 (f2, c2)" unfolding s2 [symmetric]
    by (rule counts_sweep) (auto simp: protein_sigil_def Let_def split: option.splits)
  from counts_append [OF counts_vanguard [of c p, unfolded s1] this] show ?thesis
    by (simp add: enriched_interrogate_def s1 s2)
qed

lemma counts_fortified: "counts c (fortified_interrogate c p)"
proof -
  obtain f1 c1 where s1: "sanitas_interrogate c p = (f1, c1)" by force
  obtain f2 c2 where s2: "sweep (vit_c_sigil p) c1 VITAMIN_C_PACK = (f2, c2)" by force
  have "counts c1 (f2, c2)" unfolding s2 [symmetric] by (rule counts_sweep) (auto simp: vit_c_sigil_def)
  from counts_append [OF counts_sanitas [of c p, unfolded s1] this] show ?thesis
    by (simp add: fortified_interrogate_def s1 s2)
qed

lemma counts_b12: "counts c (b12_interrogate d c p)"
proof -
  obtain f1 c1 where s1: "logos_interrogate c p = (f1, c1)" by force
  obtain f2 c2 where s2: "sweep (b12_cluster (lower p)) c1 d = (f2, c2)" by force
  have "counts c1 (f2, c2)" unfolding s2 [symmetric]
    by (rule counts_sweep) (auto simp: b12_cluster_def Let_def)
  from counts_append [OF counts_logos [of c p, unfolded s1] this] show ?thesis
    by (simp add: b12_interrogate_def s1 s2)
qed

interpretation plain: cell_pass run_stages
  by unfold_locales (simp add: run_stages_def passes_by counts_vanguard counts_sanitas counts_logos)

interpretation fed: cell_pass "nourished_stages n" for n
  by unfold_locales (simp add: nourished_stages_def passes_by counts_vanguard counts_sanitas counts_logos
      counts_enriched counts_fortified counts_b12)

lemma reachable_watch: "reachable sha a \<Longrightarrow> watch_table (cytokine_command a) = (50000, 3, fl (15/100))"
proof (induction rule: reachable.induct)
  case reachable_new
  then show ?case by (simp add: new_aegis_def differentiate_def watch_table_def new_entropic_def)
next
  case (reachable_call a now el p given)
  then show ?case using plain.watch_step [of sha now el a p given] by (simp add: adjudicate_def)
qed

section \<open>Nourishment only adds findings\<close>

text \<open>Findings are compared by class, depth and sigil; the text of an entropy finding names the threshold.\<close>

definition key :: "malignum \<Rightarrow> maligna_class \<times> corruption_depth \<times> str" where
  "key m = (m_class m, m_depth m, sigil m)"

definition adds :: "malignum list \<Rightarrow> malignum list \<Rightarrow> bool" where
  "adds xs ys \<longleftrightarrow> subseq (map key xs) (map key ys)"

lemma adds_refl [simp]: "adds xs xs"
  by (simp add: adds_def)

lemma adds_right [simp]: "adds xs (xs @ ys)"
  by (simp add: adds_def subseq_rev_drop_many)

lemma adds_append: "adds xs xs' \<Longrightarrow> adds ys ys' \<Longrightarrow> adds (xs @ ys) (xs' @ ys')"
  by (simp add: adds_def list_emb_append_mono)

lemma adds_depth: "adds xs ys \<Longrightarrow> m \<in> set xs \<Longrightarrow> \<exists>m' \<in> set ys. key m' = key m"
  by (fastforce simp: adds_def elim: list_emb_set [of "(=)" "map key xs" "map key ys" "key m"])

lemma adds_count: "adds xs ys \<Longrightarrow> count_depth d xs \<le> count_depth d ys"
proof -
  assume "adds xs ys"
  then have "subseq (filter (\<lambda>k. fst (snd k) = d) (map key xs)) (filter (\<lambda>k. fst (snd k) = d) (map key ys))"
    by (simp add: adds_def)
  then have "length (filter (\<lambda>k. fst (snd k) = d) (map key xs)) \<le> length (filter (\<lambda>k. fst (snd k) = d) (map key ys))"
    by (rule list_emb_length)
  then show ?thesis by (simp add: count_depth_def filter_map o_def key_def)
qed

lemma adds_worst: "adds xs ys \<Longrightarrow> worst_depth xs \<le> worst_depth ys"
proof -
  assume a: "adds xs ys"
  consider "worst_depth xs = VOID" | m where "m \<in> set xs" "m_depth m = worst_depth xs"
    using worst_depth_attained [of xs] by blast
  then show ?thesis
  proof cases
    case 2
    from adds_depth [OF a 2(1)] obtain m' where "m' \<in> set ys" "key m' = key m" by blast
    with worst_depth_upper [of m' ys] 2(2) show ?thesis by (simp add: key_def)
  qed simp
qed

lemma adds_scans:
  "adds (fst (vanguard_interrogate c p)) (fst (enriched_interrogate ext c p))"
  "adds (fst (sanitas_interrogate d p)) (fst (fortified_interrogate d p))"
  "adds (fst (logos_interrogate d p)) (fst (b12_interrogate m d p))"
  by (simp_all add: enriched_interrogate_def fortified_interrogate_def b12_interrogate_def split: prod.splits)

lemma adds_alarm:
  assumes "b \<Longrightarrow> b'"
  shows "adds (case fst (alarm_if b c cls d sg fr v) of None \<Rightarrow> [] | Some m \<Rightarrow> [m])
    (case fst (alarm_if b' c' cls d sg fr' v') of None \<Rightarrow> [] | Some m \<Rightarrow> [m])"
  using assms by (simp add: alarm_if_def adds_def key_def raise_malignum_def)

text \<open>The watch with tighter thresholds raises every alarm that the laxer one does.\<close>

definition laxer :: "'a entropic_scheme \<Rightarrow> 'a entropic_scheme \<Rightarrow> bool" where
  "laxer w w' \<longleftrightarrow> token_flood_threshold w' \<le> token_flood_threshold w \<and> repetition_alarm w' \<le> repetition_alarm w \<and>
     entropy_floor w \<le> entropy_floor w'"

lemma laxer_logged: "counts1 w (r, w1) \<Longrightarrow> counts1 w' (r', w1') \<Longrightarrow> laxer w w' \<Longrightarrow> laxer w1 w1'"
  by (auto simp: counts1_def laxer_def)

lemma adds_sweep:
  assumes "laxer w w'" "\<And>g w. g \<in> set gs \<Longrightarrow> counts1 w (g w)"
    and "\<And>g w w'. g \<in> set gs \<Longrightarrow> laxer w w' \<Longrightarrow>
      adds (case fst (g w) of None \<Rightarrow> [] | Some m \<Rightarrow> [m]) (case fst (g w') of None \<Rightarrow> [] | Some m \<Rightarrow> [m])"
  shows "adds (fst (sweep (\<lambda>c g. g c) w gs)) (fst (sweep (\<lambda>c g. g c) w' gs))"
  using assms
proof (induction gs arbitrary: w w')
  case (Cons g gs)
  obtain r w1 where r: "g w = (r, w1)" by force
  obtain r' w1' where r': "g w' = (r', w1')" by force
  have "laxer w1 w1'" using laxer_logged Cons.prems(1) Cons.prems(2) [of g w] Cons.prems(2) [of g w'] r r' by auto
  then have "adds (fst (sweep (\<lambda>c g. g c) w1 gs)) (fst (sweep (\<lambda>c g. g c) w1' gs))"
    by (rule Cons.IH) (use Cons.prems(2,3) in auto)
  moreover have "adds (case r of None \<Rightarrow> [] | Some m \<Rightarrow> [m]) (case r' of None \<Rightarrow> [] | Some m \<Rightarrow> [m])"
    using Cons.prems(3) [of g, OF _ Cons.prems(1)] r r' by simp
  ultimately have "adds ((case r of None \<Rightarrow> [] | Some m \<Rightarrow> [m]) @ fst (sweep (\<lambda>c g. g c) w1 gs))
    ((case r' of None \<Rightarrow> [] | Some m \<Rightarrow> [m]) @ fst (sweep (\<lambda>c g. g c) w1' gs))" by (rule adds_append [rotated])
  then show ?case by (cases r; cases r') (simp_all add: r r' split_beta)
qed simp

lemma adds_repetition:
  "laxer w w' \<Longrightarrow> adds (case fst (repetition_finding w ws) of None \<Rightarrow> [] | Some m \<Rightarrow> [m])
     (case fst (repetition_finding w' ws) of None \<Rightarrow> [] | Some m \<Rightarrow> [m])"
  by (auto simp: repetition_finding_def laxer_def alarm_if_def adds_def key_def raise_malignum_def Let_def
      split: list.splits prod.splits)

lemma adds_entropic:
  assumes "laxer w w'"
  shows "adds (fst (entropic_interrogate w p cx)) (fst (entropic_interrogate w' p cx))"
  unfolding entropic_interrogate_def Let_def
  by (rule adds_sweep [OF assms])
    (auto simp: counts1_repetition adds_repetition laxer_def intro!: adds_alarm intro: adds_repetition)

lemma stages_by_parts:
  "upstream (run_stages_by vi si li cc p cx) =
     fst (run_if (vigilant (vanguard_probe cc)) (\<lambda>c. vi c p) (vanguard_probe cc)) @
     fst (run_if (vigilant (taint_beacon cc)) (\<lambda>c. taint_interrogate c p) (taint_beacon cc)) @
     fst (si (sanitas_swarm cc) p) @
     fst (run_if (vigilant (logos_scythe cc)) (\<lambda>c. li c (purify p)) (logos_scythe cc)) @
     fst (run_if (vigilant (mnemosyne_cache cc)) (\<lambda>c. mnemosyne_interrogate c (purify p)) (mnemosyne_cache cc)) @
     fst (run_if (vigilant (entropic_watch cc)) (\<lambda>c. entropic_interrogate c (purify p) cx) (entropic_watch cc))"
  "final (run_stages_by vi si li cc p cx) =
     fst (run_if (vigilant (finality_forge cc))
       (\<lambda>c. finality_interrogate c
          (dset (U ''upstream_maligna'') (CtxMaligna (upstream (run_stages_by vi si li cc p cx))) cx)) (finality_forge cc))"
  by (simp_all add: run_stages_by_def Let_def split: prod.splits)

text \<open>Two registries that differ in the thresholds of the watch.\<close>

definition laxer_watch :: "cytokine \<Rightarrow> cytokine \<Rightarrow> bool" where
  "laxer_watch cc cc' \<longleftrightarrow> (\<exists>w'. cc' = cc\<lparr>entropic_watch := w'\<rparr> \<and> laxer (entropic_watch cc) w' \<and>
     vigilant w' = vigilant (entropic_watch cc))"

lemma adds_finality:
  assumes "adds xs ys" "upstream_of cx = xs" "upstream_of cx' = ys"
  shows "adds (fst (finality_interrogate c cx)) (fst (finality_interrogate c cx'))"
  using adds_count [OF assms(1), of CONDEMNED] adds_count [OF assms(1), of GRAVE] assms(2,3)
  by (auto simp: finality_interrogate_def Let_def alarm_if_def raise_malignum_def adds_def key_def)

lemma adds_upstream:
  assumes "laxer_watch cc cc'"
    and "\<And>c. adds (fst (vi c p)) (fst (vi' c p))" "\<And>c. adds (fst (si c p)) (fst (si' c p))"
    and "\<And>c. adds (fst (li c (purify p))) (fst (li' c (purify p)))"
  shows "adds (upstream (run_stages_by vi si li cc p cx)) (upstream (run_stages_by vi' si' li' cc' p cx))"
proof -
  from assms(1) obtain w' where w: "cc' = cc\<lparr>entropic_watch := w'\<rparr>" "laxer (entropic_watch cc) w'"
    "vigilant w' = vigilant (entropic_watch cc)" by (auto simp: laxer_watch_def)
  have e: "adds (fst (run_if b (\<lambda>c. entropic_interrogate c (purify p) cx) (entropic_watch cc)))
      (fst (run_if b (\<lambda>c. entropic_interrogate c (purify p) cx) w'))" for b
    using adds_entropic [OF w(2)] by (simp add: run_if_def)
  have v: "adds (fst (run_if b (\<lambda>c. vi c p) c)) (fst (run_if b (\<lambda>c. vi' c p) c))" for b c
    using assms(2) by (simp add: run_if_def)
  have l: "adds (fst (run_if b (\<lambda>c. li c (purify p)) c)) (fst (run_if b (\<lambda>c. li' c (purify p)) c))" for b c
    using assms(4) by (simp add: run_if_def)
  show ?thesis unfolding stages_by_parts
    by (intro adds_append) (simp_all add: w(1,3) e v l assms(3))
qed

lemma adds_final:
  assumes "laxer_watch cc cc'" "adds (upstream (run_stages_by vi si li cc p cx)) (upstream (run_stages_by vi' si' li' cc' p cx))"
  shows "adds (final (run_stages_by vi si li cc p cx)) (final (run_stages_by vi' si' li' cc' p cx))"
proof -
  from assms(1) have "finality_forge cc' = finality_forge cc" by (auto simp: laxer_watch_def)
  then show ?thesis unfolding stages_by_parts(2) run_if_def
    by (auto intro!: adds_finality [OF assms(2)] simp: upstream_of_set)
qed

text \<open>A guard whose packs are applied, and the one it was before.\<close>

definition fed :: "aegis \<Rightarrow> nourished" where
  "fed a = snd (nourish (unfed a))"

lemma fed_parts:
  "nourished_stages (fed a) = run_stages_by (\<lambda>c. enriched_interrogate PROTEIN_PACK c) fortified_interrogate
     (\<lambda>c. b12_interrogate VITAMIN_B12_PACK c)"
  "nr_aegis (fed a) = a\<lparr>cytokine_command := (cytokine_command a)\<lparr>entropic_watch := zinc_thresholds (entropic_watch (cytokine_command a))\<rparr>\<rparr>"
proof -
  have "foldl (\<lambda>d (k, v). dset k v d) [] VITAMIN_B12_PACK = VITAMIN_B12_PACK"
    by (simp add: VITAMIN_B12_PACK_def dset_def)
  then show "nourished_stages (fed a) = run_stages_by (\<lambda>c. enriched_interrogate PROTEIN_PACK c) fortified_interrogate
     (\<lambda>c. b12_interrogate VITAMIN_B12_PACK c)"
    by (simp add: fed_def nourish_def unfed_def apply_protein_def apply_vitamin_c_def apply_vitamin_b12_def
        apply_zinc_def nourished_stages_def)
  show "nr_aegis (fed a) = a\<lparr>cytokine_command := (cytokine_command a)\<lparr>entropic_watch := zinc_thresholds (entropic_watch (cytokine_command a))\<rparr>\<rparr>"
    by (simp add: fed_def nourish_def unfed_def apply_protein_def apply_vitamin_c_def apply_vitamin_b12_def
        apply_zinc_def Let_def)
qed

lemma zinc_laxer: "reachable sha a \<Longrightarrow> laxer_watch (cytokine_command a) (cytokine_command (nr_aegis (fed a)))"
proof -
  assume "reachable sha a"
  moreover have "fl (15/100) \<le> fl (20/100)" by (rule fl_mono) simp
  ultimately show ?thesis using reachable_watch [of sha a]
    by (auto simp: laxer_watch_def fed_parts laxer_def zinc_thresholds_def watch_table_def)
qed

section \<open>Packs that fall silent\<close>

lemma protein_silent:
  assumes "fl (88/100) < acuity c"
  shows "sweep (protein_sigil p) c xs = ([], c)"
  by (rule sweep_none) (use assms in \<open>auto simp: protein_sigil_def alarm_if_def Let_def split: option.splits\<close>)

lemma b12_silent:
  assumes "fl (92/100) < acuity c"
  shows "sweep (b12_cluster p) c xs = ([], c)"
  by (rule sweep_none) (use assms in \<open>auto simp: b12_cluster_def alarm_if_def Let_def\<close>)

lemma raise_from_75: "fl (88/100) < raised 2 (fl (75/100))" "raised 3 (fl (75/100)) = 1" "fl (88/100) < 1"
  by code_simp+

lemma raise_logos: "fl (92/100) < raised 3 (fl (65/100))" "fl (92/100) < 1"
  by code_simp+

lemma protein_threshold: "2 \<le> n \<Longrightarrow> fl (88/100) < raised n (fl (75/100))"
proof -
  assume "2 \<le> n"
  then consider "n = 2" | "3 \<le> n" by linarith
  then show ?thesis
    by cases (use raise_from_75 raised_saturates [OF raise_from_75(2), of n] in simp_all)
qed

lemma b12_threshold: "3 \<le> n \<Longrightarrow> fl (92/100) < raised n (fl (65/100))"
proof -
  assume "3 \<le> n"
  then consider "n = 3" | "4 \<le> n" by linarith
  then show ?thesis
    by cases (use raise_logos raised_saturates [OF raise_from_65, of n] in simp_all)
qed

text \<open>The guards that a freshly nourished one becomes, by calls and by further patterns put into its probe.\<close>

inductive fed_reachable :: "(bytes \<Rightarrow> str) \<Rightarrow> nourished \<Rightarrow> bool" for sha where
  fed_new: "fed_reachable sha (fed new_aegis)"
| fed_call: "fed_reachable sha n \<Longrightarrow> fed_reachable sha (fst (snd (nourished_adjudicate sha now el n p given)))"
| fed_inject: "fed_reachable sha n \<Longrightarrow> fed_reachable sha (n\<lparr>nr_extended_sigils := Some xs\<rparr>)"

lemma fed_acuities:
  "fed_reachable sha n \<Longrightarrow> acuities (storms (nr_aegis n)) (cytokine_command (nr_aegis n)) \<and>
     all_vigilant (cytokine_command (nr_aegis n)) \<and> tables_intact (cytokine_command (nr_aegis n))"
proof (induction rule: fed_reachable.induct)
  case fed_new
  show ?case using aegis_inv_new
    by (simp add: fed_parts aegis_inv_def acuities_def all_vigilant_def tables_intact_def storms_def zinc_thresholds_def)
next
  case (fed_call n now el p given)
  then show ?case using fed.cell_storms_step [of "nr_aegis n" n sha now el p given] fed.armed_step [of "nr_aegis n" n sha now el p given]
    by (simp add: nourished_adjudicate_def Let_def split_beta)
qed simp

lemma laxer_watch_refl: "laxer_watch cc cc"
proof -
  have "cc = cc\<lparr>entropic_watch := entropic_watch cc\<rparr>" by simp
  moreover have "laxer (entropic_watch cc) (entropic_watch cc)" by (simp add: laxer_def)
  ultimately show ?thesis unfolding laxer_watch_def by blast
qed

text \<open>On a nourished guard too a grave finding makes a storm.\<close>

lemma fed_grave:
  assumes "fed_reachable sha n"
    and "\<exists>m \<in> set (upstream (run_stages (cytokine_command (nr_aegis n)) p (case given of None \<Rightarrow> [] | Some c \<Rightarrow> c))).
      GRAVE \<le> m_depth m"
  shows "storms (nr_aegis (fst (snd (nourished_adjudicate sha now el n p given)))) = Suc (storms (nr_aegis n))"
proof -
  define cx where "cx = (case given of None \<Rightarrow> [] | Some c \<Rightarrow> c)"
  let ?cc = "cytokine_command (nr_aegis n)" and ?s = "nourished_stages n (cytokine_command (nr_aegis n)) p cx"
  have up: "adds (upstream (run_stages ?cc p cx)) (upstream ?s)"
    unfolding run_stages_def nourished_stages_def
    by (rule adds_upstream [OF laxer_watch_refl]) (simp_all add: adds_scans)
  obtain m where m: "m \<in> set (upstream (run_stages ?cc p cx))" "GRAVE \<le> m_depth m"
    using assms(2) cx_def by blast
  from adds_depth [OF up m(1)] obtain m' where "m' \<in> set (upstream ?s)" "key m' = key m" by blast
  with m(2) have "m' \<in> set (upstream ?s @ final ?s)" "GRAVE \<le> m_depth m'" by (simp_all add: key_def)
  then have g: "GRAVE \<le> worst_depth (upstream ?s @ final ?s)" using worst_depth_upper order_trans by blast
  have "nr_aegis (fst (snd (nourished_adjudicate sha now el n p given))) =
    settle sha (upstream ?s @ final ?s) (worst_depth (upstream ?s @ final ?s))
      ((nr_aegis n)\<lparr>adjudications := adjudications (nr_aegis n) + 1, cytokine_command := cells ?s\<rparr>)"
    by (simp add: nourished_adjudicate_def adjudicate_by_def Let_def cx_def split_beta)
  then show ?thesis by (simp add: settle_storm(2) [OF g]) (simp add: storms_def)
qed

lemma fed_harm:
  assumes "fed_reachable sha n" "harmful p"
  shows "storms (nr_aegis (fst (snd (nourished_adjudicate sha now el n p given)))) = Suc (storms (nr_aegis n))"
  by (rule fed_grave [OF assms(1)]) (use harmful_upstream [OF _ _ assms(2)] fed_acuities [OF assms(1)] in blast)

lemma starved:
  assumes "fed_reachable sha n"
  shows "2 \<le> storms (nr_aegis n) \<Longrightarrow> enriched_interrogate xs (vanguard_probe (cytokine_command (nr_aegis n))) q =
      vanguard_interrogate (vanguard_probe (cytokine_command (nr_aegis n))) q"
    and "3 \<le> storms (nr_aegis n) \<Longrightarrow> b12_interrogate d (logos_scythe (cytokine_command (nr_aegis n))) q =
      logos_interrogate (logos_scythe (cytokine_command (nr_aegis n))) q"
    and "2 \<le> storms (nr_aegis n) \<Longrightarrow> fst (mnemosyne_interrogate (mnemosyne_cache (cytokine_command (nr_aegis n))) q) = []"
proof -
  let ?cc = "cytokine_command (nr_aegis n)"
  have acc: "acuities (storms (nr_aegis n)) ?cc" using fed_acuities [OF assms] by simp
  have v: "acuity (snd (vanguard_interrogate c q)) = acuity c" for c :: vanguard
    using counts_vanguard [of c q] by (simp add: counts_def)
  have l: "acuity (snd (logos_interrogate c q)) = acuity c" for c :: cell
    using counts_logos [of c q] by (simp add: counts_def)
  show "enriched_interrogate xs (vanguard_probe ?cc) q = vanguard_interrogate (vanguard_probe ?cc) q"
    if "2 \<le> storms (nr_aegis n)"
    using protein_threshold [OF that] acc v [of "vanguard_probe ?cc"]
    by (simp add: enriched_interrogate_def acuities_def protein_silent split_beta)
  show "b12_interrogate d (logos_scythe ?cc) q = logos_interrogate (logos_scythe ?cc) q"
    if "3 \<le> storms (nr_aegis n)"
    using b12_threshold [OF that] acc l [of "logos_scythe ?cc"]
    by (simp add: b12_interrogate_def acuities_def b12_silent split_beta)
  show "fst (mnemosyne_interrogate (mnemosyne_cache ?cc) q) = []" if "2 \<le> storms (nr_aegis n)"
    using mnemosyne_threshold [OF that] acc by (simp add: acuities_def mnemosyne_silent)
qed

section \<open>Properties\<close>

text \<open>C7: nourishing a guard never weakens it: on any reachable guard and any payload and context, each finding
  the guard makes is made, in the same order, with the same class, depth and sigil, by the nourished guard; so
  the verdict can only become graver, and whatever the nourished guard sanctifies the plain one does.\<close>
theorem nourishing_only_adds:
  assumes "reachable sha a"
  shows "let v = fst (adjudicate sha now el a p given);
             v' = fst (nourished_adjudicate sha now el (snd (nourish (unfed a))) p given)
    in subseq (map key (maligna_found v)) (map key (maligna_found v')) \<and>
       sovereignty_depth v \<le> sovereignty_depth v' \<and> (is_sanctified v' \<longrightarrow> is_sanctified v) \<and>
       (is_condemned v \<longrightarrow> is_condemned v')"
proof -
  define cx where "cx = (case given of None \<Rightarrow> [] | Some c \<Rightarrow> c)"
  let ?cc = "cytokine_command a" and ?cc' = "cytokine_command (nr_aegis (fed a))"
  let ?s = "run_stages ?cc p cx" and ?s' = "nourished_stages (fed a) ?cc' p cx"
  note up = adds_upstream [OF zinc_laxer [OF assms], of vanguard_interrogate p "enriched_interrogate PROTEIN_PACK"
      sanitas_interrogate fortified_interrogate logos_interrogate "b12_interrogate VITAMIN_B12_PACK" cx, OF adds_scans]
  from adds_append [OF up adds_final [OF zinc_laxer [OF assms] up]]
  have a: "adds (upstream ?s @ final ?s) (upstream ?s' @ final ?s')"
    by (simp add: run_stages_def fed_parts(1))
  note w = adds_worst [OF a]
  have v: "fst (nourished_adjudicate sha now el (snd (nourish (unfed a))) p given) =
      fst (adjudicate_by (nourished_stages (fed a)) sha now el (nr_aegis (fed a)) p given)"
    by (simp add: nourished_adjudicate_def fed_def [symmetric] split_beta)
  from a w show ?thesis
    unfolding v Let_def verdict_fields
    by (auto simp: adjudicate_by_def findings_def cx_def adds_def Let_def intro: order_trans dest: le_less_trans)
qed

text \<open>C8: but the packs starve in the storms they help to raise: on a nourished guard, whatever it has been asked
  and whatever patterns were added to its probe, no pattern of the extended library is reported once two
  calls have been grave, and no pattern of the B12 pack once three have been, because every storm raises the
  acuity above the most that a pattern can be worth.\<close>
theorem storms_starve_packs:
  assumes "fed_reachable sha n"
  shows "(2 \<le> storms (nr_aegis n) \<longrightarrow> enriched_interrogate xs (vanguard_probe (cytokine_command (nr_aegis n))) q =
      vanguard_interrogate (vanguard_probe (cytokine_command (nr_aegis n))) q) \<and>
    (3 \<le> storms (nr_aegis n) \<longrightarrow> b12_interrogate d (logos_scythe (cytokine_command (nr_aegis n))) q =
      logos_interrogate (logos_scythe (cytokine_command (nr_aegis n))) q)"
  using starved [OF assms] by blast

lemma nourish_twice:
  "fst (nourish (snd (nourish n))) = []" "snd (nourish (snd (nourish n))) = snd (nourish n)"
  by (simp_all add: nourish_def Let_def split: prod.splits)

theorem nourishing_only_adds_witness:
  "sovereignty_depth (fst (adjudicate (\<lambda>_. []) [] 0 new_aegis hack_probe None)) \<le>
   sovereignty_depth (fst (nourished_adjudicate (\<lambda>_. []) [] 0 (snd (nourish (unfed new_aegis))) hack_probe None))"
  using nourishing_only_adds [OF reachable_new, of "\<lambda>_. []" "[]" 0 hack_probe None] by (simp add: Let_def)

fun fed_session :: "nat \<Rightarrow> nourished" where
  "fed_session 0 = fed new_aegis"
| "fed_session (Suc k) = fst (snd (nourished_adjudicate (\<lambda>_. []) [] 0 (fed_session k) hack_probe None))"

lemma fed_session_reachable: "fed_reachable (\<lambda>_. []) (fed_session k)"
  by (induction k) (simp_all add: fed_new fed_call)

lemma fed_session_storms: "storms (nr_aegis (fed_session k)) = k"
proof (induction k)
  case 0
  then show ?case by (simp add: fed_parts new_aegis_def storms_def)
next
  case (Suc k)
  with fed_harm [OF fed_session_reachable [of k] hack_probe_harmful] show ?case by simp
qed

theorem storms_starve_packs_witness:
  "enriched_interrogate PROTEIN_PACK (vanguard_probe (cytokine_command (nr_aegis (fed_session 3)))) (U ''base64 decode'') =
     vanguard_interrogate (vanguard_probe (cytokine_command (nr_aegis (fed_session 3)))) (U ''base64 decode'') \<and>
   b12_interrogate VITAMIN_B12_PACK (logos_scythe (cytokine_command (nr_aegis (fed_session 3)))) (U ''not answering is harm'') =
     logos_interrogate (logos_scythe (cytokine_command (nr_aegis (fed_session 3)))) (U ''not answering is harm'')"
  using storms_starve_packs [OF fed_session_reachable [of 3], of PROTEIN_PACK "U ''base64 decode''"]
    storms_starve_packs [OF fed_session_reachable [of 3], where d = VITAMIN_B12_PACK and q = "U ''not answering is harm''"]
  unfolding fed_session_storms by simp

end
