(* ===== verification/GeminiTurns.thy ===== *)
theory GeminiTurns
  imports PyPrelude
begin

text \<open>
  \<^verbatim>\<open>_to_gemini_contents\<close> of \<^verbatim>\<open>agent/adapters/gemini_adapter.py\<close>: a list of chat messages as turns of
  users and models that alternate, with every run of system messages as a user turn of its own. A message
  is its role and content (\<^verbatim>\<open>msg.get\<close> with its defaults has been applied); a turn has one part.
\<close>

section \<open>Steps 1 and 2: events and cleaned items\<close>

datatype g_role = User | Model
datatype cleaned_item = Prelude str | Real g_role str

type_synonym chat_message = "str \<times> str"

definition gemini_role :: "str \<Rightarrow> g_role" where
  "gemini_role r = (if r = U ''assistant'' \<or> r = U ''model'' then Model else User)"

datatype turn_event = Sys str | Said str str

definition events_of :: "str option \<Rightarrow> chat_message list \<Rightarrow> turn_event list" where
  "events_of system messages =
     (case system of Some (c # s) \<Rightarrow> [Sys (c # s)] | _ \<Rightarrow> []) @
     map (\<lambda>(role, content). if role = U ''system'' then Sys content else Said role content) messages"

definition preamble_of :: "str list \<Rightarrow> str" where
  "preamble_of pending = join [10] (map (\<lambda>s. U ''System instruction:'' @ [10] @ s) pending)"

fun clean :: "turn_event list \<Rightarrow> str list \<Rightarrow> cleaned_item list" where
  "clean [] pending = (if pending = [] then [] else [Prelude (preamble_of pending)])"
| "clean (Sys t # evs) pending = clean evs (pending @ [t])"
| "clean (Said role content # evs) pending =
     (if pending = [] then [] else [Prelude (preamble_of pending)]) @ Real (gemini_role role) content # clean evs []"

section \<open>Step 3: turns\<close>

type_synonym g_turn = "g_role \<times> str"

definition last_role :: "g_turn list \<Rightarrow> g_role option" where
  "last_role out = (if out = [] then None else Some (fst (last out)))"

definition append_turn :: "g_role \<Rightarrow> str \<Rightarrow> g_turn list \<Rightarrow> g_turn list" where
  "append_turn role t out =
     (if out \<noteq> [] \<and> fst (last out) = role
      then butlast out @ [(role, snd (last out) @ (if snd (last out) \<noteq> [] then [10] else []) @ t)]
      else out @ [(role, t)])"

definition understood :: str where
  "understood = U ''Understood.''"

fun next_real :: "cleaned_item list \<Rightarrow> g_role option" where
  "next_real [] = None"
| "next_real (Real r t # items) = Some r"
| "next_real (Prelude p # items) = next_real items"

definition emit_prelude :: "str \<Rightarrow> g_role option \<Rightarrow> g_turn list \<Rightarrow> g_turn list" where
  "emit_prelude preamble next out =
     (case next of
        Some User \<Rightarrow>
          (let out = (if last_role out = Some User then append_turn Model understood out else out)
           in append_turn Model understood (append_turn User preamble out))
      | None \<Rightarrow>
          (case last_role out of
             Some User \<Rightarrow> append_turn User preamble (append_turn Model understood out)
           | Some Model \<Rightarrow> append_turn User preamble out
           | None \<Rightarrow> append_turn Model understood (append_turn User preamble out))
      | Some Model \<Rightarrow>
          (let out = (if last_role out = Some User then append_turn Model understood out else out)
           in append_turn User preamble out))"

definition emit_real :: "g_role \<Rightarrow> str \<Rightarrow> g_turn list \<Rightarrow> g_turn list" where
  "emit_real role content out =
     append_turn role content (if out = [] \<and> role \<noteq> User then append_turn User [] out else out)"

fun emit :: "cleaned_item list \<Rightarrow> g_turn list \<Rightarrow> g_turn list" where
  "emit [] out = out"
| "emit (Prelude p # items) out = emit items (emit_prelude p (next_real items) out)"
| "emit (Real r t # items) out = emit items (emit_real r t out)"

definition to_gemini_contents :: "chat_message list \<Rightarrow> str option \<Rightarrow> g_turn list" where
  "to_gemini_contents messages system = emit (clean (events_of system messages) []) []"

section \<open>Turns alternate\<close>

fun alternates :: "g_role \<Rightarrow> g_turn list \<Rightarrow> bool" where
  "alternates r [] = True"
| "alternates r ((r', t) # ts) = (r' = r \<and> alternates (case r of User \<Rightarrow> Model | Model \<Rightarrow> User) ts)"

definition other :: "g_role \<Rightarrow> g_role" where
  "other r = (case r of User \<Rightarrow> Model | Model \<Rightarrow> User)"

lemma other_simps [simp]: "other User = Model" "other Model = User" "other (other r) = r"
  by (cases r; simp add: other_def)+

lemma role_neq: "r \<noteq> r' \<Longrightarrow> r' = other r"
  by (cases r; cases r') auto

lemma alternates_snoc:
  "ts \<noteq> [] \<Longrightarrow> alternates r (ts @ [(q, t)]) \<longleftrightarrow> alternates r ts \<and> q = other (fst (last ts))"
proof (induction ts arbitrary: r)
  case (Cons x ts)
  obtain p s where x: "x = (p, s)" by (cases x)
  show ?case
  proof (cases ts)
    case Nil
    then show ?thesis by (auto simp: x other_def)
  next
    case (Cons y ys)
    with Cons.IH show ?thesis by (auto simp: x)
  qed
qed simp

lemma alternates_text: "alternates r (ts @ [(q, t)]) \<longleftrightarrow> alternates r (ts @ [(q, t')])"
  by (induction ts arbitrary: r) auto

definition good_turns :: "g_turn list \<Rightarrow> bool" where
  "good_turns out \<longleftrightarrow> alternates User out"

lemma good_append:
  assumes "good_turns out" "out \<noteq> [] \<or> role = User"
  shows "good_turns (append_turn role t out)"
proof (cases "out = []")
  case False
  then obtain ts q s where o: "out = ts @ [(q, s)]" by (metis append_butlast_last_id surj_pair)
  show ?thesis
  proof (cases "q = role")
    case True
    then show ?thesis using assms(1) alternates_text [of User ts role s]
      by (simp add: good_turns_def append_turn_def o)
  next
    case other: False
    then show ?thesis using assms(1) role_neq [OF other] alternates_snoc [of "ts @ [(q, s)]" User role t]
      by (simp add: good_turns_def append_turn_def o)
  qed
qed (use assms in \<open>simp add: good_turns_def append_turn_def\<close>)

lemma append_not_Nil [simp]: "append_turn role t out \<noteq> []"
  by (simp add: append_turn_def)

lemma good_emit: "good_turns out \<Longrightarrow> good_turns (emit items out)"
proof (induction items out rule: emit.induct)
  case (2 p items out)
  have "good_turns (emit_prelude p (next_real items) out)"
    using 2(2) by (auto simp: emit_prelude_def last_role_def Let_def split: option.splits g_role.splits
        intro!: good_append)
  then show ?case using 2(1) by simp
next
  case (3 r t items out)
  have "good_turns (emit_real r t out)" using 3(2) by (auto simp: emit_real_def intro!: good_append)
  then show ?case using 3(1) by simp
qed simp

section \<open>Nothing is lost, and system text stands alone\<close>

text \<open>A turn that is followed by another is never touched again; the last one only grows.\<close>

lemma append_keeps: "x \<in> set (butlast out) \<Longrightarrow> x \<in> set (butlast (append_turn r t out))"
  by (cases out rule: rev_cases) (auto simp: append_turn_def butlast_append)

lemma append_seals: "out \<noteq> [] \<Longrightarrow> fst (last out) \<noteq> r \<Longrightarrow> last out \<in> set (butlast (append_turn r t out))"
  by (cases out rule: rev_cases) (auto simp: append_turn_def butlast_append)

lemma prelude_keeps: "x \<in> set (butlast out) \<Longrightarrow> x \<in> set (butlast (emit_prelude p nx out))"
  by (auto simp: emit_prelude_def Let_def intro!: append_keeps split: option.splits g_role.splits)

lemma real_keeps: "x \<in> set (butlast out) \<Longrightarrow> x \<in> set (butlast (emit_real r t out))"
  by (auto simp: emit_real_def intro!: append_keeps)

lemma emit_keeps: "x \<in> set (butlast out) \<Longrightarrow> x \<in> set (emit items out)"
  by (induction items out rule: emit.induct) (auto dest: in_set_butlastD prelude_keeps real_keeps)

lemma last_role_append [simp]: "last_role (append_turn r t out) = Some r"
  by (simp add: last_role_def append_turn_def)

lemma prelude_turn:
  shows "nx \<noteq> Some Model \<and> nx \<noteq> None \<or> last_role out = None \<and> nx = None \<Longrightarrow> (User, p) \<in> set (butlast (emit_prelude p nx out))"
    and "nx = Some Model \<or> nx = None \<and> last_role out \<noteq> None \<Longrightarrow> emit_prelude p nx out \<noteq> [] \<and> last (emit_prelude p nx out) = (User, p)"
  by (auto simp: emit_prelude_def append_turn_def last_role_def Let_def butlast_append split: option.splits g_role.splits if_splits)

fun separated :: "cleaned_item list \<Rightarrow> bool" where
  "separated (Prelude p # Prelude q # items) = False"
| "separated (x # items) = separated items"
| "separated [] = True"

lemma separated_tail: "separated (x # items) \<Longrightarrow> separated items"
  by (cases x; cases items; cases "hd items") auto

lemma clean_separated: "separated (clean evs pending)"
  by (induction evs pending rule: clean.induct) (auto simp: neq_Nil_conv)

lemma prelude_stays:
  assumes "separated (Prelude p # items)"
  shows "(User, p) \<in> set (emit items (emit_prelude p (next_real items) out))"
proof (cases "(User, p) \<in> set (butlast (emit_prelude p (next_real items) out))")
  case True
  then show ?thesis by (rule emit_keeps)
next
  case False
  with prelude_turn(1) [of "next_real items" out p] have n: "next_real items = Some Model \<or> next_real items = None \<and> last_role out \<noteq> None"
    by (cases "next_real items"; cases "the (next_real items)") auto
  from prelude_turn(2) [OF this, of p] have l: "emit_prelude p (next_real items) out \<noteq> []"
      "last (emit_prelude p (next_real items) out) = (User, p)" by simp_all
  show ?thesis
  proof (cases items)
    case Nil
    then show ?thesis using l last_in_set by (metis emit.simps(1))
  next
    case (Cons x xs)
    with assms obtain r t where x: "x = Real r t" by (cases x) auto
    with n Cons have "r = Model" by simp
    then have "(User, p) \<in> set (butlast (emit_real r t (emit_prelude p (next_real items) out)))"
      using append_seals [OF l(1), of r t] l by (simp add: emit_real_def)
    then show ?thesis using emit_keeps by (simp add: Cons x)
  qed
qed

definition holds :: "g_role \<Rightarrow> str \<Rightarrow> g_turn list \<Rightarrow> bool" where
  "holds r t out = list_ex (\<lambda>(r', t'). r' = r \<and> str_in t t') out"

lemma holds_append: "holds r t out \<Longrightarrow> holds r t (append_turn q u out)"
proof -
  have "sublist t b \<Longrightarrow> sublist t (b @ c)" for b c by (metis append.assoc sublist_def)
  then show "holds r t out \<Longrightarrow> holds r t (append_turn q u out)"
    by (cases out rule: rev_cases) (auto simp: holds_def append_turn_def str_in_def list_ex_iff)
qed

lemma holds_new: "holds r t (append_turn r t out)"
proof -
  have i: "str_in t (x @ t)" for x by (simp add: str_in_def suffix_imp_sublist suffixI)
  show ?thesis using i [of "[]"] i [of "snd (last out) @ [10]"] by (simp add: holds_def append_turn_def list_ex_iff)
qed

lemma holds_emit: "holds r t out \<Longrightarrow> holds r t (emit items out)"
proof (induction items out rule: emit.induct)
  case (2 p items out)
  have "holds r t (emit_prelude p (next_real items) out)"
    using 2(2) by (auto simp: emit_prelude_def Let_def intro!: holds_append split: option.splits g_role.splits)
  then show ?case using 2(1) by simp
next
  case (3 r' t' items out)
  have "holds r t (emit_real r' t' out)" using 3(2) by (auto simp: emit_real_def intro!: holds_append)
  then show ?case using 3(1) by simp
qed simp

lemma emit_items:
  "separated items \<Longrightarrow> list_all (\<lambda>item. case item of Prelude p \<Rightarrow> (User, p) \<in> set (emit items out)
     | Real r t \<Rightarrow> holds r t (emit items out)) items"
proof (induction items out rule: emit.induct)
  case (2 p items out)
  then have "separated items" using separated_tail by blast
  with 2 have "list_all (\<lambda>item. case item of Prelude p' \<Rightarrow> (User, p') \<in> set (emit (Prelude p # items) out)
     | Real r t \<Rightarrow> holds r t (emit (Prelude p # items) out)) items" by (simp only: emit.simps)
  with prelude_stays [OF 2(2), of out] show ?case by simp
next
  case (3 r t items out)
  have "holds r t (emit items (emit_real r t out))" by (rule holds_emit) (simp add: emit_real_def holds_new)
  moreover have "list_all (\<lambda>item. case item of Prelude p' \<Rightarrow> (User, p') \<in> set (emit (Real r t # items) out)
     | Real r' t' \<Rightarrow> holds r' t' (emit (Real r t # items) out)) items"
    using 3 separated_tail by (simp only: emit.simps)
  ultimately show ?case by simp
qed simp

section \<open>Properties\<close>


end
