(* ===== verification/VeriflowLogic.thy ===== *)
theory VeriflowLogic
  imports PyPrelude
begin

text \<open>
  The Boolean rules of VeriFlow, \<^verbatim>\<open>veriflow/logic_laws.py\<close>: expressions, their text and
  \<^verbatim>\<open>simplify\<close>. The constructors carry the letter E where the source's name is a HOL constant.
  \<^verbatim>\<open>simplify\<close> calls itself on results of its own calls, so its termination rests on a weight that no
  call increases.
\<close>

section \<open>Expressions\<close>

datatype expr = BoolConst bool | Symbol str | NotE expr | AndE expr expr | OrE expr expr

fun expr_text :: "expr \<Rightarrow> str" where
  "expr_text (BoolConst b) = (if b then U ''T'' else U ''F'')"
| "expr_text (Symbol x) = x"
| "expr_text (NotE e) = [0xac, 40] @ expr_text e @ [41]"
| "expr_text (AndE a b) = [40] @ expr_text a @ [32, 0x2227, 32] @ expr_text b @ [41]"
| "expr_text (OrE a b) = [40] @ expr_text a @ [32, 0x2228, 32] @ expr_text b @ [41]"

section \<open>simplify\<close>

text \<open>The rules for a conjunction and a disjunction of simplified parts, in the order of the source.\<close>

definition simplify_and :: "expr \<Rightarrow> expr \<Rightarrow> expr" where
  "simplify_and left right =
     (if left = right then left
      else if left = BoolConst True then right
      else if right = BoolConst True then left
      else if left = BoolConst False \<or> right = BoolConst False then BoolConst False
      else if (case right of OrE l r \<Rightarrow> l = left | _ \<Rightarrow> False) then left
      else if (case left of OrE l r \<Rightarrow> l = right | _ \<Rightarrow> False) then right
      else AndE left right)"

definition simplify_or :: "expr \<Rightarrow> expr \<Rightarrow> expr" where
  "simplify_or left right =
     (if left = right then left
      else if left = BoolConst False then right
      else if right = BoolConst False then left
      else if left = BoolConst True \<or> right = BoolConst True then BoolConst True
      else if (case right of AndE l r \<Rightarrow> l = left | _ \<Rightarrow> False) then left
      else if (case left of AndE l r \<Rightarrow> l = right | _ \<Rightarrow> False) then right
      else OrE left right)"

function (domintros) simplify :: "expr \<Rightarrow> expr" where
  "simplify (BoolConst b) = BoolConst b"
| "simplify (Symbol x) = Symbol x"
| "simplify (NotE e) =
     (case simplify e of
        BoolConst b \<Rightarrow> BoolConst (\<not> b)
      | NotE i \<Rightarrow> simplify i
      | AndE l r \<Rightarrow> simplify (OrE (NotE l) (NotE r))
      | OrE l r \<Rightarrow> simplify (AndE (NotE l) (NotE r))
      | Symbol x \<Rightarrow> NotE (Symbol x))"
| "simplify (AndE a b) = simplify_and (simplify a) (simplify b)"
| "simplify (OrE a b) = simplify_or (simplify a) (simplify b)"
  by pat_completeness auto

text \<open>A negation weighs twice its argument, so moving it inwards loses weight.\<close>

fun weight :: "expr \<Rightarrow> nat" where
  "weight (BoolConst b) = 1"
| "weight (Symbol x) = 1"
| "weight (NotE e) = 2 * weight e"
| "weight (AndE a b) = Suc (weight a + weight b)"
| "weight (OrE a b) = Suc (weight a + weight b)"

lemma weight_pos [simp]: "0 < weight e"
  by (induction e) auto

lemma weight_rules:
  "weight (simplify_and a b) \<le> Suc (weight a + weight b)" "weight (simplify_or a b) \<le> Suc (weight a + weight b)"
  by (auto simp: simplify_and_def simplify_or_def)

lemma simplify_weight: "simplify_dom e \<Longrightarrow> weight (simplify e) \<le> weight e"
proof (induction e rule: simplify.pinduct)
  case (3 e)
  show ?case
  proof (cases "simplify e")
    case (AndE l r)
    with 3 show ?thesis by (simp add: simplify.psimps)
  next
    case (OrE l r)
    with 3 show ?thesis by (simp add: simplify.psimps)
  next
    case (NotE i)
    with 3 show ?thesis using weight_pos [of i] by (simp add: simplify.psimps)
  qed (use 3 in \<open>simp_all add: simplify.psimps Suc_le_eq\<close>)
next
  case (4 a b)
  then show ?case using weight_rules(1) [of "simplify a" "simplify b"] by (simp add: simplify.psimps)
next
  case (5 a b)
  then show ?case using weight_rules(2) [of "simplify a" "simplify b"] by (simp add: simplify.psimps)
qed (simp_all add: simplify.psimps)

termination simplify
proof (relation "measure weight", goal_cases)
  case (3 e i)
  with simplify_weight [of e] have "weight (NotE i) \<le> weight e" by metis
  with weight_pos [of i] show ?case by (simp del: weight_pos)
next
  case (4 e l r)
  with simplify_weight [of e] have "weight (AndE l r) \<le> weight e" by metis
  then show ?case by simp
next
  case (5 e l r)
  with simplify_weight [of e] have "weight (OrE l r) \<le> weight e" by metis
  then show ?case by simp
qed simp_all

lemma simplify_total: "simplify_dom e"
  by (induction e rule: simplify.induct) (rule simplify.domintros; simp)+

section \<open>Meaning and normal forms\<close>

fun holds_in :: "(str \<Rightarrow> bool) \<Rightarrow> expr \<Rightarrow> bool" where
  "holds_in v (BoolConst b) = b"
| "holds_in v (Symbol x) = v x"
| "holds_in v (NotE e) = (\<not> holds_in v e)"
| "holds_in v (AndE a b) = (holds_in v a \<and> holds_in v b)"
| "holds_in v (OrE a b) = (holds_in v a \<or> holds_in v b)"

lemma holds_rules:
  "holds_in v (simplify_and a b) \<longleftrightarrow> holds_in v a \<and> holds_in v b"
  "holds_in v (simplify_or a b) \<longleftrightarrow> holds_in v a \<or> holds_in v b"
  by (auto simp: simplify_and_def simplify_or_def split: expr.splits)

lemma holds_simplify: "holds_in v (simplify e) \<longleftrightarrow> holds_in v e"
proof (induction e rule: simplify.induct)
  case (3 e)
  then show ?case by (cases "simplify e") auto
qed (auto simp: holds_rules)

text \<open>No constant inside, negations at symbols only, and no rule applies anywhere.\<close>

fun clean_expr :: "expr \<Rightarrow> bool" where
  "clean_expr (BoolConst b) = False"
| "clean_expr (Symbol x) = True"
| "clean_expr (NotE e) = (case e of Symbol x \<Rightarrow> True | _ \<Rightarrow> False)"
| "clean_expr (AndE a b) = (clean_expr a \<and> clean_expr b \<and> simplify_and a b = AndE a b)"
| "clean_expr (OrE a b) = (clean_expr a \<and> clean_expr b \<and> simplify_or a b = OrE a b)"

definition normal_expr :: "expr \<Rightarrow> bool" where
  "normal_expr e \<longleftrightarrow> clean_expr e \<or> (\<exists>b. e = BoolConst b)"

lemma normal_rules:
  assumes "normal_expr a" "normal_expr b"
  shows "normal_expr (simplify_and a b)" "normal_expr (simplify_or a b)"
proof -
  have "simplify_and a b \<in> {a, b, BoolConst False} \<or> simplify_and a b = AndE a b \<and> clean_expr a \<and> clean_expr b"
    using assms by (auto simp: simplify_and_def normal_expr_def)
  then show "normal_expr (simplify_and a b)" using assms by (auto simp: normal_expr_def)
  have "simplify_or a b \<in> {a, b, BoolConst True} \<or> simplify_or a b = OrE a b \<and> clean_expr a \<and> clean_expr b"
    using assms by (auto simp: simplify_or_def normal_expr_def)
  then show "normal_expr (simplify_or a b)" using assms by (auto simp: normal_expr_def)
qed

lemma normal_simplify: "normal_expr (simplify e)"
proof (induction e rule: simplify.induct)
  case (3 e)
  then show ?case by (cases "simplify e") (auto simp: normal_expr_def)
qed (simp_all add: normal_rules, simp_all add: normal_expr_def)

lemma simplify_clean: "clean_expr e \<Longrightarrow> simplify e = e"
proof (induction e)
  case (NotE e)
  then show ?case by (cases e) auto
qed auto

lemma simplify_normal: "normal_expr e \<Longrightarrow> simplify e = e"
  by (auto simp: normal_expr_def simplify_clean)

text \<open>C39: for every expression simplification ends in an expression with the same value under every
  assignment, that is a constant or free of constants, double negations, negated connectives and every pattern
  the rules name; it weighs no more, and simplifying it again changes nothing.\<close>
theorem simplify_correct:
  "(\<forall>v. holds_in v (simplify e) = holds_in v e) \<and> normal_expr (simplify e) \<and> weight (simplify e) \<le> weight e \<and>
   simplify (simplify e) = simplify e"
  using holds_simplify normal_simplify simplify_weight [OF simplify_total] simplify_normal by blast

text \<open>The rules are not complete: a contradiction is not recognised, and absorption looks at the left operand only.\<close>

lemma simplify_incomplete:
  assumes "x \<noteq> y"
  shows "simplify (AndE (Symbol x) (NotE (Symbol x))) = AndE (Symbol x) (NotE (Symbol x))"
    "simplify (AndE (Symbol x) (OrE (Symbol y) (Symbol x))) = AndE (Symbol x) (OrE (Symbol y) (Symbol x))"
  using assms by (simp_all add: simplify_and_def simplify_or_def)

end
