(* ===== verification/GenesisEngine.thy ===== *)
theory GenesisEngine
  imports NutrientEffect
begin

text \<open>
  \<^verbatim>\<open>agent/genesis.py\<close>: the engine that turns remembered threats into new patterns for the probe. A
  synthesized sigil keeps the text of its pattern, by which duplicates are told apart, and beside it the
  expression that \<^verbatim>\<open>re.compile\<close> makes of that text; tokens are escaped by the source, so compiling never
  fails. The new patterns go to the extended library of the nourished guard.
\<close>

section \<open>Sigils\<close>

record synthesized_sigil =
  sy_pattern :: str
  sy_rx :: rx
  sy_name :: str
  sy_origin :: str
  sy_coverage :: pyfloat
  sy_generation :: nat

definition SYNONYM_MAP :: "(str, str list) dict" where
  "SYNONYM_MAP = map (\<lambda>(k, vs). (U k, map U vs))
     [(''ignore'', [''disregard'', ''bypass'', ''skip'', ''forget'', ''override'', ''dismiss'']),
      (''instructions'', [''directives'', ''rules'', ''guidelines'', ''constraints'', ''system'']),
      (''previous'', [''earlier'', ''prior'', ''above'', ''former'', ''past'', ''original'']),
      (''pretend'', [''act as'', ''roleplay as'', ''simulate'', ''imagine you are'', ''become'']),
      (''unrestricted'', [''without limits'', ''no constraints'', ''uncensored'', ''unfiltered'']),
      (''help'', [''assist'', ''provide'', ''give me'', ''tell me'', ''show me'']),
      (''synthesize'', [''make'', ''create'', ''produce'', ''manufacture'', ''build'']),
      (''weapon'', [''explosive'', ''device'', ''compound'', ''substance'', ''agent'']),
      (''override'', [''bypass'', ''circumvent'', ''disable'', ''deactivate'', ''nullify'']),
      (''system'', [''prompt'', ''instructions'', ''directives'', ''core'', ''base'']),
      (''authorized'', [''approved'', ''permitted'', ''sanctioned'', ''allowed'', ''granted'']),
      (''research'', [''academic'', ''educational'', ''scientific'', ''study'', ''thesis''])]"

definition OPT_WORDS :: "string list" where
  "OPT_WORDS = [''all'', ''any'', ''the'', ''your'', ''just'', ''now'', ''please'', ''a'', ''an'']"

text \<open>\<^verbatim>\<open>re.escape\<close>: a backslash before each character with a meaning of its own.\<close>

definition escaped_chars :: str where
  "escaped_chars = U ''()[]{}?*+-|^$.&~# '' @ [92, 9, 10, 13, 11, 12]"

definition re_escape :: "str \<Rightarrow> str" where
  "re_escape t = concat (map (\<lambda>c. if c \<in> set escaped_chars then [92, c] else [c]) t)"

text \<open>An escaped token under \<^verbatim>\<open>re.IGNORECASE\<close>.\<close>

definition token_rx :: "str \<Rightarrow> rx" where
  "token_rx t = cat (map (\<lambda>c. RSetI False [CRange c c]) t)"

definition blanks :: str where "blanks = [92] @ U ''s+''"

fun spread :: "rx \<Rightarrow> rx list \<Rightarrow> rx list" where
  "spread s [] = []"
| "spread s [r] = [r]"
| "spread s (r # q # rs) = r # s # spread s (q # rs)"

section \<open>Mutation\<close>

definition synonym_sigils :: "nat \<Rightarrow> str \<Rightarrow> str list \<Rightarrow> synthesized_sigil list" where
  "synonym_sigils gen frag tokens =
     concat (map (\<lambda>i.
       concat (map (\<lambda>(key, synonyms).
         if startswith key (tokens ! i)
         then map (\<lambda>syn.
             (let variant = tokens[i := syn]
              in \<lparr>sy_pattern = join blanks (map re_escape variant),
                  sy_rx = cat (spread (plus1 sp) (map token_rx variant)),
                  sy_name = U ''gen'' @ nat_str gen @ U '':syn_'' @ key @ [95] @ take 8 syn,
                  sy_origin = frag, sy_coverage = fl (72/100), sy_generation = gen\<rparr>)) (take 3 synonyms)
         else []) SYNONYM_MAP)) [0..<length tokens])"

definition opt_words_text :: str where
  "opt_words_text = U ''(?:'' @ join [124] (map U OPT_WORDS) @ U '')'' @ blanks"

definition optional_sigils :: "(bytes \<Rightarrow> str) \<Rightarrow> nat \<Rightarrow> str \<Rightarrow> str list \<Rightarrow> synthesized_sigil list" where
  "optional_sigils sha gen frag tokens =
     (if 3 \<le> length tokens
      then
        (let middle = butlast (tl tokens)
         in [\<lparr>sy_pattern = re_escape (hd tokens) @ blanks @ U ''(?:'' @ opt_words_text @ U '')??'' @
                join blanks (map re_escape middle) @ blanks @ re_escape (last tokens),
              sy_rx = cat ([token_rx (hd tokens), plus1 sp,
                  RRep False 0 (Some 1) (cat [alt (map RLitI OPT_WORDS), plus1 sp])] @
                spread (plus1 sp) (map token_rx middle) @ [plus1 sp, token_rx (last tokens)]),
              sy_name = U ''gen'' @ nat_str gen @ U '':opt_'' @ take 8 (sha (utf8 frag)),
              sy_origin = frag, sy_coverage = fl (68/100), sy_generation = gen\<rparr>])
      else [])"

definition loose_sep :: str where
  "loose_sep = [91, 92] @ U ''s'' @ [92] @ U ''-_'' @ [92] @ U ''.]*''"

definition loose_sigils :: "(bytes \<Rightarrow> str) \<Rightarrow> nat \<Rightarrow> str \<Rightarrow> str list \<Rightarrow> synthesized_sigil list" where
  "loose_sigils sha gen frag tokens =
     (if 2 \<le> length tokens
      then [\<lparr>sy_pattern = join loose_sep (map re_escape (take 4 tokens)),
             sy_rx = cat (spread (star (RSetI False [CSpace, CRange 45 45, CRange 95 95, CRange 46 46]))
               (map token_rx (take 4 tokens))),
             sy_name = U ''gen'' @ nat_str gen @ U '':ws_'' @ take 8 (sha (utf8 frag)),
             sy_origin = frag, sy_coverage = fl (65/100), sy_generation = gen\<rparr>]
      else [])"

definition mutations :: "(bytes \<Rightarrow> str) \<Rightarrow> nat \<Rightarrow> malignum \<Rightarrow> synthesized_sigil list" where
  "mutations sha gen m =
     (let frag = strip (lower (fragment m)); tokens = split_ws frag
      in synonym_sigils gen frag tokens @ optional_sigils sha gen frag tokens @ loose_sigils sha gen frag tokens)"

text \<open>The first sigil of each pattern text, and only texts of more than eight characters.\<close>

fun unique_sigils :: "str list \<Rightarrow> synthesized_sigil list \<Rightarrow> synthesized_sigil list" where
  "unique_sigils seen [] = []"
| "unique_sigils seen (s # ss) =
     (if sy_pattern s \<notin> set seen \<and> 8 < length (sy_pattern s) then s # unique_sigils (sy_pattern s # seen) ss
      else unique_sigils seen ss)"

record genesis =
  gn_max_per_cycle :: nat
  gn_synthesized :: "synthesized_sigil list"
  gn_generation :: nat
  gn_injected :: "(rx \<times> str) list"

definition new_genesis :: genesis where
  "new_genesis = \<lparr>gn_max_per_cycle = 50, gn_synthesized = [], gn_generation = 0, gn_injected = []\<rparr>"

definition mutate :: "(bytes \<Rightarrow> str) \<Rightarrow> malignum list \<Rightarrow> genesis \<Rightarrow> synthesized_sigil list \<times> genesis" where
  "mutate sha maligna g =
     (let g = g\<lparr>gn_generation := gn_generation g + 1\<rparr>;
          unique = unique_sigils [] (concat (map (mutations sha (gn_generation g)) maligna));
          kept = take (gn_max_per_cycle g) (sort_key (\<lambda>s. - sy_coverage s) unique)
      in (kept, g\<lparr>gn_synthesized := gn_synthesized g @ kept\<rparr>))"

section \<open>Harvest, injection, evolution\<close>

definition harvest :: "nourished \<Rightarrow> malignum list" where
  "harvest n = filter (\<lambda>m. depth_value GRAVE \<le> depth_value (m_depth m))
     (dvals (antibody_vault (mnemosyne_cache (cytokine_command (nr_aegis n)))))"

definition inject :: "synthesized_sigil list \<Rightarrow> nourished \<Rightarrow> genesis \<Rightarrow> nat \<times> nourished \<times> genesis" where
  "inject sigils n g =
     (let compiled = map (\<lambda>s. (sy_rx s, sy_name s)) sigils
      in (length compiled,
          n\<lparr>nr_extended_sigils := Some ((case nr_extended_sigils n of None \<Rightarrow> [] | Some xs \<Rightarrow> xs) @ compiled)\<rparr>,
          g\<lparr>gn_injected := gn_injected g @ compiled\<rparr>))"

record evolution_report =
  ev_generation :: nat
  ev_harvested :: nat
  ev_synthesized :: "nat option"
  ev_injected :: nat
  ev_library :: "nat option"

definition evolve :: "(bytes \<Rightarrow> str) \<Rightarrow> nourished \<times> genesis \<Rightarrow> evolution_report \<times> nourished \<times> genesis" where
  "evolve sha = (\<lambda>(n, g).
     (let harvested = harvest n
      in if harvested = []
         then (\<lparr>ev_generation = gn_generation g, ev_harvested = 0, ev_synthesized = None, ev_injected = 0,
                ev_library = None\<rparr>, n, g)
         else
           (let (synthesized, g) = mutate sha harvested g;
                (injected, n, g) = inject synthesized n g
            in (\<lparr>ev_generation = gn_generation g, ev_harvested = length harvested,
                 ev_synthesized = Some (length synthesized), ev_injected = injected,
                 ev_library = Some (length (gn_synthesized g))\<rparr>, n, g))))"

section \<open>What a generation changes in a sigil\<close>

definition bare :: "synthesized_sigil \<Rightarrow> str \<times> rx \<times> pyfloat" where
  "bare s = (sy_pattern s, sy_rx s, sy_coverage s)"

lemma map_concat_map: "map f (concat (map g xs)) = concat (map (\<lambda>x. map f (g x)) xs)"
  by (simp add: map_concat o_def)

lemma bare_synonym: "map bare (synonym_sigils k fr tokens) = map bare (synonym_sigils k' fr tokens)"
  unfolding synonym_sigils_def map_concat_map
  by (rule arg_cong [where f = concat], rule map_cong [OF refl], rule arg_cong [where f = concat], rule map_cong [OF refl])
    (auto simp: bare_def Let_def)

lemma bare_mutations: "map bare (mutations sha k m) = map bare (mutations sha k' m)"
  using bare_synonym [of k _ _ k'] by (simp add: mutations_def optional_sigils_def loose_sigils_def Let_def bare_def)

lemma bare_unique:
  "map bare ss = map bare ss' \<Longrightarrow> map bare (unique_sigils seen ss) = map bare (unique_sigils seen ss')"
proof (induction ss arbitrary: ss' seen)
  case (Cons s ss)
  then obtain s' ss'' where s: "ss' = s' # ss''" "bare s = bare s'" "map bare ss = map bare ss''" by (cases ss') auto
  with Cons.IH [OF s(3)] show ?case by (simp add: s(1) bare_def)
qed simp

lemma map_sort_key: "map f (sort_key (\<lambda>s. k (f s)) xs) = sort_key k (map f xs)"
proof (induction xs)
  case (Cons x xs)
  have "map f (insort_key (\<lambda>s. k (f s)) x ys) = insort_key k (f x) (map f ys)" for ys by (induction ys) auto
  with Cons show ?case by simp
qed simp

lemma bare_mutate: "map bare (fst (mutate sha ms g)) = map bare (fst (mutate sha ms (g\<lparr>gn_generation := k\<rparr>)))"
proof -
  let ?c = "\<lambda>k. concat (map (mutations sha k) ms)"
  have "map bare (?c k) = map bare (?c k')" for k k'
    unfolding map_concat_map by (intro arg_cong [where f = concat] map_cong refl bare_mutations)
  then have u: "map bare (unique_sigils [] (?c k)) = map bare (unique_sigils [] (?c k'))" for k k'
    by (rule bare_unique)
  have "map bare (sort_key (\<lambda>s. - sy_coverage s) ss) = sort_key (\<lambda>t. - snd (snd t)) (map bare ss)" for ss
    using map_sort_key [of bare "\<lambda>t. - snd (snd t)" ss] by (simp add: bare_def)
  with u [of "Suc (gn_generation g)" "Suc k"] show ?thesis by (simp add: mutate_def Let_def take_map [symmetric])
qed

lemma unique_props:
  "distinct (map sy_pattern (unique_sigils seen ss)) \<and> set (map sy_pattern (unique_sigils seen ss)) \<inter> set seen = {} \<and>
   list_all (\<lambda>s. 8 < length (sy_pattern s)) (unique_sigils seen ss)"
  by (induction seen ss rule: unique_sigils.induct) auto

lemma mutate_props:
  "distinct (map sy_pattern (fst (mutate sha ms g))) \<and> length (fst (mutate sha ms g)) \<le> gn_max_per_cycle g \<and>
   list_all (\<lambda>s. 8 < length (sy_pattern s)) (fst (mutate sha ms g))"
proof -
  let ?u = "unique_sigils [] (concat (map (mutations sha (Suc (gn_generation g))) ms))"
  let ?s = "sort_key (\<lambda>s. - sy_coverage s) ?u"
  have m: "fst (mutate sha ms g) = take (gn_max_per_cycle g) ?s" by (simp add: mutate_def Let_def)
  have "distinct (map sy_pattern ?s)" using unique_props [of "[]"] by (simp add: distinct_map)
  moreover have "list_all (\<lambda>s. 8 < length (sy_pattern s)) ?s" using unique_props [of "[]"] by (simp add: list_all_iff)
  ultimately show ?thesis unfolding m
    by (auto simp: take_map [symmetric] list_all_iff dest: in_set_takeD)
qed

fun evolve_times :: "(bytes \<Rightarrow> str) \<Rightarrow> nat \<Rightarrow> nourished \<times> genesis \<Rightarrow> nourished \<times> genesis" where
  "evolve_times sha 0 s = s"
| "evolve_times sha (Suc k) s = evolve_times sha k (snd (evolve sha s))"

definition library :: "nourished \<Rightarrow> (rx \<times> str) list" where
  "library n = (case nr_extended_sigils n of None \<Rightarrow> [] | Some xs \<Rightarrow> xs)"

text \<open>A cycle over a vault that holds a grave threat, and as many of them as are run.\<close>

definition harvested_sigils :: "(bytes \<Rightarrow> str) \<Rightarrow> nourished \<Rightarrow> genesis \<Rightarrow> synthesized_sigil list" where
  "harvested_sigils sha n g = fst (mutate sha (harvest n) g)"

lemma evolve_step:
  assumes "harvest n \<noteq> []"
  shows "library (fst (snd (evolve sha (n, g)))) = library n @ map (\<lambda>s. (sy_rx s, sy_name s)) (harvested_sigils sha n g)"
    "nr_aegis (fst (snd (evolve sha (n, g)))) = nr_aegis n"
    "snd (snd (evolve sha (n, g))) = g\<lparr>gn_generation := gn_generation g + 1,
       gn_synthesized := gn_synthesized g @ harvested_sigils sha n g,
       gn_injected := gn_injected g @ map (\<lambda>s. (sy_rx s, sy_name s)) (harvested_sigils sha n g)\<rparr>"
  using assms by (simp_all add: evolve_def mutate_def inject_def library_def harvested_sigils_def Let_def)

lemma harvest_aegis: "nr_aegis n = nr_aegis n' \<Longrightarrow> harvest n = harvest n'"
  by (simp add: harvest_def)

lemma bare_harvested:
  assumes "nr_aegis n = nr_aegis n'" and "gn_max_per_cycle g = gn_max_per_cycle g'"
  shows "map bare (harvested_sigils sha n g) = map bare (harvested_sigils sha n' g')"
proof -
  have "fst (mutate sha ms (g\<lparr>gn_generation := gn_generation g'\<rparr>)) = fst (mutate sha ms g')" for ms
    using assms(2) by (simp add: mutate_def Let_def)
  with bare_mutate [of sha "harvest n" g "gn_generation g'"] show ?thesis
    by (simp add: harvested_sigils_def harvest_aegis [OF assms(1)])
qed

lemma patterns_of_bare: "map bare ss = map bare ss' \<Longrightarrow> map sy_pattern ss = map sy_pattern ss' \<and> map sy_rx ss = map sy_rx ss'"
  using map_map [of fst bare] map_map [of "\<lambda>t. fst (snd t)" bare]
  by (metis (no_types, lifting) bare_def comp_apply fst_conv map_eq_conv snd_conv list.map_comp)

lemma evolve_times_library:
  assumes "harvest n \<noteq> []"
  shows "map fst (library (fst (evolve_times sha k (n, g)))) =
      map fst (library n) @ concat (replicate k (map sy_rx (harvested_sigils sha n g)))"
  using assms
proof (induction k arbitrary: n g)
  case (Suc k)
  let ?n = "fst (snd (evolve sha (n, g)))" and ?g = "snd (snd (evolve sha (n, g)))"
  note step = evolve_step [OF Suc.prems, of sha g]
  from step(2) have h: "harvest ?n \<noteq> []" using Suc.prems harvest_aegis by metis
  from step(3) have "gn_max_per_cycle ?g = gn_max_per_cycle g" by simp
  from patterns_of_bare [OF bare_harvested [OF step(2) this]]
  have same: "map sy_rx (harvested_sigils sha ?n ?g) = map sy_rx (harvested_sigils sha n g)" by blast
  have "evolve_times sha (Suc k) (n, g) = evolve_times sha k (?n, ?g)" by simp
  with Suc.IH [OF h, of ?g] show ?case by (simp add: step(1) same o_def)
qed simp

text \<open>
  C1: The engine learns once. Whatever the number of cycles it runs over an unchanged vault, every cycle appends the
  same expressions to the library again: within a cycle the pattern texts are distinct, longer than eight
  characters and at most \<^verbatim>\<open>max_patterns_per_cycle\<close>, but nothing is compared with the cycles before, so the
  library grows by equal copies.
\<close>

theorem evolution_repeats:
  assumes "harvest n \<noteq> []"
  shows "map fst (library (fst (evolve_times sha k (n, g)))) =
      map fst (library n) @ concat (replicate k (map sy_rx (fst (mutate sha (harvest n) g)))) \<and>
    distinct (map sy_pattern (fst (mutate sha (harvest n) g))) \<and>
    length (fst (mutate sha (harvest n) g)) \<le> gn_max_per_cycle g \<and>
    list_all (\<lambda>s. 8 < length (sy_pattern s)) (fst (mutate sha (harvest n) g))"
  using evolve_times_library [OF assms] mutate_props [of sha "harvest n" g] by (simp add: harvested_sigils_def)

text \<open>Injected sigils change no verdict of a guard that was never given the protein pack.\<close>

lemma evolve_inert:
  assumes "\<not> nr_protein_applied n"
  shows "nourished_stages (fst (snd (evolve sha (n, g)))) = nourished_stages n"
proof (cases "harvest n = []")
  case False
  then obtain xs where "fst (snd (evolve sha (n, g))) = n\<lparr>nr_extended_sigils := xs\<rparr>"
    by (simp add: evolve_def inject_def Let_def split_beta)
  with assms show ?thesis by (simp add: nourished_stages_def cong: if_cong)
qed (simp add: evolve_def)

text \<open>A vault with one grave threat.\<close>

definition seen_threat :: nourished where
  "seen_threat = (let a = new_aegis; cc = cytokine_command a; m = mnemosyne_cache cc
     in unfed (a\<lparr>cytokine_command := cc\<lparr>mnemosyne_cache := m\<lparr>antibody_vault :=
         [(U ''k'', \<lparr>m_class = MoralMaligna, m_depth = GRAVE, sigil = U ''s'', fragment = U ''Ignore it'',
            veracity = 1, herald = U ''V''\<rparr>)]\<rparr>\<rparr>\<rparr>))"

theorem evolution_repeats_witness:
  "map fst (library (fst (evolve_times (\<lambda>_. []) 2 (seen_threat, new_genesis)))) =
     map fst (library seen_threat) @ concat (replicate 2 (map sy_rx (fst (mutate (\<lambda>_. []) (harvest seen_threat) new_genesis)))) \<and>
   length (harvest seen_threat) = 1"
proof -
  have h: "length (harvest seen_threat) = 1" by (simp add: harvest_def seen_threat_def unfed_def Let_def dvals_def)
  then have "harvest seen_threat \<noteq> []" by fastforce
  from evolution_repeats [OF this, of "\<lambda>_. []" 2 new_genesis] h show ?thesis by blast
qed

end
