(* ===== verification/SentinelChat.thy ===== *)
theory SentinelChat
  imports GenesisEngine VitalityCare
begin

text \<open>
  \<^verbatim>\<open>agent/sentinel_ai.py\<close>: the wrapper that judges every message before a model sees it. The adapter is an
  argument: what \<^verbatim>\<open>complete\<close> and \<^verbatim>\<open>stream\<close> do to a world of its own, with an exception of \<^verbatim>\<open>complete\<close> as
  \<open>None\<close> and a stream as the chunks it gave and whether it then failed. A generator of \<^verbatim>\<open>stream_chat\<close> is taken to
  be consumed to its end. Log lines and the thread named in the documentation, which does not exist, are left out.
\<close>

section \<open>The adapter and the session\<close>

type_synonym chat_turn = "str \<times> str"

record ('w, 'k) chat_adapter =
  ad_provider :: str
  ad_model :: str
  ad_streams :: bool
  ad_complete :: "chat_turn list \<Rightarrow> str option \<Rightarrow> 'k \<Rightarrow> 'w \<Rightarrow> str option \<times> 'w"
  ad_stream :: "chat_turn list \<Rightarrow> str option \<Rightarrow> 'k \<Rightarrow> 'w \<Rightarrow> (str list \<times> bool) \<times> 'w"

text \<open>What the environment answers: the hash, Unicode normalisation, \<^verbatim>\<open>float\<close> of a text, and per call the clocks.\<close>

record surroundings =
  su_sha :: "bytes \<Rightarrow> str"
  su_nfc :: "str \<Rightarrow> str"
  su_float :: "str \<Rightarrow> pyfloat"

record instant =
  it_begin :: pyfloat
  it_end :: pyfloat
  it_now :: pyfloat
  it_stamp :: str
  it_elapsed :: pyfloat

record guarded_response =
  gr_content :: str
  gr_verdict :: aegis_verdict
  gr_blocked :: bool
  gr_sanitized :: bool
  gr_evolution :: "evolution_report option"
  gr_latency_ms :: pyfloat
  gr_provider :: str
  gr_model :: str

definition safe :: "guarded_response \<Rightarrow> bool" where
  "safe r \<longleftrightarrow> \<not> gr_blocked r"

record sentinel_ai =
  sn_system :: "str option"
  sn_auto_evolve :: bool
  sn_evolve_every :: int
  sn_vitality :: orchestrator
  sn_genesis :: genesis
  sn_adjudications :: nat
  sn_blocked :: nat
  sn_evolutions :: "evolution_report list"
  sn_conversation :: "chat_turn list"

definition REFUSAL_MESSAGE :: str where
  "REFUSAL_MESSAGE = U ''I'' @ [39] @ U ''m not able to assist with that request. If you have a different question, I'' @ [39]
     @ U ''m happy to help.''"

definition ADAPTER_ERROR :: str where
  "ADAPTER_ERROR = U ''I encountered an error processing your request.''"

definition new_sentinel :: "str option \<Rightarrow> bool \<Rightarrow> int \<Rightarrow> bool \<Rightarrow> pyfloat \<Rightarrow> sentinel_ai" where
  "new_sentinel system auto_evolve every auto_nourish now =
     (let r = new_orchestrator new_aegis now
      in \<lparr>sn_system = system, sn_auto_evolve = auto_evolve, sn_evolve_every = every,
          sn_vitality = (if auto_nourish then snd (or_nourish r) else r), sn_genesis = new_genesis,
          sn_adjudications = 0, sn_blocked = 0, sn_evolutions = [], sn_conversation = []\<rparr>)"

section \<open>Judging and evolving\<close>

definition judge_message ::
  "surroundings \<Rightarrow> instant \<Rightarrow> str \<Rightarrow> ctx option \<Rightarrow> sentinel_ai \<Rightarrow> aegis_verdict \<times> sentinel_ai" where
  "judge_message su t message given s =
     (let r = sn_vitality s;
          ((verdict, observations), v) =
            adjudicate_with_vitality (su_nfc su) (su_float su) (nourished_core (su_sha su) (it_stamp t) (it_elapsed t))
              (\<lambda>n. aegis_codex_of (nr_aegis n)) (it_now t) message given (or_vitality r)
      in (verdict, s\<lparr>sn_vitality := r\<lparr>or_vitality := v\<rparr>, sn_adjudications := sn_adjudications s + 1\<rparr>))"

definition background_evolve :: "surroundings \<Rightarrow> sentinel_ai \<Rightarrow> evolution_report \<times> sentinel_ai" where
  "background_evolve su s =
     (let r = sn_vitality s;
          (report, n, g) = evolve (su_sha su) (vt_core (or_vitality r), sn_genesis s)
      in (report, s\<lparr>sn_vitality := r\<lparr>or_vitality := (or_vitality r)\<lparr>vt_core := n\<rparr>\<rparr>, sn_genesis := g,
            sn_evolutions := sn_evolutions s @ [report]\<rparr>))"

datatype chat_error = ZeroDivision

text \<open>\<^verbatim>\<open>self._adjudication_count % self._evolve_every\<close> raises when the period is zero.\<close>

definition auto_evolve_check ::
  "surroundings \<Rightarrow> sentinel_ai \<Rightarrow> (chat_error + evolution_report option) \<times> sentinel_ai" where
  "auto_evolve_check su s =
     (if \<not> sn_auto_evolve s then (Inr None, s)
      else if sn_evolve_every s = 0 then (Inl ZeroDivision, s)
      else if int (sn_adjudications s) mod sn_evolve_every s = 0
      then (let (report, s) = background_evolve su s in (Inr (Some report), s))
      else (Inr None, s))"

section \<open>Chat\<close>

text \<open>\<^verbatim>\<open>verdict.purified_payload or message\<close>: an empty purified text falls back to the message too.\<close>

definition forwarded :: "aegis_verdict \<Rightarrow> str \<Rightarrow> str" where
  "forwarded v message = (case purified_payload v of None \<Rightarrow> message | Some p \<Rightarrow> if p = [] then message else p)"

definition ask ::
  "('w, 'k) chat_adapter \<Rightarrow> 'k \<Rightarrow> sentinel_ai \<Rightarrow> 'w \<Rightarrow> str option \<times> 'w" where
  "ask ad kw s w = ad_complete ad (sn_conversation s) (sn_system s) kw w"

definition add_turn :: "string \<Rightarrow> str \<Rightarrow> sentinel_ai \<Rightarrow> sentinel_ai" where
  "add_turn who words s = s\<lparr>sn_conversation := sn_conversation s @ [(U who, words)]\<rparr>"

definition chat ::
  "surroundings \<Rightarrow> ('w, 'k) chat_adapter \<Rightarrow> instant \<Rightarrow> str \<Rightarrow> ctx option \<Rightarrow> 'k \<Rightarrow> sentinel_ai \<times> 'w
     \<Rightarrow> (chat_error + guarded_response) \<times> sentinel_ai \<times> 'w" where
  "chat su ad t message given kw = (\<lambda>(s, w).
     (let (verdict, s) = judge_message su t message given s;
          latency = fmul (fsub (it_end t) (it_begin t)) 1000
      in case auto_evolve_check su s of
        (Inl e, s) \<Rightarrow> (Inl e, s, w)
      | (Inr evo_report, s) \<Rightarrow>
          if is_condemned verdict
          then (Inr \<lparr>gr_content = REFUSAL_MESSAGE, gr_verdict = verdict, gr_blocked = True, gr_sanitized = False,
                  gr_evolution = evo_report, gr_latency_ms = latency, gr_provider = ad_provider ad, gr_model = ad_model ad\<rparr>,
                s\<lparr>sn_blocked := sn_blocked s + 1\<rparr>, w)
          else
            (let s = add_turn ''user'' (forwarded verdict message) s;
                 (answer, w) = ask ad kw s w;
                 response_text = (case answer of None \<Rightarrow> ADAPTER_ERROR | Some r \<Rightarrow> r)
             in (Inr \<lparr>gr_content = response_text, gr_verdict = verdict, gr_blocked = False,
                    gr_sanitized = (purified_payload verdict \<noteq> None), gr_evolution = evo_report, gr_latency_ms = latency,
                    gr_provider = ad_provider ad, gr_model = ad_model ad\<rparr>,
                  add_turn ''assistant'' response_text s, w))))"

text \<open>The chunks that were given, and whether an exception of the adapter ended them.\<close>

definition stream_chat ::
  "surroundings \<Rightarrow> ('w, 'k) chat_adapter \<Rightarrow> instant \<Rightarrow> str \<Rightarrow> ctx option \<Rightarrow> 'k \<Rightarrow> sentinel_ai \<times> 'w
     \<Rightarrow> (str list \<times> bool) \<times> sentinel_ai \<times> 'w" where
  "stream_chat su ad t message given kw = (\<lambda>(s, w).
     (let (verdict, s) = judge_message su t message given s
      in if is_condemned verdict then (([REFUSAL_MESSAGE], False), s\<lparr>sn_blocked := sn_blocked s + 1\<rparr>, w)
         else
           (let s = add_turn ''user'' (forwarded verdict message) s
            in if ad_streams ad
               then (let ((chunks, failed), w) = ad_stream ad (sn_conversation s) (sn_system s) kw w
                     in ((chunks, failed), if failed then s else add_turn ''assistant'' (concat chunks) s, w))
               else
                 (case ask ad kw s w of
                    (None, w) \<Rightarrow> (([], True), s, w)
                  | (Some response, w) \<Rightarrow> (([response], False), add_turn ''assistant'' response s, w)))))"

definition reset_conversation :: "sentinel_ai \<Rightarrow> sentinel_ai" where
  "reset_conversation s = s\<lparr>sn_conversation := []\<rparr>"

definition evolve_now :: "surroundings \<Rightarrow> sentinel_ai \<Rightarrow> evolution_report \<times> sentinel_ai" where
  "evolve_now = background_evolve"

record sentinel_status =
  st_adjudications :: nat
  st_blocked :: nat
  st_block_rate :: str
  st_generation :: nat
  st_patterns :: nat
  st_vault_depth :: nat
  st_sanctification_rate :: str

definition sentinel_state :: "sentinel_ai \<Rightarrow> sentinel_status" where
  "sentinel_state s =
     (let c = codex (nr_aegis (vt_core (or_vitality (sn_vitality s))))
      in \<lparr>st_adjudications = sn_adjudications s, st_blocked = sn_blocked s,
          st_block_rate = percent1 (fdiv (of_nat (sn_blocked s)) (of_nat (max 1 (sn_adjudications s)))),
          st_generation = gn_generation (sn_genesis s), st_patterns = length (gn_synthesized (sn_genesis s)),
          st_vault_depth = antibody_vault_depth c, st_sanctification_rate = sanctification_rate c\<rparr>)"

section \<open>A session\<close>

datatype 'k operation =
    Chat instant str "ctx option" 'k
  | StreamChat instant str "ctx option" 'k
  | ResetConversation
  | EvolveNow

fun operate :: "surroundings \<Rightarrow> ('w, 'k) chat_adapter \<Rightarrow> 'k operation \<Rightarrow> sentinel_ai \<times> 'w \<Rightarrow> sentinel_ai \<times> 'w" where
  "operate su ad (Chat t message given kw) sw = snd (chat su ad t message given kw sw)"
| "operate su ad (StreamChat t message given kw) sw = snd (stream_chat su ad t message given kw sw)"
| "operate su ad ResetConversation sw = (reset_conversation (fst sw), snd sw)"
| "operate su ad EvolveNow sw = (snd (evolve_now su (fst sw)), snd sw)"

section \<open>What no operation changes\<close>

lemma judge_fields:
  "sn_blocked (snd (judge_message su t m given s)) = sn_blocked s"
  "sn_conversation (snd (judge_message su t m given s)) = sn_conversation s"
  "sn_adjudications (snd (judge_message su t m given s)) = sn_adjudications s + 1"
  "sn_auto_evolve (snd (judge_message su t m given s)) = sn_auto_evolve s"
  "sn_evolve_every (snd (judge_message su t m given s)) = sn_evolve_every s"
  "sn_system (snd (judge_message su t m given s)) = sn_system s"
  by (simp_all add: judge_message_def Let_def split_beta)

lemma evolve_fields:
  "sn_blocked (snd (background_evolve su s)) = sn_blocked s"
  "sn_conversation (snd (background_evolve su s)) = sn_conversation s"
  "sn_adjudications (snd (background_evolve su s)) = sn_adjudications s"
  "sn_auto_evolve (snd (background_evolve su s)) = sn_auto_evolve s"
  "sn_evolve_every (snd (background_evolve su s)) = sn_evolve_every s"
  "sn_system (snd (background_evolve su s)) = sn_system s"
  by (simp_all add: background_evolve_def Let_def split_beta)

lemma check_fields:
  "sn_blocked (snd (auto_evolve_check su s)) = sn_blocked s"
  "sn_conversation (snd (auto_evolve_check su s)) = sn_conversation s"
  "sn_adjudications (snd (auto_evolve_check su s)) = sn_adjudications s"
  "sn_auto_evolve (snd (auto_evolve_check su s)) = sn_auto_evolve s"
  "sn_evolve_every (snd (auto_evolve_check su s)) = sn_evolve_every s"
  "sn_system (snd (auto_evolve_check su s)) = sn_system s"
  by (simp_all add: auto_evolve_check_def Let_def split_beta evolve_fields)

lemmas session_fields = judge_fields evolve_fields check_fields

lemma check_ok:
  "(sn_auto_evolve s \<Longrightarrow> sn_evolve_every s \<noteq> 0) \<Longrightarrow> \<exists>evo. fst (auto_evolve_check su s) = Inr evo"
  by (auto simp: auto_evolve_check_def Let_def split_beta)

definition ruling :: "surroundings \<Rightarrow> instant \<Rightarrow> str \<Rightarrow> ctx option \<Rightarrow> sentinel_ai \<Rightarrow> aegis_verdict" where
  "ruling su t message given s = fst (judge_message su t message given s)"

text \<open>The session after the verdict and, for a chat, the check for evolution.\<close>

definition judged :: "surroundings \<Rightarrow> instant \<Rightarrow> str \<Rightarrow> ctx option \<Rightarrow> sentinel_ai \<Rightarrow> sentinel_ai" where
  "judged su t message given s = snd (auto_evolve_check su (snd (judge_message su t message given s)))"

lemma judged_fields:
  "sn_blocked (judged su t m given s) = sn_blocked s"
  "sn_conversation (judged su t m given s) = sn_conversation s"
  "sn_adjudications (judged su t m given s) = sn_adjudications s + 1"
  "sn_auto_evolve (judged su t m given s) = sn_auto_evolve s"
  "sn_evolve_every (judged su t m given s) = sn_evolve_every s"
  "sn_system (judged su t m given s) = sn_system s"
  by (simp_all add: judged_def session_fields)

lemma chat_condemned:
  assumes "is_condemned (ruling su t m given s)"
  shows "snd (snd (chat su ad t m given kw (s, w))) = w"
    "sn_conversation (fst (snd (chat su ad t m given kw (s, w)))) = sn_conversation s"
    "case fst (chat su ad t m given kw (s, w)) of Inl e \<Rightarrow> sn_auto_evolve s \<and> sn_evolve_every s = 0
     | Inr r \<Rightarrow> gr_content r = REFUSAL_MESSAGE \<and> gr_blocked r"
  using assms
  by (auto simp: chat_def ruling_def Let_def split_beta check_fields judge_fields auto_evolve_check_def evolve_fields
      split: sum.splits prod.splits)

lemma chat_passed:
  assumes "\<not> is_condemned (ruling su t m given s)" and "sn_auto_evolve s \<Longrightarrow> sn_evolve_every s \<noteq> 0"
  shows "chat su ad t m given kw (s, w) =
    (let s1 = judged su t m given s; v = ruling su t m given s;
         turns = sn_conversation s @ [(U ''user'', forwarded v m)];
         (answer, w') = ad_complete ad turns (sn_system s) kw w;
         words = (case answer of None \<Rightarrow> ADAPTER_ERROR | Some r \<Rightarrow> r)
     in (fst (chat su ad t m given kw (s, w)), s1\<lparr>sn_conversation := turns @ [(U ''assistant'', words)]\<rparr>, w'))"
proof -
  have "\<exists>evo. fst (auto_evolve_check su (snd (judge_message su t m given s))) = Inr evo"
    by (rule check_ok) (use assms(2) in \<open>simp add: judge_fields\<close>)
  then obtain evo where "auto_evolve_check su (snd (judge_message su t m given s)) = (Inr evo, judged su t m given s)"
    unfolding judged_def by (metis prod.collapse)
  with assms(1) show ?thesis
    by (simp add: chat_def ruling_def Let_def split_beta add_turn_def ask_def judged_fields)
qed

lemma chat_blocked:
  assumes "is_condemned (ruling su t m given s)" and "sn_auto_evolve s \<Longrightarrow> sn_evolve_every s \<noteq> 0"
  shows "snd (chat su ad t m given kw (s, w)) = ((judged su t m given s)\<lparr>sn_blocked := sn_blocked s + 1\<rparr>, w)"
proof -
  have "\<exists>evo. fst (auto_evolve_check su (snd (judge_message su t m given s))) = Inr evo"
    by (rule check_ok) (use assms(2) in \<open>simp add: judge_fields\<close>)
  then obtain evo where "auto_evolve_check su (snd (judge_message su t m given s)) = (Inr evo, judged su t m given s)"
    unfolding judged_def by (metis prod.collapse)
  with assms(1) show ?thesis by (simp add: chat_def ruling_def Let_def split_beta judged_fields)
qed

lemma stream_condemned:
  assumes "is_condemned (ruling su t m given s)"
  shows "stream_chat su ad t m given kw (s, w) =
    (([REFUSAL_MESSAGE], False), (snd (judge_message su t m given s))\<lparr>sn_blocked := sn_blocked s + 1\<rparr>, w)"
  using assms by (simp add: stream_chat_def ruling_def Let_def split_beta judge_fields)

lemma stream_passed:
  assumes "\<not> is_condemned (ruling su t m given s)"
  shows "snd (snd (stream_chat su ad t m given kw (s, w))) =
      (let turns = sn_conversation s @ [(U ''user'', forwarded (ruling su t m given s) m)]
       in if ad_streams ad then snd (ad_stream ad turns (sn_system s) kw w)
          else snd (ad_complete ad turns (sn_system s) kw w))"
    "sn_blocked (fst (snd (stream_chat su ad t m given kw (s, w)))) = sn_blocked s"
    "sn_adjudications (fst (snd (stream_chat su ad t m given kw (s, w)))) = sn_adjudications s + 1"
    "sn_auto_evolve (fst (snd (stream_chat su ad t m given kw (s, w)))) = sn_auto_evolve s"
    "sn_evolve_every (fst (snd (stream_chat su ad t m given kw (s, w)))) = sn_evolve_every s"
  using assms
  by (auto simp: stream_chat_def ruling_def Let_def split_beta add_turn_def ask_def judge_fields split: option.splits prod.splits)

text \<open>A stream that fails, or an adapter without streams that raises, leaves the user's turn without an answer.\<close>

lemma stream_failure_dangles:
  assumes "\<not> is_condemned (ruling su t m given s)" and "snd (fst (stream_chat su ad t m given kw (s, w)))"
  shows "sn_conversation (fst (snd (stream_chat su ad t m given kw (s, w)))) =
    sn_conversation s @ [(U ''user'', forwarded (ruling su t m given s) m)]"
  using assms
  by (auto simp: stream_chat_def ruling_def Let_def split_beta add_turn_def ask_def judge_fields split: option.splits prod.splits if_splits)

section \<open>Accounting\<close>

definition is_talk :: "'k operation \<Rightarrow> bool" where
  "is_talk p = (case p of Chat _ _ _ _ \<Rightarrow> True | StreamChat _ _ _ _ \<Rightarrow> True | _ \<Rightarrow> False)"

text \<open>An adapter whose world counts the calls it gets.\<close>

definition counted :: "('w, 'k) chat_adapter \<Rightarrow> ('w \<Rightarrow> nat) \<Rightarrow> bool" where
  "counted ad calls \<longleftrightarrow> (\<forall>ms sys kw w. calls (snd (ad_complete ad ms sys kw w)) = calls w + 1 \<and>
     calls (snd (ad_stream ad ms sys kw w)) = calls w + 1)"

lemma operate_counts:
  assumes "counted ad calls" and "sn_auto_evolve s \<Longrightarrow> sn_evolve_every s \<noteq> 0"
  shows "let (s', w') = operate su ad p (s, w) in
    calls w' + sn_blocked s' = calls w + sn_blocked s + (if is_talk p then 1 else 0) \<and>
    sn_adjudications s' = sn_adjudications s + (if is_talk p then 1 else 0) \<and>
    sn_auto_evolve s' = sn_auto_evolve s \<and> sn_evolve_every s' = sn_evolve_every s"
proof -
  from assms(1) have c: "calls (snd (ad_complete ad ms sys kw w)) = calls w + 1"
    "calls (snd (ad_stream ad ms sys kw w)) = calls w + 1" for ms sys kw w by (simp_all add: counted_def)
  show ?thesis
  proof (cases p)
    case (Chat t m given kw)
    show ?thesis
    proof (cases "is_condemned (ruling su t m given s)")
      case True
      show ?thesis by (simp add: Chat is_talk_def judged_fields chat_blocked [OF True assms(2)])
    next
      case False
      then show ?thesis unfolding Chat operate.simps
        by (subst chat_passed [OF False assms(2)]) (simp_all add: is_talk_def judged_fields Let_def split_beta c)
    qed
  next
    case (StreamChat t m given kw)
    show ?thesis
    proof (cases "is_condemned (ruling su t m given s)")
      case True
      then show ?thesis by (simp add: StreamChat is_talk_def stream_condemned judge_fields)
    next
      case False
      then show ?thesis by (simp add: StreamChat is_talk_def stream_passed Let_def split_beta c)
    qed
  qed (simp_all add: is_talk_def reset_conversation_def evolve_now_def session_fields)
qed


text \<open>C4: 
  C1: What is condemned never reaches the model. Whichever of the two entries a condemned message takes, the adapter's
  world and the conversation stay as they were, the block counter (where the call returns) goes up by one, and what
  comes back is the refusal and nothing else; the only other outcome is the division by zero of a session whose
  period of evolution is zero.
\<close>

theorem condemned_never_reaches_model:
  assumes "is_condemned (ruling su t m given s)"
  shows "snd (snd (chat su ad t m given kw (s, w))) = w \<and>
    sn_conversation (fst (snd (chat su ad t m given kw (s, w)))) = sn_conversation s \<and>
    (case fst (chat su ad t m given kw (s, w)) of Inl e \<Rightarrow> sn_auto_evolve s \<and> sn_evolve_every s = 0
     | Inr r \<Rightarrow> gr_content r = REFUSAL_MESSAGE \<and> \<not> safe r) \<and>
    fst (stream_chat su ad t m given kw (s, w)) = ([REFUSAL_MESSAGE], False) \<and>
    snd (snd (stream_chat su ad t m given kw (s, w))) = w \<and>
    sn_conversation (fst (snd (stream_chat su ad t m given kw (s, w)))) = sn_conversation s \<and>
    sn_blocked (fst (snd (stream_chat su ad t m given kw (s, w)))) = sn_blocked s + 1"
  using chat_condemned [OF assms, of ad kw w] stream_condemned [OF assms, of ad kw w]
  by (auto simp: safe_def judge_fields split: sum.splits)

section \<open>What is judged and what is sent\<close>

lemma probiome_tail:
  assumes "nfc m = m" and "nfc m' = m'" and "length m = length m'" and "take 100000 m = take 100000 m'"
  shows "probiome nfc m = probiome nfc m'"
  unfolding probiome_def Let_def assms by (simp only: simp_thms if_False)

lemma judge_tail:
  assumes "probiome (su_nfc su) m = probiome (su_nfc su) m'"
  shows "judge_message su t m given s = judge_message su t m' given s"
  using assms by (simp add: judge_message_def adjudicate_with_vitality_def Let_def)


section \<open>Witnesses\<close>

definition echo :: "(nat, unit) chat_adapter" where
  "echo = \<lparr>ad_provider = U ''p'', ad_model = U ''m'', ad_streams = True,
     ad_complete = (\<lambda>ms sys kw w. (Some (snd (last ms)), w + 1)),
     ad_stream = (\<lambda>ms sys kw w. (([snd (last ms)], False), w + 1))\<rparr>"

definition quiet :: surroundings where
  "quiet = \<lparr>su_sha = (\<lambda>_. []), su_nfc = (\<lambda>s. s), su_float = (\<lambda>_. 0)\<rparr>"

definition noon :: instant where
  "noon = \<lparr>it_begin = 0, it_end = 0, it_now = 0, it_stamp = [], it_elapsed = 0\<rparr>"


definition alarmed :: sentinel_ai where
  "alarmed = (let s = new_sentinel None True 25 False 0; r = sn_vitality s; v = or_vitality r
     in s\<lparr>sn_vitality := r\<lparr>or_vitality := v\<lparr>vt_buffer := (vt_buffer v)\<lparr>sb_circuit_open := True\<rparr>\<rparr>\<rparr>\<rparr>)"

lemma alarmed_condemns: "is_condemned (ruling su t m given alarmed)"
proof -
  have "sb_circuit_open (vt_buffer (or_vitality (sn_vitality alarmed)))"
    by (simp add: alarmed_def Let_def)
  from vitality_open(1) [OF this] show ?thesis
    by (simp add: ruling_def judge_message_def Let_def split_beta blocked_verdict_def)
qed

theorem condemned_never_reaches_model_witness:
  "snd (snd (chat quiet echo noon (U ''hi'') None () (alarmed, 7))) = 7 \<and>
   fst (stream_chat quiet echo noon (U ''hi'') None () (alarmed, 7)) = ([REFUSAL_MESSAGE], False)"
  using condemned_never_reaches_model [OF alarmed_condemns [of quiet noon "U ''hi''" None], of echo "()" 7] by blast


end
