(* ===== verification/CelestialGlyphs.thy ===== *)
theory CelestialGlyphs
  imports PyJson
begin

text \<open>
  \<^verbatim>\<open>celestial/language.py\<close>: the glyph cipher derived from a seed, and the one-time pad. SHA-256 and HMAC-SHA-256
  are parameters that give raw bytes. The search for an unused glyph is the loop of the source: it counts up until a
  glyph is new, and the four bytes of the counter are what bounds it.
\<close>

unbundle bit_operations_syntax

datatype glyph_error = EmptySeed | DuplicateCharset | GlyphEncode | CounterOverflow | PadLength

record celestial =
  cl_seed :: str
  cl_charset :: str
  cl_glyph_map :: "(nat, str) dict"
  cl_reverse_map :: "(str, nat) dict"

definition PUA_BASE :: nat where "PUA_BASE = 0xE000"

definition DEFAULT_CHARSET :: str where
  "DEFAULT_CHARSET = U ''abcdefghijklmnopqrstuvwxyzABCDEFGHIJKLMNOPQRSTUVWXYZ0123456789 .,!?''"

text \<open>The glyph of a digest: two private-use characters for each of its first four bytes.\<close>

definition glyph_text :: "bytes \<Rightarrow> str" where
  "glyph_text digest = concat (map (\<lambda>b. [PUA_BASE + b div 16, PUA_BASE + b mod 16]) (take 4 digest))"

definition big_endian4 :: "nat \<Rightarrow> bytes" where
  "big_endian4 n = [n div 16777216 mod 256, n div 65536 mod 256, n div 256 mod 256, n mod 256]"

definition glyph_input :: "nat \<Rightarrow> nat \<Rightarrow> bytes" where
  "glyph_input ch counter = U ''celestial-glyph'' @ [0] @ utf8 [ch] @ big_endian4 counter"

definition glyph_at :: "(bytes \<Rightarrow> bytes \<Rightarrow> bytes) \<Rightarrow> bytes \<Rightarrow> nat \<Rightarrow> nat \<Rightarrow> str" where
  "glyph_at hm master ch counter = glyph_text (hm master (glyph_input ch counter))"

function find_glyph :: "(bytes \<Rightarrow> bytes \<Rightarrow> bytes) \<Rightarrow> bytes \<Rightarrow> nat \<Rightarrow> str list \<Rightarrow> nat \<Rightarrow> str option" where
  "find_glyph hm master ch used counter =
     (if 4294967296 \<le> counter then None
      else
        (let glyph = glyph_at hm master ch counter
         in if glyph \<notin> set used then Some glyph else find_glyph hm master ch used (counter + 1)))"
  by pat_completeness auto
termination by (relation "measure (\<lambda>(hm, master, ch, used, counter). 4294967296 - counter)") auto

declare find_glyph.simps [simp del]

fun generate_glyphs ::
  "(bytes \<Rightarrow> bytes \<Rightarrow> bytes) \<Rightarrow> bytes \<Rightarrow> str \<Rightarrow> (nat, str) dict \<Rightarrow> glyph_error + (nat, str) dict" where
  "generate_glyphs hm master [] glyphs = Inr glyphs"
| "generate_glyphs hm master (ch # rest) glyphs =
     (if \<not> scalar ch then Inl GlyphEncode
      else
        (case find_glyph hm master ch (dvals glyphs) 0 of
           None \<Rightarrow> Inl CounterOverflow
         | Some glyph \<Rightarrow> generate_glyphs hm master rest (dset ch glyph glyphs)))"

definition new_language ::
  "(bytes \<Rightarrow> bytes) \<Rightarrow> (bytes \<Rightarrow> bytes \<Rightarrow> bytes) \<Rightarrow> str \<Rightarrow> str \<Rightarrow> glyph_error + celestial" where
  "new_language sha hm seed charset =
     (if seed = [] then Inl EmptySeed
      else if \<not> distinct charset then Inl DuplicateCharset
      else if \<not> list_all scalar seed then Inl GlyphEncode
      else
        (case generate_glyphs hm (sha (utf8 seed)) charset [] of
           Inl e \<Rightarrow> Inl e
         | Inr glyphs \<Rightarrow> Inr \<lparr>cl_seed = seed, cl_charset = charset, cl_glyph_map = glyphs,
             cl_reverse_map = foldl (\<lambda>d (k, v). dset v k d) [] glyphs\<rparr>))"

definition encode_message :: "celestial \<Rightarrow> str \<Rightarrow> str" where
  "encode_message cl message =
     concat (map (\<lambda>ch. case dget (cl_glyph_map cl) ch of None \<Rightarrow> [ch] | Some g \<Rightarrow> g) message)"

function decode_message :: "celestial \<Rightarrow> str \<Rightarrow> str" where
  "decode_message cl encoded =
     (case encoded of
        [] \<Rightarrow> []
      | c # rest \<Rightarrow>
          (case dget (cl_reverse_map cl) (take 8 encoded) of
             Some ch \<Rightarrow> ch # decode_message cl (drop 8 encoded)
           | None \<Rightarrow> c # decode_message cl rest))"
  by pat_completeness auto
termination by (relation "measure (\<lambda>(cl, s). length s)") auto

declare decode_message.simps [simp del]

text \<open>The one-time pad; \<open>key\<close> is what \<^verbatim>\<open>secrets.token_bytes\<close> gave.\<close>

definition encrypt_bytes :: "bytes \<Rightarrow> bytes \<Rightarrow> bytes \<times> bytes" where
  "encrypt_bytes key data = (map2 (XOR) data key, key)"

definition decrypt_bytes :: "bytes \<Rightarrow> bytes \<Rightarrow> glyph_error + bytes" where
  "decrypt_bytes ciphertext key =
     (if length ciphertext \<noteq> length key then Inl PadLength else Inr (map2 (XOR) ciphertext key))"

section \<open>The table\<close>

lemma glyph_length: "4 \<le> length d \<Longrightarrow> length (glyph_text d) = 8"
  by (simp add: glyph_text_def length_concat o_def sum_list_triv)

lemma glyph_chars: "list_all (\<lambda>b. b < 256) d \<Longrightarrow> c \<in> set (glyph_text d) \<Longrightarrow> 0xE000 \<le> c \<and> c < 0xE010"
  by (auto simp: glyph_text_def PUA_BASE_def list_all_iff dest!: in_set_takeD)

text \<open>The loop finds the glyph of the first counter whose glyph is new; it fails only when all \<open>2 ^ 32\<close> are used.\<close>

lemma find_glyph_Some:
  "find_glyph hm master ch used k = Some g \<Longrightarrow> \<exists>j. k \<le> j \<and> j < 4294967296 \<and> g = glyph_at hm master ch j \<and> g \<notin> set used"
proof (induction hm master ch used k rule: find_glyph.induct)
  case (1 hm master ch used k)
  from "1.prems" have k: "k < 4294967296" by (subst (asm) find_glyph.simps) (auto split: if_splits)
  show ?case
  proof (cases "glyph_at hm master ch k \<in> set used")
    case True
    with "1.prems" k have "find_glyph hm master ch used (k + 1) = Some g"
      by (subst (asm) find_glyph.simps) (simp add: Let_def)
    with "1.IH" [OF _ refl] k True show ?thesis by (metis add_leD1 not_le)
  next
    case False
    with "1.prems" k have "g = glyph_at hm master ch k" by (subst (asm) find_glyph.simps) (simp add: Let_def)
    with k False show ?thesis by auto
  qed
qed

lemma find_glyph_None:
  "find_glyph hm master ch used k = None \<Longrightarrow> k \<le> j \<Longrightarrow> j < 4294967296 \<Longrightarrow> glyph_at hm master ch j \<in> set used"
proof (induction hm master ch used k rule: find_glyph.induct)
  case (1 hm master ch used k)
  from "1.prems"(2,3) have k: "k < 4294967296" by simp
  from "1.prems"(1) k have "glyph_at hm master ch k \<in> set used \<and> find_glyph hm master ch used (k + 1) = None"
    by (simp add: find_glyph.simps [of hm master ch used k] Let_def split: if_splits)
  then have used: "glyph_at hm master ch k \<in> set used" and go: "find_glyph hm master ch used (k + 1) = None" by auto
  show ?case
  proof (cases "j = k")
    case False
    with "1.prems"(2) have "k + 1 \<le> j" by simp
    with "1.IH" [OF _ refl] k used go "1.prems"(3) show ?thesis by simp
  qed (simp add: used)
qed

definition glyph_table :: "(nat, str) dict \<Rightarrow> bool" where
  "glyph_table d \<longleftrightarrow> dict_ok d \<and> distinct (dvals d) \<and>
     (\<forall>g \<in> set (dvals d). length g = 8 \<and> (\<forall>c \<in> set g. 0xE000 \<le> c \<and> c < 0xE010))"

definition raw_mac :: "(bytes \<Rightarrow> bytes \<Rightarrow> bytes) \<Rightarrow> bool" where
  "raw_mac hm \<longleftrightarrow> (\<forall>k m. 4 \<le> length (hm k m) \<and> list_all (\<lambda>b. b < 256) (hm k m))"

lemma generate_table:
  assumes "raw_mac hm"
  shows "glyph_table d \<Longrightarrow> distinct cs \<Longrightarrow> set cs \<inter> set (dkeys d) = {} \<Longrightarrow> generate_glyphs hm master cs d = Inr d' \<Longrightarrow>
    glyph_table d' \<and> dkeys d' = dkeys d @ cs"
proof (induction cs arbitrary: d)
  case (Cons c cs)
  from Cons.prems(4) obtain g where g: "find_glyph hm master c (dvals d) 0 = Some g"
    and go: "generate_glyphs hm master cs (dset c g d) = Inr d'" by (auto split: if_splits option.splits)
  from find_glyph_Some [OF g] obtain j where j: "g = glyph_at hm master c j" "g \<notin> set (dvals d)" by blast
  have g8: "length g = 8" "\<And>x. x \<in> set g \<Longrightarrow> 0xE000 \<le> x \<and> x < 0xE010"
    using assms glyph_length glyph_chars unfolding j(1) glyph_at_def raw_mac_def by blast+
  have new: "\<not> din c d" using Cons.prems(3) by (auto simp: din_def dkeys_def)
  have table: "glyph_table (dset c g d)"
    using Cons.prems(1) g8 j(2) by (simp add: glyph_table_def dict_ok_dset dset_new [OF new] dvals_def dict_ok_def)
      (use new in \<open>simp add: din_def\<close>)
  have keys: "dkeys (dset c g d) = dkeys d @ [c]" using new by (simp add: dkeys_dset)
  have "set cs \<inter> set (dkeys (dset c g d)) = {}" using Cons.prems(2,3) by (auto simp: keys)
  from Cons.IH [OF table _ this go] Cons.prems(2) show ?case by (auto simp: keys)
qed simp

lemma reverse_table:
  assumes "distinct (dvals d)"
  shows "dget (foldl (\<lambda>e (k, v). dset v k e) [] d) g = Some k \<longleftrightarrow> (k, g) \<in> set d"
  using assms
proof (induction d rule: rev_induct)
  case (snoc p d)
  obtain a b where p: "p = (a, b)" by (cases p)
  from snoc show ?case by (auto simp: p dvals_def image_iff)
qed simp

section \<open>Decoding\<close>

lemma decode_plain:
  assumes "glyph_table (cl_glyph_map cl)"
    and "cl_reverse_map cl = foldl (\<lambda>d (k, v). dset v k d) [] (cl_glyph_map cl)"
    and "\<not> (0xE000 \<le> c \<and> c < 0xE010)"
  shows "decode_message cl (c # s) = c # decode_message cl s"
proof -
  have "dget (cl_reverse_map cl) (take 8 (c # s)) = None"
  proof (rule ccontr)
    assume "dget (cl_reverse_map cl) (take 8 (c # s)) \<noteq> None"
    then obtain k where "(k, take 8 (c # s)) \<in> set (cl_glyph_map cl)"
      using assms(1) reverse_table [of "cl_glyph_map cl"] by (fastforce simp: assms(2) glyph_table_def)
    then have "take 8 (c # s) \<in> set (dvals (cl_glyph_map cl))" by (force simp: dvals_def)
    moreover have "c \<in> set (take 8 (c # s))" by simp
    ultimately show False using assms(1,3) unfolding glyph_table_def by blast
  qed
  then show ?thesis by (simp add: decode_message.simps [of cl "c # s"])
qed

lemma decode_glyph:
  assumes "glyph_table (cl_glyph_map cl)"
    and "cl_reverse_map cl = foldl (\<lambda>d (k, v). dset v k d) [] (cl_glyph_map cl)"
    and "(c, g) \<in> set (cl_glyph_map cl)"
  shows "decode_message cl (g @ s) = c # decode_message cl s"
proof -
  have "g \<in> set (dvals (cl_glyph_map cl))" using assms(3) by (force simp: dvals_def)
  with assms(1) have l: "length g = 8" by (auto simp: glyph_table_def)
  with assms have "dget (cl_reverse_map cl) (take 8 (g @ s)) = Some c"
    by (simp add: reverse_table glyph_table_def)
  moreover obtain x xs where "g @ s = x # xs" using l by (cases g) auto
  ultimately have "decode_message cl (g @ s) = c # decode_message cl (drop 8 (g @ s))"
    by (subst decode_message.simps) simp
  then show ?thesis using l by simp
qed

lemma decode_encode:
  assumes "glyph_table (cl_glyph_map cl)"
    and "cl_reverse_map cl = foldl (\<lambda>d (k, v). dset v k d) [] (cl_glyph_map cl)"
  shows "\<forall>c \<in> set m. c \<in> set (dkeys (cl_glyph_map cl)) \<or> \<not> (0xE000 \<le> c \<and> c < 0xE010) \<Longrightarrow>
    decode_message cl (encode_message cl m) = m"
proof (induction m)
  case Nil
  then show ?case by (simp add: encode_message_def decode_message.simps)
next
  case (Cons c m)
  have e: "encode_message cl (c # m) = (case dget (cl_glyph_map cl) c of None \<Rightarrow> [c] | Some g \<Rightarrow> g) @ encode_message cl m"
    by (simp add: encode_message_def)
  show ?case
  proof (cases "dget (cl_glyph_map cl) c")
    case None
    then have "c \<notin> set (dkeys (cl_glyph_map cl))" by (simp add: dget_def dkeys_def map_of_eq_None_iff)
    with Cons decode_plain [OF assms, of c] show ?thesis by (simp add: e None)
  next
    case (Some g)
    then have "(c, g) \<in> set (cl_glyph_map cl)" unfolding dget_def by (rule map_of_SomeD)
    from decode_glyph [OF assms this] Cons show ?thesis by (simp add: e Some)
  qed
qed

text \<open>C38: 
  C1: A message comes back. Whatever the seed and the character set, when the alphabet can be built it maps the set
  one to one to glyphs, and decoding an encoded message gives the message, provided the characters outside the set
  are none of the sixteen private-use characters the glyphs are made of.
\<close>

theorem glyphs_come_back:
  assumes "raw_mac hm" and "new_language sha hm seed charset = Inr cl"
    and "\<forall>c \<in> set message. c \<in> set charset \<or> c < 0xE000 \<or> 0xE010 \<le> c"
  shows "decode_message cl (encode_message cl message) = message \<and>
    dkeys (cl_glyph_map cl) = charset \<and> distinct (dvals (cl_glyph_map cl))"
proof -
  from assms(2) have d: "distinct charset" and g: "generate_glyphs hm (sha (utf8 seed)) charset [] = Inr (cl_glyph_map cl)"
    and r: "cl_reverse_map cl = foldl (\<lambda>d (k, v). dset v k d) [] (cl_glyph_map cl)"
    by (auto simp: new_language_def split: if_splits sum.splits)
  have "glyph_table []" by (simp add: glyph_table_def dvals_def)
  from generate_table [OF assms(1) this d _ g] have t: "glyph_table (cl_glyph_map cl)" "dkeys (cl_glyph_map cl) = charset"
    by (simp_all add: dkeys_def)
  have "\<forall>c \<in> set message. c \<in> set (dkeys (cl_glyph_map cl)) \<or> \<not> (0xE000 \<le> c \<and> c < 0xE010)"
    using assms(3) unfolding t(2) by force
  from decode_encode [OF t(1) r this] t show ?thesis by (simp add: glyph_table_def)
qed

text \<open>A message that is itself a glyph is passed through and then decoded to the character of that glyph.\<close>

lemma glyph_confused:
  assumes "glyph_table (cl_glyph_map cl)"
    and "cl_reverse_map cl = foldl (\<lambda>d (k, v). dset v k d) [] (cl_glyph_map cl)"
    and "(c, g) \<in> set (cl_glyph_map cl)" and "set (dkeys (cl_glyph_map cl)) \<inter> set g = {}"
  shows "encode_message cl g = g \<and> decode_message cl (encode_message cl g) = [c]"
proof -
  have "\<forall>x \<in> set g. dget (cl_glyph_map cl) x = None"
    using assms(4) by (auto simp: dget_def dkeys_def map_of_eq_None_iff)
  then have e: "encode_message cl g = concat (map (\<lambda>x. [x]) g)"
    unfolding encode_message_def by (intro arg_cong [where f = concat] map_cong) auto
  then have "encode_message cl g = g" by simp
  with decode_glyph [OF assms(1-3), of "[]"] show ?thesis by (simp add: decode_message.simps)
qed

lemma pad_comes_back:
  assumes "length key = length data"
  shows "decrypt_bytes (fst (encrypt_bytes key data)) (snd (encrypt_bytes key data)) = Inr data"
proof -
  have "map2 (XOR) (map2 (XOR) data key) key = data" using assms
    by (induction data key rule: list_induct2') (simp_all add: xor.assoc)
  with assms show ?thesis by (simp add: decrypt_bytes_def encrypt_bytes_def)
qed

text \<open>A code that depends on the counter alone, so that the second character needs a second round.\<close>

definition toy_mac :: "bytes \<Rightarrow> bytes \<Rightarrow> bytes" where
  "toy_mac k m = map (\<lambda>b. b mod 256) (take 4 (rev m) @ [0, 0, 0, 0])"

lemma toy_mac_ok: "raw_mac toy_mac"
  by (simp add: raw_mac_def toy_mac_def list_all_iff)

theorem glyphs_come_back_witness:
  "\<exists>cl. new_language (\<lambda>b. b) toy_mac (U ''seed'') (U ''ab'') = Inr cl \<and>
    decode_message cl (encode_message cl (U ''a-b'')) = U ''a-b''"
proof -
  have g: "find_glyph toy_mac m 97 [] 0 = Some (glyph_text [0, 0, 0, 0])"
    "find_glyph toy_mac m 98 [glyph_text [0, 0, 0, 0]] 0 = Some (glyph_text [1, 0, 0, 0])" for m
    by (simp_all add: find_glyph.simps glyph_at_def toy_mac_def glyph_input_def big_endian4_def glyph_text_def PUA_BASE_def)
  obtain cl where cl: "new_language (\<lambda>b. b) toy_mac (U ''seed'') (U ''ab'') = Inr cl"
    by (simp add: new_language_def U_def g scalar_def dset_def dvals_def)
  have "\<forall>c \<in> set (U ''a-b''). c \<in> set (U ''ab'') \<or> c < 0xE000 \<or> 0xE010 \<le> c" by (simp add: U_def)
  from glyphs_come_back [OF toy_mac_ok cl this] cl show ?thesis by blast
qed

end
