(* ===== verification/CelestialPack.thy ===== *)
theory CelestialPack
  imports VaultStore MythosLedger
begin

text \<open>
  \<^verbatim>\<open>celestial/pack.py\<close>: agent specifications that are encrypted under a passphrase and signed. The primitives of the
  \<^verbatim>\<open>cryptography\<close> package are the fields of \<open>suite\<close>: the scrypt key, AES-GCM, Ed25519; so are SHA-256, the text of a
  float and its inverse, and \<^verbatim>\<open>int\<close> of a text. What their documentation promises is \<open>suite_ok\<close>. A pack of bytes that are
  not text, and UTF-16 plaintexts, are not modelled.
\<close>

unbundle bit_operations_syntax

record suite =
  cs_sha :: "bytes \<Rightarrow> str"
  cs_scrypt :: "bytes \<Rightarrow> bytes \<Rightarrow> int \<Rightarrow> bytes"
  cs_seal :: "bytes \<Rightarrow> bytes \<Rightarrow> bytes \<Rightarrow> bytes"
  cs_open :: "bytes \<Rightarrow> bytes \<Rightarrow> bytes \<Rightarrow> bytes option"
  cs_public :: "bytes \<Rightarrow> bytes"
  cs_sign :: "bytes \<Rightarrow> bytes \<Rightarrow> bytes"
  cs_verify :: "bytes \<Rightarrow> bytes \<Rightarrow> bytes \<Rightarrow> bool"
  cs_float_text :: "pyval \<Rightarrow> str"
  cs_float :: "str \<Rightarrow> pyfloat"
  cs_int :: "str \<Rightarrow> int option"

datatype pack_error =
    PackKey | PackType | PackBase64 | PackPublicKey | InvalidManifestSignature | CipherHashMismatch
  | InvalidCost | DecryptionFailed | PlaintextText | SpecHashMismatch | EmptyPassphrase | PassphraseText | PackAttribute

definition DEFAULT_SCRYPT_N :: int where "DEFAULT_SCRYPT_N = 131072"
definition MIN_SCRYPT_N :: int where "MIN_SCRYPT_N = 16384"

record agent_pack =
  ap_manifest :: "(str, pyval) dict"
  ap_ciphertext :: str
  ap_nonce :: str
  ap_salt :: str
  ap_signature :: str

definition pack_dict :: "agent_pack \<Rightarrow> (str, pyval) dict" where
  "pack_dict p =
     [(U ''manifest'', PDict (ap_manifest p)), (U ''ciphertext_b64'', PStr (ap_ciphertext p)),
      (U ''nonce_b64'', PStr (ap_nonce p)), (U ''salt_b64'', PStr (ap_salt p)), (U ''signature_b64'', PStr (ap_signature p))]"

text \<open>Fields of another type are accepted by the source and fail later, in the decoding; the model refuses them here.\<close>

definition pack_of :: "(str, pyval) dict \<Rightarrow> pack_error + agent_pack" where
  "pack_of d =
     (case (dget d (U ''manifest''), dget d (U ''ciphertext_b64''), dget d (U ''nonce_b64''), dget d (U ''salt_b64''),
        dget d (U ''signature_b64'')) of
        (Some (PDict m), Some (PStr c), Some (PStr n), Some (PStr s), Some (PStr g)) \<Rightarrow>
          Inr \<lparr>ap_manifest = m, ap_ciphertext = c, ap_nonce = n, ap_salt = s, ap_signature = g\<rparr>
      | (Some _, Some _, Some _, Some _, Some _) \<Rightarrow> Inl PackType
      | _ \<Rightarrow> Inl PackKey)"

definition pack_bytes :: "suite \<Rightarrow> (str, pyval) dict \<Rightarrow> bytes" where
  "pack_bytes cs d = json_canonical (cs_float_text cs) (PDict d)"

definition good_cost :: "int \<Rightarrow> bool" where
  "good_cost n \<longleftrightarrow> \<not> (n < MIN_SCRYPT_N \<or> n AND (n - 1) \<noteq> 0)"

record spec_crypto =
  sc_private :: bytes
  sc_scrypt_n :: int

definition new_crypto :: "bytes \<Rightarrow> int \<Rightarrow> pack_error + spec_crypto" where
  "new_crypto private n = (if \<not> good_cost n then Inl InvalidCost else Inr \<lparr>sc_private = private, sc_scrypt_n = n\<rparr>)"

definition public_key_text :: "suite \<Rightarrow> spec_crypto \<Rightarrow> str" where
  "public_key_text cs c = std_encode (cs_public cs (sc_private c))"

definition pack_key :: "suite \<Rightarrow> str \<Rightarrow> bytes \<Rightarrow> int \<Rightarrow> pack_error + bytes" where
  "pack_key cs passphrase salt n =
     (if list_all scalar passphrase then Inr (cs_scrypt cs (utf8 passphrase) salt n) else Inl PassphraseText)"

definition kdf_dict :: "int \<Rightarrow> (str, pyval) dict" where
  "kdf_dict n = [(U ''name'', PStr (U ''scrypt'')), (U ''n'', PInt n), (U ''r'', PInt 8), (U ''p'', PInt 1)]"

text \<open>\<open>salt\<close> and \<open>nonce\<close> are what \<^verbatim>\<open>os.urandom\<close> gave.\<close>

definition manifest_of ::
  "suite \<Rightarrow> spec_crypto \<Rightarrow> bytes \<Rightarrow> bytes \<Rightarrow> (str, pyval) dict \<Rightarrow> bytes \<Rightarrow> (str, pyval) dict" where
  "manifest_of cs c salt nonce spec ciphertext =
     (let text_or = (\<lambda>k d. case dget spec (U k) of None \<Rightarrow> U d | Some v \<Rightarrow> py_str (cs_float_text cs) v)
      in [(U ''schema_version'', PStr (text_or ''schema_version'' ''1.0'')),
          (U ''creator'', PStr (text_or ''creator'' ''unknown'')),
          (U ''public_key_b64'', PStr (public_key_text cs c)),
          (U ''spec_hash_sha256'', PStr (cs_sha cs (pack_bytes cs spec))),
          (U ''ciphertext_hash_sha256'', PStr (cs_sha cs ciphertext)),
          (U ''content_type'', PStr (U ''agent_spec'')),
          (U ''nonce_b64'', PStr (std_encode nonce)),
          (U ''salt_b64'', PStr (std_encode salt)),
          (U ''kdf'', PDict (kdf_dict (sc_scrypt_n c)))])"

definition encrypt_spec ::
  "suite \<Rightarrow> spec_crypto \<Rightarrow> bytes \<Rightarrow> bytes \<Rightarrow> (str, pyval) dict \<Rightarrow> str \<Rightarrow> pack_error + agent_pack" where
  "encrypt_spec cs c salt nonce spec passphrase =
     (if passphrase = [] then Inl EmptyPassphrase
      else
        (let plaintext = pack_bytes cs spec
         in case pack_key cs passphrase salt (sc_scrypt_n c) of
              Inl e \<Rightarrow> Inl e
            | Inr key \<Rightarrow>
                (let ciphertext = cs_seal cs key nonce plaintext;
                     manifest = manifest_of cs c salt nonce spec ciphertext;
                     manifest_bytes = pack_bytes cs manifest;
                     signature = cs_sign cs (sc_private c) (manifest_bytes @ ciphertext)
                 in Inr \<lparr>ap_manifest = manifest, ap_ciphertext = std_encode ciphertext, ap_nonce = std_encode nonce,
                      ap_salt = std_encode salt, ap_signature = std_encode signature\<rparr>)))"

section \<open>Verifying and decrypting\<close>

definition text_bytes :: "str \<Rightarrow> pack_error + bytes" where
  "text_bytes s = (case std_decode s of None \<Rightarrow> Inl PackBase64 | Some b \<Rightarrow> Inr b)"

definition manifest_key :: "(str, pyval) dict \<Rightarrow> pack_error + bytes" where
  "manifest_key m =
     (case dget m (U ''public_key_b64'') of
        None \<Rightarrow> Inl PackKey
      | Some (PStr s) \<Rightarrow>
          (case text_bytes s of Inl e \<Rightarrow> Inl e | Inr raw \<Rightarrow> if length raw = 32 then Inr raw else Inl PackPublicKey)
      | Some _ \<Rightarrow> Inl PackType)"

text \<open>A hash that the manifest does not hold, or holds as a false value, is not checked.\<close>

definition hash_claim :: "(str, pyval) dict \<Rightarrow> string \<Rightarrow> str \<Rightarrow> bool" where
  "hash_claim m k digest = (case dget m (U k) of None \<Rightarrow> True | Some v \<Rightarrow> \<not> truthy v \<or> v = PStr digest)"

definition py_int :: "suite \<Rightarrow> pyval \<Rightarrow> pack_error + int" where
  "py_int cs v = (case v of
     PInt n \<Rightarrow> Inr n
   | PBool b \<Rightarrow> Inr (if b then 1 else 0)
   | PFloat x \<Rightarrow> Inr (if 0 \<le> x then \<lfloor>x\<rfloor> else \<lceil>x\<rceil>)
   | PStr s \<Rightarrow> (case cs_int cs s of None \<Rightarrow> Inl InvalidCost | Some n \<Rightarrow> Inr n)
   | _ \<Rightarrow> Inl PackType)"

definition manifest_cost :: "suite \<Rightarrow> (str, pyval) dict \<Rightarrow> pack_error + int" where
  "manifest_cost cs m =
     (let params = (case dget m (U ''kdf'') of None \<Rightarrow> PDict [] | Some v \<Rightarrow> if truthy v then v else PDict [])
      in case params of
           PDict d \<Rightarrow> py_int cs (case dget d (U ''n'') of None \<Rightarrow> PInt DEFAULT_SCRYPT_N | Some v \<Rightarrow> v)
         | _ \<Rightarrow> Inl PackAttribute)"

text \<open>After the signature: the hash of the ciphertext, the cost, the decryption and the hash of the specification.\<close>

definition open_spec ::
  "suite \<Rightarrow> (str, pyval) dict \<Rightarrow> bytes \<Rightarrow> bytes \<Rightarrow> bytes \<Rightarrow> str \<Rightarrow> pack_error + pyval" where
  "open_spec cs m ciphertext nonce salt passphrase =
     (if \<not> hash_claim m ''ciphertext_hash_sha256'' (cs_sha cs ciphertext) then Inl CipherHashMismatch
      else
        (case manifest_cost cs m of
           Inl e \<Rightarrow> Inl e
         | Inr n \<Rightarrow>
             if \<not> good_cost n then Inl InvalidCost
             else
               (case pack_key cs passphrase salt n of
                  Inl e \<Rightarrow> Inl e
                | Inr key \<Rightarrow>
                    (case cs_open cs key nonce ciphertext of
                       None \<Rightarrow> Inl DecryptionFailed
                     | Some plaintext \<Rightarrow>
                         (case Option.bind (utf8_decode plaintext) (json_loads (cs_float cs)) of
                            None \<Rightarrow> Inl PlaintextText
                          | Some spec \<Rightarrow>
                              if \<not> hash_claim m ''spec_hash_sha256'' (cs_sha cs (json_canonical (cs_float_text cs) spec))
                              then Inl SpecHashMismatch else Inr spec)))))"

definition verify_and_decrypt :: "suite \<Rightarrow> agent_pack \<Rightarrow> str \<Rightarrow> pack_error + pyval" where
  "verify_and_decrypt cs p passphrase =
     (case (manifest_key (ap_manifest p), text_bytes (ap_ciphertext p), text_bytes (ap_nonce p), text_bytes (ap_salt p),
        text_bytes (ap_signature p)) of
        (Inl e, _) \<Rightarrow> Inl e
      | (Inr key, Inr ciphertext, Inr nonce, Inr salt, Inr signature) \<Rightarrow>
          if \<not> cs_verify cs key signature (pack_bytes cs (ap_manifest p) @ ciphertext) then Inl InvalidManifestSignature
          else open_spec cs (ap_manifest p) ciphertext nonce salt passphrase
      | _ \<Rightarrow> Inl PackBase64)"

section \<open>What the primitives promise\<close>

definition octets :: "bytes \<Rightarrow> bool" where
  "octets bs = list_all (\<lambda>b. b < 256) bs"

definition suite_ok :: "suite \<Rightarrow> bool" where
  "suite_ok cs \<longleftrightarrow> hex_sha (cs_sha cs) \<and> float_io (cs_float_text cs) (cs_float cs) \<and>
     (\<forall>k n p. octets p \<longrightarrow> cs_open cs k n (cs_seal cs k n p) = Some p \<and> octets (cs_seal cs k n p)) \<and>
     (\<forall>sk m. cs_verify cs (cs_public cs sk) (cs_sign cs sk m) m \<and> octets (cs_sign cs sk m)) \<and>
     (\<forall>sk. length (cs_public cs sk) = 32 \<and> octets (cs_public cs sk))"

lemma text_bytes_encode: "octets bs \<Longrightarrow> text_bytes (std_encode bs) = Inr bs"
  by (simp add: text_bytes_def octets_def std_roundtrip)

lemma manifest_entries:
  "dget (manifest_of cs c salt nonce spec ct) (U ''public_key_b64'') = Some (PStr (public_key_text cs c))"
  "dget (manifest_of cs c salt nonce spec ct) (U ''ciphertext_hash_sha256'') = Some (PStr (cs_sha cs ct))"
  "dget (manifest_of cs c salt nonce spec ct) (U ''spec_hash_sha256'') = Some (PStr (cs_sha cs (pack_bytes cs spec)))"
  "dget (manifest_of cs c salt nonce spec ct) (U ''kdf'') = Some (PDict (kdf_dict (sc_scrypt_n c)))"
  by (simp_all add: manifest_of_def dget_def Let_def)

lemma manifest_distinct: "distinct (map fst (manifest_of cs c salt nonce spec ct))"
  by (simp add: manifest_of_def Let_def)

lemma manifest_norm_entries:
  "dget (norm_dict (manifest_of cs c salt nonce spec ct)) k = map_option json_norm (dget (manifest_of cs c salt nonce spec ct) k)"
  by (rule dget_norm [OF manifest_distinct])

lemma norm_bytes: "pack_bytes cs (norm_dict d) = pack_bytes cs d"
  using dumps_norm [of "cs_float_text cs" "[44]" "[58]" "PDict d"] by (simp add: pack_bytes_def json_canonical_def)

lemma kdf_n:
  "dget (kdf_dict n) (U ''n'') = Some (PInt n)" "dget (norm_dict (kdf_dict n)) (U ''n'') = Some (PInt n)"
  "kdf_dict n \<noteq> []" "norm_dict (kdf_dict n) \<noteq> []"
proof -
  show e: "dget (kdf_dict n) (U ''n'') = Some (PInt n)" "kdf_dict n \<noteq> []" by (simp_all add: kdf_dict_def dget_def)
  have "distinct (map fst (kdf_dict n))" by (simp add: kdf_dict_def)
  from dget_norm [OF this] e show g: "dget (norm_dict (kdf_dict n)) (U ''n'') = Some (PInt n)" by simp
  then show "norm_dict (kdf_dict n) \<noteq> []" by (metis dget_Nil option.distinct(1))
qed

lemma pack_opens:
  assumes ok: "suite_ok cs" and "plain (PDict spec)" and good: "good_cost (sc_scrypt_n c)"
    and key: "pack_key cs passphrase salt (sc_scrypt_n c) = Inr key"
    and ct: "ct = cs_seal cs key nonce (pack_bytes cs spec)" and m: "m = manifest_of cs c salt nonce spec ct"
  shows "open_spec cs m ct nonce salt passphrase = Inr (json_norm (PDict spec))"
    "open_spec cs (norm_dict m) ct nonce salt passphrase = Inr (json_norm (PDict spec))"
proof -
  have io: "float_io (cs_float_text cs) (cs_float cs)" using ok by (simp add: suite_ok_def)
  have "list_all (\<lambda>b. b < 128) (pack_bytes cs spec)"
    using canonical_bytes [OF io assms(2)] by (simp add: pack_bytes_def)
  then have bytes: "octets (pack_bytes cs spec)" "list_all (\<lambda>b. b < 128) (pack_bytes cs spec)"
    by (auto simp: octets_def list_all_iff)
  then have "Option.bind (utf8_decode (pack_bytes cs spec)) (json_loads (cs_float cs)) = Some (json_norm (PDict spec))"
    using loads_canonical [OF _ assms(2), of "cs_float_text cs"] io
    by (simp add: utf8_decode_ascii pack_bytes_def float_io_def)
  moreover have "cs_open cs key nonce ct = Some (pack_bytes cs spec)" using ok bytes(1) by (simp add: ct suite_ok_def)
  moreover have "json_canonical (cs_float_text cs) (json_norm (PDict spec)) = pack_bytes cs spec"
    by (simp only: pack_bytes_def json_canonical_def dumps_norm)
  ultimately have rest: "open_spec cs m' ct nonce salt passphrase = Inr (json_norm (PDict spec))"
    if "hash_claim m' ''ciphertext_hash_sha256'' (cs_sha cs ct)" "manifest_cost cs m' = Inr (sc_scrypt_n c)"
      "hash_claim m' ''spec_hash_sha256'' (cs_sha cs (pack_bytes cs spec))" for m'
    using that good key by (simp add: open_spec_def del: json_norm.simps)
  show "open_spec cs m ct nonce salt passphrase = Inr (json_norm (PDict spec))"
    by (rule rest) (simp_all add: m hash_claim_def manifest_entries manifest_cost_def kdf_n truthy_def py_int_def)
  show "open_spec cs (norm_dict m) ct nonce salt passphrase = Inr (json_norm (PDict spec))"
    by (rule rest) (simp_all add: m hash_claim_def manifest_norm_entries manifest_entries manifest_cost_def
        kdf_n truthy_def py_int_def)
qed

lemma pack_of_norm: "pack_of (norm_dict (pack_dict p)) = Inr (p\<lparr>ap_manifest := norm_dict (ap_manifest p)\<rparr>)"
proof -
  have "distinct (map fst (pack_dict p))" by (simp add: pack_dict_def)
  note look = dget_norm [OF this]
  have "dget (pack_dict p) (U ''manifest'') = Some (PDict (ap_manifest p))"
    "dget (pack_dict p) (U ''ciphertext_b64'') = Some (PStr (ap_ciphertext p))"
    "dget (pack_dict p) (U ''nonce_b64'') = Some (PStr (ap_nonce p))"
    "dget (pack_dict p) (U ''salt_b64'') = Some (PStr (ap_salt p))"
    "dget (pack_dict p) (U ''signature_b64'') = Some (PStr (ap_signature p))"
    by (simp_all add: pack_dict_def dget_def)
  then have "pack_of (norm_dict (pack_dict p)) = Inr \<lparr>ap_manifest = norm_dict (ap_manifest p), ap_ciphertext = ap_ciphertext p,
      ap_nonce = ap_nonce p, ap_salt = ap_salt p, ap_signature = ap_signature p\<rparr>" by (simp add: pack_of_def look)
  then show ?thesis by (cases p) simp
qed

lemma pack_round:
  assumes ok: "suite_ok cs" and spec: "plain (PDict spec)" and "octets salt" and "octets nonce"
    and new: "new_crypto private cost = Inr c" and enc: "encrypt_spec cs c salt nonce spec passphrase = Inr p"
  shows "verify_and_decrypt cs p passphrase = Inr (json_norm (PDict spec)) \<and>
    (case pack_of (norm_dict (pack_dict p)) of
       Inl e \<Rightarrow> False
     | Inr q \<Rightarrow> verify_and_decrypt cs q passphrase = Inr (json_norm (PDict spec)))"
proof -
  have good: "good_cost (sc_scrypt_n c)" using new by (auto simp: new_crypto_def split: if_splits)
  from enc obtain key where key: "pack_key cs passphrase salt (sc_scrypt_n c) = Inr key"
    by (auto simp: encrypt_spec_def split: if_splits sum.splits)
  define ct where "ct = cs_seal cs key nonce (pack_bytes cs spec)"
  define m where "m = manifest_of cs c salt nonce spec ct"
  define sig where "sig = cs_sign cs (sc_private c) (pack_bytes cs m @ ct)"
  from enc key have p: "p = \<lparr>ap_manifest = m, ap_ciphertext = std_encode ct, ap_nonce = std_encode nonce,
      ap_salt = std_encode salt, ap_signature = std_encode sig\<rparr>"
    by (simp add: encrypt_spec_def ct_def m_def sig_def Let_def split: if_splits)
  have "octets (pack_bytes cs spec)"
    using canonical_bytes [OF _ spec, of "cs_float_text cs" "cs_float cs"] ok
    by (auto simp: suite_ok_def pack_bytes_def octets_def list_all_iff)
  then have o: "octets ct" "octets sig" "octets (cs_public cs (sc_private c))" "length (cs_public cs (sc_private c)) = 32"
    "cs_verify cs (cs_public cs (sc_private c)) sig (pack_bytes cs m @ ct)"
    using ok by (simp_all add: suite_ok_def ct_def sig_def)
  have key_ok: "manifest_key m = Inr (cs_public cs (sc_private c))"
    "manifest_key (norm_dict m) = Inr (cs_public cs (sc_private c))"
    using o(3,4) by (simp_all add: m_def manifest_key_def manifest_norm_entries manifest_entries public_key_text_def text_bytes_encode)
  note opens = pack_opens [OF ok spec good key ct_def m_def]
  have "verify_and_decrypt cs p passphrase = Inr (json_norm (PDict spec))"
    using key_ok(1) o assms(3,4) opens(1) by (simp add: p verify_and_decrypt_def text_bytes_encode del: json_norm.simps)
  moreover have "verify_and_decrypt cs (p\<lparr>ap_manifest := norm_dict m\<rparr>) passphrase = Inr (json_norm (PDict spec))"
    using key_ok(2) o assms(3,4) opens(2) by (simp add: p verify_and_decrypt_def text_bytes_encode norm_bytes del: json_norm.simps)
  ultimately show ?thesis by (simp add: pack_of_norm p del: json_norm.simps)
qed

text \<open>C37: 
  C1: A pack comes back. Whoever has the passphrase gets the specification with sorted keys out of the pack that was made
  of it, both out of the pack itself and out of what a JSON file makes of its dictionary.
\<close>

theorem pack_comes_back:
  assumes ok: "suite_ok cs" and spec: "plain (PDict spec)" and "octets salt" and "octets nonce"
    and new: "new_crypto private cost = Inr c" and enc: "encrypt_spec cs c salt nonce spec passphrase = Inr p"
  shows "verify_and_decrypt cs p passphrase = Inr (json_norm (PDict spec)) \<and>
    (case pack_of (norm_dict (pack_dict p)) of
       Inl e \<Rightarrow> False
     | Inr q \<Rightarrow> verify_and_decrypt cs q passphrase = Inr (json_norm (PDict spec)))"
  by (rule pack_round [OF assms])

section \<open>What a signature covers\<close>

text \<open>What a key has signed: the message of each pack that was made with it.\<close>

type_synonym pack_issue = "bytes \<times> bytes \<times> (str, pyval) dict \<times> bytes"

definition issue_message :: "suite \<Rightarrow> spec_crypto \<Rightarrow> pack_issue \<Rightarrow> bytes" where
  "issue_message cs c = (\<lambda>(salt, nonce, spec, ct). pack_bytes cs (manifest_of cs c salt nonce spec ct) @ ct)"

text \<open>The signature of a pack is no forgery: it is good for no message but those of the packs made with the key.\<close>

definition unforged :: "suite \<Rightarrow> spec_crypto \<Rightarrow> pack_issue list \<Rightarrow> agent_pack \<Rightarrow> bool" where
  "unforged cs c issues p \<longleftrightarrow>
     (\<forall>sig m. text_bytes (ap_signature p) = Inr sig \<and> cs_verify cs (cs_public cs (sc_private c)) sig m \<longrightarrow>
        m \<in> set (map (issue_message cs c) issues))"

lemma accepted_parts:
  assumes "verify_and_decrypt cs p passphrase = Inr spec"
  obtains key ct nonce salt sig where "manifest_key (ap_manifest p) = Inr key" "text_bytes (ap_ciphertext p) = Inr ct"
    "text_bytes (ap_signature p) = Inr sig" "cs_verify cs key sig (pack_bytes cs (ap_manifest p) @ ct)"
    "open_spec cs (ap_manifest p) ct nonce salt passphrase = Inr spec"
  using assms by (auto simp: verify_and_decrypt_def split: sum.splits if_splits)

lemma opened_hash:
  "open_spec cs m ct nonce salt passphrase = Inr spec \<Longrightarrow>
   hash_claim m ''spec_hash_sha256'' (cs_sha cs (json_canonical (cs_float_text cs) spec))"
  by (auto simp: open_spec_def split: if_splits sum.splits option.splits)


text \<open>A pack says who signed it, and anyone can sign: with another key in the manifest the same text passes again.\<close>

lemma other_key_accepted:
  assumes ok: "suite_ok cs" and "plain (PDict spec)" and "octets salt" and "octets nonce" and "good_cost n"
    and "list_all scalar passphrase" and "passphrase \<noteq> []"
  shows "\<exists>p. encrypt_spec cs \<lparr>sc_private = other, sc_scrypt_n = n\<rparr> salt nonce spec passphrase = Inr p \<and>
    verify_and_decrypt cs p passphrase = Inr (json_norm (PDict spec)) \<and>
    dget (ap_manifest p) (U ''creator'') = Some (PStr (case dget spec (U ''creator'') of None \<Rightarrow> U ''unknown''
      | Some v \<Rightarrow> py_str (cs_float_text cs) v))"
proof -
  let ?c = "\<lparr>sc_private = other, sc_scrypt_n = n\<rparr>"
  obtain p where p: "encrypt_spec cs ?c salt nonce spec passphrase = Inr p"
    using assms(6,7) by (simp add: encrypt_spec_def pack_key_def Let_def)
  then have "dget (ap_manifest p) (U ''creator'') = Some (PStr (case dget spec (U ''creator'') of None \<Rightarrow> U ''unknown''
      | Some v \<Rightarrow> py_str (cs_float_text cs) v))"
    using assms(6,7) by (auto simp: encrypt_spec_def pack_key_def Let_def manifest_of_def dget_def)
  moreover have "new_crypto other n = Inr ?c" using assms(5) by (simp add: new_crypto_def)
  from pack_round [OF ok assms(2-4) this p] have "verify_and_decrypt cs p passphrase = Inr (json_norm (PDict spec))" ..
  ultimately show ?thesis using p by blast
qed

section \<open>Witnesses\<close>

definition toy_sign :: "bytes \<Rightarrow> bytes" where
  "toy_sign m = concat (map (\<lambda>b. replicate b 1 @ [0]) m)"

lemma replicate_marks: "replicate a (1 :: nat) @ 0 # x = replicate b 1 @ 0 # y \<Longrightarrow> a = b \<and> x = y"
proof (induction a arbitrary: b)
  case 0
  then show ?case by (cases b) auto
next
  case (Suc a)
  then show ?case by (cases b) auto
qed

lemma toy_sign_inj: "toy_sign m = toy_sign m' \<Longrightarrow> m = m'"
proof (induction m arbitrary: m')
  case Nil
  then show ?case by (cases m') (auto simp: toy_sign_def)
next
  case (Cons a m)
  then obtain b n where m': "m' = b # n" by (cases m') (auto simp: toy_sign_def)
  with Cons.prems have "replicate a 1 @ 0 # toy_sign m = replicate b 1 @ 0 # toy_sign n" by (simp add: toy_sign_def)
  from replicate_marks [OF this] Cons.IH m' show ?case by blast
qed

definition toy_suite :: suite where
  "toy_suite = \<lparr>cs_sha = flat_sha, cs_scrypt = (\<lambda>p s n. []), cs_seal = (\<lambda>k n p. p), cs_open = (\<lambda>k n p. Some p),
     cs_public = (\<lambda>sk. replicate 32 0), cs_sign = (\<lambda>sk m. toy_sign m), cs_verify = (\<lambda>pk sig m. sig = toy_sign m),
     cs_float_text = ratio_text, cs_float = ratio_read, cs_int = (\<lambda>s. None)\<rparr>"

lemma toy_suite_ok: "suite_ok toy_suite"
proof -
  have "octets (toy_sign m)" for m by (auto simp: octets_def toy_sign_def list_all_iff)
  then show ?thesis using flat_params by (simp add: suite_ok_def toy_suite_def octets_def doc_params_def list_all_iff)
qed

definition toy_spec :: "(str, pyval) dict" where
  "toy_spec = [(U ''creator'', PStr (U ''me''))]"

definition toy_crypto :: spec_crypto where
  "toy_crypto = \<lparr>sc_private = [], sc_scrypt_n = 131072\<rparr>"

lemma toy_crypto_new: "new_crypto [] 131072 = Inr toy_crypto"
  by (simp add: new_crypto_def good_cost_def MIN_SCRYPT_N_def toy_crypto_def)

lemma toy_spec_plain: "plain (PDict toy_spec)"
  by (simp add: toy_spec_def)

definition toy_pack :: agent_pack where
  "toy_pack = (let ct = pack_bytes toy_suite toy_spec; m = manifest_of toy_suite toy_crypto [] [] toy_spec ct
     in \<lparr>ap_manifest = m, ap_ciphertext = std_encode ct, ap_nonce = std_encode [], ap_salt = std_encode [],
          ap_signature = std_encode (toy_sign (pack_bytes toy_suite m @ ct))\<rparr>)"

lemma toy_encrypt: "encrypt_spec toy_suite toy_crypto [] [] toy_spec (U ''pw'') = Inr toy_pack"
proof -
  have "U ''pw'' \<noteq> []" "list_all scalar (U ''pw'')" by (simp_all add: U_def scalar_def)
  then show ?thesis by (simp add: encrypt_spec_def pack_key_def toy_pack_def toy_suite_def Let_def)
qed

theorem pack_comes_back_witness:
  "verify_and_decrypt toy_suite toy_pack (U ''pw'') = Inr (json_norm (PDict toy_spec))"
  using pack_comes_back [OF toy_suite_ok toy_spec_plain _ _ toy_crypto_new toy_encrypt] by (simp add: octets_def)


end
