(* ===== verification/AgentScaffolds.thy ===== *)
theory AgentScaffolds
  imports PyJson
begin

text \<open>
  \<^verbatim>\<open>agent/scaffolds\<close>: intake of a repository, verification hooks, the rubric for patches, disclosure packets and the
  orchestrator that runs them. The repository is what its file system answers (\<open>repository\<close>); a hook is any function
  of the target and the finding; written packets are a dictionary from the name below the output directory to the text.
\<close>

section \<open>Types\<close>

datatype severity = LOW_SEV | MODERATE | HIGH_SEV | CRITICAL

datatype confidence = HYPOTHESIS | PLAUSIBLE | VERIFIED

fun severity_text :: "severity \<Rightarrow> str" where
  "severity_text LOW_SEV = U ''low''"
| "severity_text MODERATE = U ''moderate''"
| "severity_text HIGH_SEV = U ''high''"
| "severity_text CRITICAL = U ''critical''"

fun confidence_text :: "confidence \<Rightarrow> str" where
  "confidence_text HYPOTHESIS = U ''hypothesis''"
| "confidence_text PLAUSIBLE = U ''plausible''"
| "confidence_text VERIFIED = U ''verified''"

text \<open>The file system below a root: its last name, what exists, the texts, and the names of the regular files.\<close>

record repository =
  rp_name :: str
  rp_exists :: "str \<Rightarrow> bool"
  rp_text :: "str \<Rightarrow> str"
  rp_files :: "str list"

record target_context =
  tc_name :: str
  tc_root :: repository
  tc_languages :: "str list"
  tc_build_files :: "str list"
  tc_test_commands :: "str list"
  tc_notes :: "str list"
  tc_file_count_hint :: nat

record finding_candidate =
  fc_identifier :: str
  fc_title :: str
  fc_summary :: str
  fc_severity :: severity
  fc_confidence :: confidence
  fc_files :: "str list"
  fc_evidence :: "str list"
  fc_remediation_notes :: "str list"
  fc_metadata :: "(str, pyval) dict"

record verification_outcome =
  vo_finding_id :: str
  vo_passed :: bool
  vo_confidence :: confidence
  vo_verifier_name :: str
  vo_details :: str
  vo_artifacts :: "str list"

record patch_assessment =
  pa_finding_id :: str
  pa_summary :: str
  pa_removes_trigger :: bool
  pa_preserves_behavior :: bool
  pa_reviewer_checks :: "str list"
  pa_regression_risks :: "str list"
  pa_notes :: "str list"

record disclosure_packet =
  dp_finding :: finding_candidate
  dp_verification :: verification_outcome
  dp_patch :: "patch_assessment option"
  dp_steps :: "str list"
  dp_notes :: "str list"
  dp_references :: "str list"

definition truth_text :: "bool \<Rightarrow> str" where
  "truth_text b = (if b then U ''True'' else U ''False'')"

definition bullets :: "str list \<Rightarrow> str" where
  "bullets xs = (let t = join [10] (map (\<lambda>x. U ''- '' @ x) xs) in if t = [] then U ''- None'' else t)"

definition patch_lines :: "patch_assessment option \<Rightarrow> str list" where
  "patch_lines p = (case p of
     None \<Rightarrow> []
   | Some a \<Rightarrow>
       [U ''## Patch assessment'', U ''- Summary: '' @ pa_summary a,
        U ''- Trigger removed: '' @ truth_text (pa_removes_trigger a),
        U ''- Behavior preserved: '' @ truth_text (pa_preserves_behavior a)] @
       (if pa_reviewer_checks a = [] then []
        else U ''- Reviewer checks:'' # map (\<lambda>x. U ''  - '' @ x) (pa_reviewer_checks a)))"

definition to_markdown :: "disclosure_packet \<Rightarrow> str" where
  "to_markdown p =
     (let f = dp_finding p; v = dp_verification p; pl = patch_lines (dp_patch p);
          patch_block = (if pl = [] then U ''## Patch assessment'' @ [10] @ U ''- Not provided'' else join [10] pl)
      in join [10]
        [U ''# Disclosure Packet: '' @ fc_title f, [], U ''## Finding'', U ''- ID: '' @ fc_identifier f,
         U ''- Severity: '' @ severity_text (fc_severity f), U ''- Confidence: '' @ confidence_text (fc_confidence f),
         U ''- Summary: '' @ fc_summary f, [], U ''## Evidence'', bullets (fc_evidence f), [], U ''## Verification'',
         U ''- Verifier: '' @ vo_verifier_name v, U ''- Passed: '' @ truth_text (vo_passed v),
         U ''- Confidence: '' @ confidence_text (vo_confidence v), U ''- Details: '' @ vo_details v, [],
         U ''## Reproduction steps'', bullets (dp_steps p), [], U ''## Maintainer notes'', bullets (dp_notes p), [],
         patch_block, [], U ''## References'', bullets (dp_references p)])"

section \<open>Intake\<close>

definition BUILD_FILE_CANDIDATES :: "str list" where
  "BUILD_FILE_CANDIDATES = map U [''pyproject.toml'', ''package.json'', ''Cargo.toml'', ''go.mod'', ''Makefile'',
     ''Dockerfile'', ''docker-compose.yml'', ''requirements.txt'']"

text \<open>\<^verbatim>\<open>Path.suffix\<close> of a file name: from the last dot on, if something stands before and after it.\<close>

definition path_suffix :: "str \<Rightarrow> str" where
  "path_suffix name =
     (let after = rev (takeWhile (\<lambda>c. c \<noteq> 46) (rev name)); before = length name - length after
      in if 46 \<in> set name \<and> 1 < before \<and> after \<noteq> [] then 46 # after else [])"

definition suffix_map :: "(str, str) dict" where
  "suffix_map = map (\<lambda>(k, v). (U k, U v))
     [(''.py'', ''python''), (''.ts'', ''typescript''), (''.tsx'', ''typescript''), (''.js'', ''javascript''), (''.rs'', ''rust''),
      (''.go'', ''go''), (''.java'', ''java''), (''.cc'', ''cpp''), (''.cpp'', ''cpp''), (''.c'', ''c''), (''.mjs'', ''javascript'')]"

definition detect_languages :: "repository \<Rightarrow> str list" where
  "detect_languages r = sort (remdups (List.map_filter (\<lambda>f. dget suffix_map (path_suffix f)) (rp_files r)))"

definition infer_test_commands :: "str list \<Rightarrow> str list" where
  "infer_test_commands build =
     (if U ''pyproject.toml'' \<in> set build \<or> U ''requirements.txt'' \<in> set build then [U ''python -m pytest -q''] else []) @
     (if U ''package.json'' \<in> set build then [U ''npm test''] else []) @
     (if U ''Cargo.toml'' \<in> set build then [U ''cargo test''] else []) @
     (if U ''go.mod'' \<in> set build then [U ''go test ./...''] else []) @
     (if U ''Makefile'' \<in> set build then [U ''make test''] else [])"

definition count_source_files :: "repository \<Rightarrow> nat" where
  "count_source_files r = length (filter (\<lambda>f. path_suffix f \<in>
     set (map U [''.py'', ''.js'', ''.ts'', ''.rs'', ''.go'', ''.c'', ''.cc'', ''.cpp''])) (rp_files r))"

definition from_path :: "repository \<Rightarrow> str option \<Rightarrow> target_context" where
  "from_path r name =
     (let build = filter (rp_exists r) BUILD_FILE_CANDIDATES
      in \<lparr>tc_name = (case name of Some n \<Rightarrow> if n = [] then rp_name r else n | None \<Rightarrow> rp_name r), tc_root = r,
          tc_languages = detect_languages r, tc_build_files = build, tc_test_commands = infer_test_commands build,
          tc_notes = (if rp_exists r (U ''tests'') then [U ''tests directory present''] else []) @
            (if rp_exists r (U ''.github'') then [U ''github automation present''] else []) @
            (if rp_exists r (U ''.gitlab-ci.yml'') then [U ''gitlab ci present''] else []),
          tc_file_count_hint = count_source_files r\<rparr>)"

section \<open>Verification\<close>

type_synonym hook = "target_context \<Rightarrow> finding_candidate \<Rightarrow> verification_outcome"

fun confidence_rank :: "confidence \<Rightarrow> nat" where
  "confidence_rank HYPOTHESIS = 0"
| "confidence_rank PLAUSIBLE = 1"
| "confidence_rank VERIFIED = 2"

text \<open>\<^verbatim>\<open>max\<close> with a key: the first of the greatest.\<close>

fun max_confidence :: "confidence \<Rightarrow> confidence list \<Rightarrow> confidence" where
  "max_confidence best [] = best"
| "max_confidence best (c # cs) =
     max_confidence (if confidence_rank best < confidence_rank c then c else best) cs"

definition verify_finding :: "hook list \<Rightarrow> target_context \<Rightarrow> finding_candidate \<Rightarrow> verification_outcome" where
  "verify_finding hooks target f =
     (let outcomes = map (\<lambda>h. h target f) hooks
      in if outcomes = []
         then \<lparr>vo_finding_id = fc_identifier f, vo_passed = False, vo_confidence = HYPOTHESIS,
               vo_verifier_name = U ''no-verifier'', vo_details = U ''No verification hooks were configured.'', vo_artifacts = []\<rparr>
         else
           (let passed = list_all vo_passed outcomes
            in \<lparr>vo_finding_id = fc_identifier f, vo_passed = passed,
                vo_confidence = (if passed then VERIFIED
                  else max_confidence (vo_confidence (hd outcomes)) (map vo_confidence (tl outcomes))),
                vo_verifier_name = join [44] (map vo_verifier_name outcomes),
                vo_details = join (U '' | '') (map vo_details outcomes),
                vo_artifacts = concat (map vo_artifacts outcomes)\<rparr>))"

definition path_exists_verifier :: "str \<Rightarrow> hook" where
  "path_exists_verifier path target f =
     (let there = rp_exists (tc_root target) path
      in \<lparr>vo_finding_id = fc_identifier f, vo_passed = there, vo_confidence = (if there then PLAUSIBLE else HYPOTHESIS),
          vo_verifier_name = U ''path-exists:'' @ path,
          vo_details = (if there then U ''Confirmed presence of '' @ path @ U '' required for the finding context.''
            else U ''Missing expected file '' @ path @ U ''.''),
          vo_artifacts = (if there then [path] else [])\<rparr>)"

definition keyword_verifier :: "str \<Rightarrow> str \<Rightarrow> hook" where
  "keyword_verifier path keyword target f =
     (if \<not> rp_exists (tc_root target) path
      then \<lparr>vo_finding_id = fc_identifier f, vo_passed = False, vo_confidence = HYPOTHESIS,
            vo_verifier_name = U ''keyword:'' @ path, vo_details = U ''Cannot inspect missing file '' @ path @ U ''.'',
            vo_artifacts = []\<rparr>
      else
        (let matched = str_in keyword (rp_text (tc_root target) path)
         in \<lparr>vo_finding_id = fc_identifier f, vo_passed = matched,
             vo_confidence = (if matched then PLAUSIBLE else HYPOTHESIS), vo_verifier_name = U ''keyword:'' @ path,
             vo_details = (if matched then U ''Located keyword '' @ [39] @ keyword @ [39] @ U '' in '' @ path @ U ''.''
               else U ''Keyword '' @ [39] @ keyword @ [39] @ U '' not found in '' @ path @ U ''.''),
             vo_artifacts = (if matched then [path] else [])\<rparr>))"

section \<open>Patches, packets and the run\<close>

definition assess_patch ::
  "bool \<Rightarrow> finding_candidate \<Rightarrow> verification_outcome \<Rightarrow> str \<Rightarrow> bool \<Rightarrow> bool \<Rightarrow> str list \<Rightarrow> str list \<Rightarrow> patch_assessment" where
  "assess_patch require_checks f v summary removes preserves checks risks =
     \<lparr>pa_finding_id = fc_identifier f, pa_summary = summary, pa_removes_trigger = removes,
      pa_preserves_behavior = preserves,
      pa_reviewer_checks = (if require_checks \<and> checks = []
        then map U [''Run the smallest reproducer before and after the patch.'',
          ''Run the target project's existing regression suite.'',
          ''Confirm no new unsafe configuration paths were introduced.''] else checks),
      pa_regression_risks = risks,
      pa_notes =
        (if \<not> vo_passed v
         then [U ''Underlying finding has not been fully verified; patch should not be merged on AI judgment alone.''] else []) @
        (if \<not> removes then [U ''Patch does not yet demonstrate removal of the trigger condition.''] else []) @
        (if \<not> preserves then [U ''Patch may alter intended behavior and needs maintainer review.''] else [])\<rparr>"

definition build_packet ::
  "finding_candidate \<Rightarrow> verification_outcome \<Rightarrow> patch_assessment option \<Rightarrow> disclosure_packet" where
  "build_packet f v patch =
     \<lparr>dp_finding = f, dp_verification = v, dp_patch = patch,
      dp_steps = map U [''Check out the affected revision in an isolated environment.'',
        ''Run the minimal reproducer or verifier attached to the report.'',
        ''Apply the candidate patch in a review branch.'',
        ''Re-run the reproducer and the project's regression tests.''],
      dp_notes = map U [''Treat AI-generated analysis as a lead, not as sole proof.'',
        ''Prefer private triage until severity and exploitability are understood.'',
        ''Confirm fix scope against adjacent code paths before public disclosure.''],
      dp_references = map U [''Coordinated vulnerability disclosure process'', ''Repository-specific test suite'']\<rparr>"

definition packet_name :: "disclosure_packet \<Rightarrow> str" where
  "packet_name p = fc_identifier (dp_finding p) @ U ''.md''"

text \<open>\<^verbatim>\<open>write_text\<close> raises on a text that has no UTF-8 form, after truncating the file.\<close>

definition write_packet :: "disclosure_packet \<Rightarrow> (str, str) dict \<Rightarrow> str option \<times> (str, str) dict" where
  "write_packet p files =
     (if list_all scalar (to_markdown p) then (Some (packet_name p), dset (packet_name p) (to_markdown p) files)
      else (None, dset (packet_name p) [] files))"

record research_report =
  rr_target :: target_context
  rr_findings :: "finding_candidate list"
  rr_verifications :: "verification_outcome list"
  rr_disclosures :: "str list"

definition research_packet :: "hook list \<Rightarrow> bool \<Rightarrow> target_context \<Rightarrow> finding_candidate \<Rightarrow> disclosure_packet" where
  "research_packet hooks require_checks target f =
     (let v = verify_finding hooks target f;
          patch = assess_patch require_checks f v (U ''Manual maintainer patch required after deterministic confirmation.'')
            (vo_passed v) True [] []
      in build_packet f v (Some patch))"

fun research_loop ::
  "hook list \<Rightarrow> bool \<Rightarrow> target_context \<Rightarrow> finding_candidate list \<Rightarrow> research_report \<times> (str, str) dict
     \<Rightarrow> research_report option \<times> (str, str) dict" where
  "research_loop hooks checks target [] (r, files) = (Some r, files)"
| "research_loop hooks checks target (f # fs) (r, files) =
     (let p = research_packet hooks checks target f
      in case write_packet p files of
           (None, files) \<Rightarrow> (None, files)
         | (Some name, files) \<Rightarrow>
             research_loop hooks checks target fs
               (r\<lparr>rr_verifications := rr_verifications r @ [dp_verification p],
                  rr_disclosures := rr_disclosures r @ [name]\<rparr>, files))"

definition research_run ::
  "hook list \<Rightarrow> bool \<Rightarrow> repository \<Rightarrow> finding_candidate list \<Rightarrow> (str, str) dict
     \<Rightarrow> research_report option \<times> (str, str) dict" where
  "research_run hooks checks place candidates files =
     (let target = from_path place None
      in research_loop hooks checks target candidates
           (\<lparr>rr_target = target, rr_findings = candidates, rr_verifications = [], rr_disclosures = []\<rparr>, files))"

section \<open>What a run reports\<close>

lemma max_confidence_VERIFIED: "max_confidence b cs = VERIFIED \<longleftrightarrow> b = VERIFIED \<or> VERIFIED \<in> set cs"
proof (induction b cs rule: max_confidence.induct)
  case (2 b c cs)
  then show ?case by (cases b; cases c) auto
qed simp

lemma verified_iff:
  "vo_passed (verify_finding hooks t f) \<longleftrightarrow> hooks \<noteq> [] \<and> (\<forall>h \<in> set hooks. vo_passed (h t f))"
  "vo_confidence (verify_finding hooks t f) = VERIFIED \<longleftrightarrow> hooks \<noteq> [] \<and>
     ((\<forall>h \<in> set hooks. vo_passed (h t f)) \<or> (\<exists>h \<in> set hooks. vo_confidence (h t f) = VERIFIED))"
proof -
  show "vo_passed (verify_finding hooks t f) \<longleftrightarrow> hooks \<noteq> [] \<and> (\<forall>h \<in> set hooks. vo_passed (h t f))"
    by (simp add: verify_finding_def Let_def list_all_iff)
  show "vo_confidence (verify_finding hooks t f) = VERIFIED \<longleftrightarrow> hooks \<noteq> [] \<and>
     ((\<forall>h \<in> set hooks. vo_passed (h t f)) \<or> (\<exists>h \<in> set hooks. vo_confidence (h t f) = VERIFIED))"
    by (cases hooks) (simp_all add: verify_finding_def Let_def list_all_iff max_confidence_VERIFIED image_iff eq_commute [of VERIFIED], blast)
qed

text \<open>The hooks the module makes itself.\<close>

definition built_in :: "hook \<Rightarrow> bool" where
  "built_in h \<longleftrightarrow> (\<exists>path. h = path_exists_verifier path) \<or> (\<exists>path keyword. h = keyword_verifier path keyword)"

lemma built_in_modest: "built_in h \<Longrightarrow> vo_confidence (h t f) \<noteq> VERIFIED"
  by (auto simp: built_in_def path_exists_verifier_def keyword_verifier_def Let_def split: if_splits)

lemma packet_parts:
  "dp_verification (research_packet hooks checks t f) = verify_finding hooks t f"
  "packet_name (research_packet hooks checks t f) = fc_identifier f @ U ''.md''"
  by (simp_all add: research_packet_def build_packet_def packet_name_def Let_def)

lemma research_loop_reports:
  "research_loop hooks checks t fs (r, files) = (Some r', files') \<Longrightarrow>
   rr_target r' = rr_target r \<and> rr_findings r' = rr_findings r \<and>
   rr_verifications r' = rr_verifications r @ map (verify_finding hooks t) fs \<and>
   rr_disclosures r' = rr_disclosures r @ map (\<lambda>f. fc_identifier f @ U ''.md'') fs \<and>
   (\<forall>name. name \<notin> set (map (\<lambda>f. fc_identifier f @ U ''.md'') fs) \<longrightarrow> dget files' name = dget files name) \<and>
   (distinct (map fc_identifier fs) \<longrightarrow> (\<forall>f \<in> set fs.
      dget files' (fc_identifier f @ U ''.md'') = Some (to_markdown (research_packet hooks checks t f))))"
proof (induction fs arbitrary: r files)
  case (Cons f fs)
  let ?p = "research_packet hooks checks t f"
  let ?r = "r\<lparr>rr_verifications := rr_verifications r @ [dp_verification ?p], rr_disclosures := rr_disclosures r @ [packet_name ?p]\<rparr>"
  let ?files = "dset (packet_name ?p) (to_markdown ?p) files"
  from Cons.prems have "research_loop hooks checks t fs (?r, ?files) = (Some r', files')"
    by (simp add: write_packet_def Let_def split: if_splits)
  from Cons.IH [OF this] show ?case by (fastforce simp: packet_parts)
qed simp


definition small_repo :: repository where
  "small_repo = \<lparr>rp_name = U ''r'', rp_exists = (\<lambda>p. p = U ''a.py''), rp_text = (\<lambda>p. U ''eval(x)''), rp_files = [U ''a.py'']\<rparr>"

definition small_finding :: finding_candidate where
  "small_finding = \<lparr>fc_identifier = U ''F1'', fc_title = U ''t'', fc_summary = U ''s'', fc_severity = HIGH_SEV,
     fc_confidence = HYPOTHESIS, fc_files = [], fc_evidence = [], fc_remediation_notes = [], fc_metadata = []\<rparr>"

lemma scalar_join: "list_all scalar s \<Longrightarrow> list_all (list_all scalar) xs \<Longrightarrow> list_all scalar (join s xs)"
  by (induction s xs rule: join.induct) simp_all


end
