(* ===== verification/Spec2Isabelle.thy ===== *)
theory Spec2Isabelle
  imports AegisSession ShieldBroker MythosDrift MythosRuntime HarnessSafety HarnessReact
    TaskMachine VaultLedger VitalityGate VitalityMemory VitalityFitness GeminiTurns VeriflowLogic
    GenesisEngine SentinelChat CelestialGlyphs CelestialPack AgentScaffolds
begin

text \<open>
  Ethos Aegis: a verification library for the Python part of the repository (paths below are relative to
  \<^verbatim>\<open>src/python/ethos_aegis\<close> unless they start with \<^verbatim>\<open>src\<close>).

  \<^bold>\<open>The program.\<close> A guard of seven cells judges payloads (\<^verbatim>\<open>core/aegis.py\<close>); a vitality layer normalises, throttles,
  nourishes and exercises it (\<^verbatim>\<open>vitality/protocol.py\<close>); an engine turns remembered threats into new patterns
  (\<^verbatim>\<open>agent/genesis.py\<close>) and a wrapper puts all of it before a model (\<^verbatim>\<open>agent/sentinel_ai.py\<close>). Beside it stand a
  reference monitor for tools and secrets (\<^verbatim>\<open>private_shield\<close>), a runtime for verified writes, grants, evidence and
  budgets (\<^verbatim>\<open>mythos_runtime\<close>), an agent loop (\<^verbatim>\<open>harness\<close>) guarded by the core, a vault (\<^verbatim>\<open>security/vault.py\<close>), the task
  engine (\<^verbatim>\<open>src/simulation\<close>, \<^verbatim>\<open>src/ethos_core\<close>), signed agent packs (\<^verbatim>\<open>celestial\<close>), research scaffolds
  (\<^verbatim>\<open>agent/scaffolds\<close>) and the logic of VeriFlow (\<^verbatim>\<open>veriflow/logic_laws.py\<close>).

  \<^bold>\<open>Python.\<close> \<open>PyPrelude\<close> has texts as lists of code points, dictionaries as lists of pairs in insertion order and
  results as sums; \<open>PyFloat\<close> binary64 arithmetic as rounded rationals (no infinities: the modelled code makes none);
  \<open>PyRegex\<close> the backtracking matcher, \<open>PyJson\<close>, \<open>PyJsonRead\<close>, \<open>PyJsonKeep\<close>, \<open>PyBase64\<close>, \<open>PyWire\<close> the texts and bytes on the wire.
  The JSON reader has fuel of twice the length of its input and one: \<open>read_stable\<close> shows that more changes nothing.

  \<^bold>\<open>The guard.\<close> \<open>AegisTypes\<close>, \<open>AegisPatterns\<close>, \<open>AegisScan\<close>, \<open>AegisCells\<close>, \<open>AegisCore\<close>: data, patterns, the cells, the six
  stages and the verdict (\<open>adjudicate_by\<close> is generic in the stages, so that the nourished guard reuses it).
  \<open>AegisSession\<close>: what holds after any history, when a payload is condemned, what is never sanctified, and what the acuity
  storms silence.

  \<^bold>\<open>Vitality, genesis, wrapper.\<close> \<open>VitalityGate\<close> (baseline, buffer, boost, \<open>adjudicate_with_vitality\<close> over any guard),
  \<open>VitalityMemory\<close> (consolidation), \<open>NutrientPlex\<close> and \<open>NutrientEffect\<close> (the packs; the locale \<open>cell_pass\<close> is the contract of
  a guard's cells, interpreted for the plain and the nourished guard), \<open>VitalityCare\<close> and \<open>VitalityFitness\<close> (exercise, report,
  treatment), \<open>GenesisEngine\<close>, \<open>SentinelChat\<close>. They show that nourishing only adds findings, that storms take the
  additions away again, that the treatment itself raises such storms, that the circuit of the buffer locks everybody
  out, and that no refused message reaches the model while an unjudged tail may.

  \<^bold>\<open>Private shield.\<close> \<open>ShieldPaths\<close>, \<open>ShieldPolicy\<close>, \<open>HashChain\<close> (the chain as a locale), \<open>ShieldAudit\<close>, \<open>ShieldRuntime\<close>,
  \<open>ShieldBroker\<close>: canonical paths, the decision as a constitution, receipts, mediation of every call, leases and outputs.

  \<^bold>\<open>Mythos runtime.\<close> \<open>MythosFiles\<close>, \<open>MythosDrift\<close>, \<open>MythosAuthority\<close>, \<open>MythosLedger\<close>, \<open>MythosEvidence\<close>, \<open>MythosRuntime\<close>: writes stay
  below the root, grants verify and cover, evidence is a suffix of what was returned, decisions leave evidence.

  \<^bold>\<open>Harness.\<close> \<open>HarnessTypes\<close>, \<open>HarnessParser\<close>, \<open>HarnessContext\<close>, \<open>HarnessTools\<close>, \<open>HarnessMemory\<close>, \<open>HarnessCheckpoint\<close>,
  \<open>HarnessGuard\<close>, \<open>HarnessLoop\<close>, \<open>HarnessInvariants\<close>, \<open>HarnessSafety\<close>, \<open>HarnessReact\<close>: the loop ends for every environment
  and no tool runs with arguments the guard knows as harmful. Models, tools and callbacks answer from the
  history of the run; the turn limit bounds the loop.

  \<^bold>\<open>The rest.\<close> \<open>VaultStore\<close>, \<open>VaultLedger\<close>, \<open>TaskMachine\<close>, \<open>GeminiTurns\<close>, \<open>VeriflowLogic\<close>, \<open>CelestialGlyphs\<close>, \<open>CelestialPack\<close>,
  \<open>AgentScaffolds\<close>, each on its own.

  \<^bold>\<open>Parameters.\<close> SHA-256, HMAC, key derivation, AES-GCM, Ed25519, the text of a float, time texts and clocks, random
  bytes, Unicode normalisation, the file system where it is only asked, and what models, tools, handlers and adapters
  answer. What is assumed of them is a named definition in the hypotheses (\<open>doc_params\<close>, \<open>suite_ok\<close>, \<open>raw_mac\<close>,
  \<open>counted\<close>), and each such property has a witness with a concrete instance. Where security rests on a hash, the
  statement says: or two different inputs collide. Searching a glyph is bounded by the \<open>2 ^ 32\<close> counters of the source.

  \<^bold>\<open>Not modelled.\<close> HTTP servers and clients, command lines, logging, the vendor adapters beyond the message
  conversion for Gemini, the runners and parsers for external scanners, the CKAN client and the statistics of
  VeriFlow, its immune systems (they refer to names that do not exist), plots and metrics of task histories, the
  graph driver, and the code in other languages: input and output, or calls of libraries, without decisions of
  their own, except for the scanner policies and parsers and the change watcher, which are left for later work.
\<close>

end
